(* ===== verification/Prelude.thy ===== *)
theory Prelude
  imports Main "HOL-Library.Word"
begin

text \<open>
  Shared vocabulary of the development: the machine integer types of the C code, the byte
  memory of the machine, little-endian loads and stores, address ranges, the undefined
  behaviours that the models make explicit, and the generic lemmas and fact collections the
  component theories rely on.

  The program is compiled for x86\_64 without optimisation flags, so \<open>size_t\<close>,
  \<open>uint64_t\<close> and pointers are 64-bit words whose arithmetic wraps, and memory is a
  total function from 64-bit addresses to bytes. A struct in memory is read and written
  through \<open>load_le\<close> and \<open>store_le\<close> at its fields' offsets.
\<close>

unbundle bit_operations_syntax

section \<open>Machine types\<close>

type_synonym u8 = "8 word"
type_synonym u16 = "16 word"
type_synonym u32 = "32 word"
type_synonym u64 = "64 word"

text \<open>The memory of the machine, byte by byte.\<close>

type_synonym memory = "u64 \<Rightarrow> u8"

text \<open>
  The undefined behaviours of C that a model reports instead of inventing a value: an array
  access outside its bounds, a signed overflow, a shift by more than the width, a division by
  zero, and reading a variadic argument that was not passed (or that was passed with another
  type); and, in the same way, an interrupt that finds no gate to the code meant for it.
\<close>

datatype c_error = Out_of_bounds | Signed_overflow | Shift_overflow | Division_by_zero | Bad_vararg | No_gate

text \<open>\<open>INT_MAX\<close> of \<open>limits.h\<close> on this target: 32-bit \<open>int\<close>.\<close>

definition INT_MAX :: int where
  "INT_MAX = 2147483647"

text \<open>The bytes of a C string literal, without its terminating NUL.\<close>

definition cstr :: "string \<Rightarrow> u8 list" where
  "cstr s = map of_char s"

named_theorems region_simps \<open>membership in address ranges\<close>
named_theorems frame \<open>what an operation leaves unchanged\<close>

section \<open>Words as naturals\<close>

lemma unat_less_2_64 [simp]: "unat (a :: u64) < 18446744073709551616"
proof -
  have "unat a < 2 ^ LENGTH(64)" by (rule unsigned_less)
  then show ?thesis by simp
qed

lemma unat_plus_no_wrap:
  fixes a b :: u64
  assumes "unat a + unat b < 18446744073709551616"
  shows "unat (a + b) = unat a + unat b"
  using assms by (simp add: unat_word_ariths)

lemma unat_minus_le:
  fixes a b :: u64
  assumes "b \<le> a"
  shows "unat (a - b) = unat a - unat b"
  using assms by (simp add: unat_sub)

lemma unat_of_nat_u64 [simp]: "n < 18446744073709551616 \<Longrightarrow> unat (of_nat n :: u64) = n"
  by (simp add: unsigned_of_nat take_bit_nat_eq_self)

lemma u64_of_nat_unat [simp]: "of_nat (unat (a :: u64)) = a"
  by (rule word_unat_eq_iff [THEN iffD2]) simp

lemma u64_add_of_nat_inj:
  assumes "i < 18446744073709551616" and "j < 18446744073709551616"
  shows "(a :: u64) + of_nat i = a + of_nat j \<longleftrightarrow> i = j"
  using assms by (metis add_left_cancel unat_of_nat_u64)

lemma u64_diff_Suc:
  fixes x a :: u64
  assumes "x \<noteq> a"
  shows "unat (x - a) = Suc (unat (x - (a + 1)))"
proof -
  have "x - a \<noteq> 0" using assms by simp
  then have "unat (x - a - 1) = unat (x - a) - 1" and "0 < unat (x - a)"
    by (simp_all add: unat_minus_one word_neq_0_conv unat_gt_0)
  then show ?thesis by (simp add: diff_diff_eq)
qed

section \<open>Address ranges\<close>

text \<open>
  \<open>region a n\<close> holds the \<open>n\<close> addresses from \<open>a\<close> on; the subtraction wraps, as
  the hardware's address arithmetic does.
\<close>

definition region :: "u64 \<Rightarrow> nat \<Rightarrow> u64 set" where
  "region a n = {x. unat (x - a) < n}"

lemma region_iff [region_simps]: "x \<in> region a n \<longleftrightarrow> unat (x - a) < n"
  by (simp add: region_def)

lemma region_0 [simp]: "region a 0 = {}"
  by (simp add: region_def)

text \<open>A range that does not wrap is an interval of naturals.\<close>

lemma region_interval:
  assumes "unat a + n \<le> 18446744073709551616"
  shows "x \<in> region a n \<longleftrightarrow> unat a \<le> unat x \<and> unat x < unat a + n"
proof (cases "a \<le> x")
  case True
  then show ?thesis
    by (auto simp: region_iff unat_minus_le word_le_nat_alt)
next
  case False
  then have lt: "unat x < unat a"
    by (simp add: word_le_nat_alt)
  have "unat (x - a) = unat x + 18446744073709551616 - unat a"
    using False lt by (simp add: unat_sub_if' word_le_nat_alt)
  then show ?thesis
    using assms lt unat_less_2_64 [of a] by (simp add: region_iff)
qed

lemma region_member:
  assumes "x \<in> region a n"
  obtains i where "i < n" and "x = a + of_nat i"
proof
  show "unat (x - a) < n" using assms by (simp add: region_iff)
qed simp

lemma of_nat_in_region [simp]:
  "i < n \<Longrightarrow> i < 18446744073709551616 \<Longrightarrow> a + of_nat i \<in> region a n"
  by (simp add: region_iff)

lemma less_unat_u64: "i < unat (n :: u64) \<Longrightarrow> i < 18446744073709551616"
  using unat_less_2_64 [of n] by linarith

lemma index_in_region [simp]: "i < unat (n :: u64) \<Longrightarrow> a + of_nat i \<in> region a (unat n)"
  by (simp add: less_unat_u64)

lemma region_mono: "n \<le> k \<Longrightarrow> region a n \<subseteq> region a k"
  by (auto simp: region_iff)

section \<open>Little-endian loads and stores\<close>

fun load_le :: "memory \<Rightarrow> u64 \<Rightarrow> nat \<Rightarrow> 'a::len word" where
  "load_le m a 0 = 0"
| "load_le m a (Suc n) = (ucast (m a) OR push_bit 8 (load_le m (a + 1) n))"

lemma load_le_numeral:
  "(load_le m a (numeral k) :: 'a::len word) = ucast (m a) OR push_bit 8 (load_le m (a + 1) (pred_numeral k))"
  by (simp add: numeral_eq_Suc)

fun store_le :: "memory \<Rightarrow> u64 \<Rightarrow> nat \<Rightarrow> 'a::len word \<Rightarrow> memory" where
  "store_le m a 0 w = m"
| "store_le m a (Suc n) w = store_le (m(a := ucast w)) (a + 1) n (drop_bit 8 w)"

definition load16 :: "memory \<Rightarrow> u64 \<Rightarrow> u16" where
  "load16 m a = load_le m a 2"

definition load32 :: "memory \<Rightarrow> u64 \<Rightarrow> u32" where
  "load32 m a = load_le m a 4"

definition load64 :: "memory \<Rightarrow> u64 \<Rightarrow> u64" where
  "load64 m a = load_le m a 8"

definition store8 :: "memory \<Rightarrow> u64 \<Rightarrow> u8 \<Rightarrow> memory" where
  "store8 m a v = m(a := v)"

definition store16 :: "memory \<Rightarrow> u64 \<Rightarrow> u16 \<Rightarrow> memory" where
  "store16 m a w = store_le m a 2 w"

definition store64 :: "memory \<Rightarrow> u64 \<Rightarrow> u64 \<Rightarrow> memory" where
  "store64 m a w = store_le m a 8 w"

lemma store_le_other:
  "n \<le> 18446744073709551616 \<Longrightarrow> x \<notin> region a n \<Longrightarrow> store_le m a n w x = m x"
proof (induction n arbitrary: m a w)
  case (Suc n)
  have ne: "x \<noteq> a" using Suc.prems by (auto simp: region_iff)
  then have "x \<notin> region (a + 1) n"
    using Suc.prems(2) u64_diff_Suc [OF ne] by (simp add: region_iff)
  with Suc ne show ?case by simp
qed simp

lemma load_le_cong:
  "(\<And>i. i < n \<Longrightarrow> m (a + of_nat i) = m' (a + of_nat i)) \<Longrightarrow>
    (load_le m a n :: 'a::len word) = load_le m' a n"
proof (induction n arbitrary: a)
  case (Suc n)
  have "(load_le m (a + 1) n :: 'a word) = load_le m' (a + 1) n"
  proof (rule Suc.IH)
    fix i assume "i < n"
    then show "m (a + 1 + of_nat i) = m' (a + 1 + of_nat i)"
      using Suc.prems [of "Suc i"] by (simp add: add.assoc)
  qed
  with Suc.prems [of 0] show ?case by simp
qed simp

lemma store_le_first:
  assumes "n < 18446744073709551616"
  shows "store_le m (a + 1) n w a = m a"
proof (rule store_le_other)
  show "a \<notin> region (a + 1) n"
    using assms by (simp add: region_iff unsigned_minus_1_eq_mask mask_eq_exp_minus_1)
qed (use assms in simp)

lemma load_store_le:
  fixes w :: "'a::len word"
  shows "n \<le> 18446744073709551616 \<Longrightarrow>
    load_le (store_le m a n w) a n = (take_bit (8 * n) w :: 'a word)"
proof (induction n arbitrary: m a w)
  case (Suc n)
  have first: "store_le (m(a := ucast w)) (a + 1) n (drop_bit 8 w) a = ucast w"
    using Suc.prems by (simp add: store_le_first)
  have rest: "load_le (store_le (m(a := ucast w)) (a + 1) n (drop_bit 8 w)) (a + 1) n
      = take_bit (8 * n) (drop_bit 8 w)"
    using Suc by simp
  have "(ucast (ucast w :: u8) OR push_bit 8 (take_bit (8 * n) (drop_bit 8 w)))
      = take_bit (8 * Suc n) w"
    by (rule bit_word_eqI) (auto simp: bit_simps)
  then show ?case
    by (simp add: first rest del: mult_Suc_right)
qed simp

lemma load64_store64 [simp]: "load64 (store64 m a w) a = w"
  by (simp add: load64_def store64_def load_store_le take_bit_word_eq_self)

lemma load16_store16 [simp]: "load16 (store16 m a w) a = w"
  by (simp add: load16_def store16_def load_store_le take_bit_word_eq_self)

lemma load64_cong:
  "(\<And>x. x \<in> region a 8 \<Longrightarrow> m x = m' x) \<Longrightarrow> load64 m a = load64 m' a"
  unfolding load64_def by (rule load_le_cong) simp

lemma load16_cong:
  "(\<And>x. x \<in> region a 2 \<Longrightarrow> m x = m' x) \<Longrightarrow> load16 m a = load16 m' a"
  unfolding load16_def by (rule load_le_cong) simp

lemma store64_other [frame]: "x \<notin> region a 8 \<Longrightarrow> store64 m a w x = m x"
  by (simp add: store64_def store_le_other)

lemma store16_other [frame]: "x \<notin> region a 2 \<Longrightarrow> store16 m a w x = m x"
  by (simp add: store16_def store_le_other)

lemma store8_other [frame]: "x \<noteq> a \<Longrightarrow> store8 m a v x = m x"
  by (simp add: store8_def)

lemma store8_same [simp]: "store8 m a v a = v"
  by (simp add: store8_def)

section \<open>Loops over an index range\<close>

text \<open>
  A counted C loop is a \<open>fold\<close> over its index range. If step \<open>i\<close> writes only its own
  cell, the loop writes exactly the cells of its range.
\<close>

text \<open>Index ranges of the C loops stay folded.\<close>

declare upt_rec_numeral [simp del]

lemma fold_upt_Suc: "fold f [0..<Suc n] s = f n (fold f [0..<n] s)"
  by simp

text \<open>A loop on states simulates a loop on their abstractions, step by step.\<close>

lemma fold_abs:
  "(\<And>i s. i \<in> set js \<Longrightarrow> h (f i s) = g i (h s)) \<Longrightarrow> h (fold f js s) = fold g js (h s)"
  by (induction js arbitrary: s) auto

lemma fold_preserves:
  "(\<And>i s. i \<in> set js \<Longrightarrow> P s \<Longrightarrow> P (f i s)) \<Longrightarrow> P s \<Longrightarrow> P (fold f js s)"
  by (induction js arbitrary: s) auto

text \<open>Copying a stretch of a list onto an earlier one, and filling a stretch, by index.\<close>

lemma fold_copy_stretch:
  assumes "p + n \<le> q" and "q + n \<le> length xs"
  shows "fold (\<lambda>c ys. ys[p + c := ys ! (q + c)]) [0..<n] xs
    = take p xs @ take n (drop q xs) @ drop (p + n) xs"
  using assms
proof (induction n)
  case (Suc n)
  let ?ys = "take p xs @ take n (drop q xs) @ drop (p + n) xs"
  have len: "length ?ys = length xs" using Suc.prems by simp
  have "?ys ! (q + n) = xs ! (q + n)"
    using Suc.prems by (auto simp: nth_append add.commute)
  moreover have "take (Suc n) (drop q xs) = take n (drop q xs) @ [xs ! (q + n)]"
    using Suc.prems by (simp add: take_Suc_conv_app_nth)
  moreover have "drop (p + n) xs = xs ! (p + n) # drop (p + Suc n) xs"
    using Suc.prems by (simp add: Cons_nth_drop_Suc)
  moreover have "length (take p xs) = p" and "length (take n (drop q xs)) = n"
    using Suc.prems by simp_all
  ultimately have "?ys[p + n := ?ys ! (q + n)]
      = take p xs @ take (Suc n) (drop q xs) @ drop (p + Suc n) xs"
    by (simp add: list_update_append)
  then show ?case
    using Suc by (simp add: fold_upt_Suc del: upt_Suc)
qed simp

lemma fold_fill_stretch:
  assumes "p + n \<le> length xs"
  shows "fold (\<lambda>c ys. ys[p + c := v]) [0..<n] xs = take p xs @ replicate n v @ drop (p + n) xs"
  using assms
proof (induction n)
  case (Suc n)
  have "(take p xs @ replicate n v @ drop (p + n) xs)[p + n := v]
      = take p xs @ replicate (Suc n) v @ drop (p + Suc n) xs"
    using Suc.prems by (simp add: list_update_append Cons_nth_drop_Suc [symmetric] min_def
        replicate_append_same)
  with Suc show ?case by (simp add: fold_upt_Suc del: upt_Suc)
qed simp

lemma fold_upd_other:
  "(\<And>i m. i \<in> set js \<Longrightarrow> x \<noteq> p i) \<Longrightarrow>
    fold (\<lambda>i m. m(p i := f i m)) js m x = m x"
  by (induction js arbitrary: m) auto

end
