(* ===== verification/Libc_String.thy ===== *)
theory Libc_String
  imports Prelude
begin

text \<open>
  The memory and string routines of \<open>libc/string/\<close>: \<open>memset\<close>, \<open>memcpy\<close>,
  \<open>memmove\<close>, \<open>memcmp\<close> and \<open>strlen\<close>, each as the byte loop of its C body over the
  machine's memory. A counted loop is a \<open>fold\<close> over its indices in the order the code
  visits them; \<open>strlen\<close> may run for ever, so it is a partial function whose value
  \<open>None\<close> is "does not return". The lemmas give the closed form of each loop and the
  locale \<open>block_ops\<close> states the contract the allocator uses.
\<close>

section \<open>The routines\<close>

text \<open>
  \<open>memset(destptr, value, size)\<close>: \<open>value\<close> is an \<open>int\<close>, cut to a byte at every write.
\<close>

definition memset :: "memory \<Rightarrow> u64 \<Rightarrow> u32 \<Rightarrow> u64 \<Rightarrow> memory" where
  "memset m destptr val sz =
     fold (\<lambda>i m. m(destptr + of_nat i := ucast val)) [0..<unat sz] m"

definition memcpy :: "memory \<Rightarrow> u64 \<Rightarrow> u64 \<Rightarrow> u64 \<Rightarrow> memory" where
  "memcpy m destptr srcptr sz =
     fold (\<lambda>i m. m(destptr + of_nat i := m (srcptr + of_nat i))) [0..<unat sz] m"

text \<open>
  \<open>memmove\<close> copies upwards when the destination is below the source and downwards
  (\<open>i = size, \<dots>, 1\<close>, cell \<open>i - 1\<close>) otherwise.
\<close>

definition memmove :: "memory \<Rightarrow> u64 \<Rightarrow> u64 \<Rightarrow> u64 \<Rightarrow> memory" where
  "memmove m destptr srcptr sz =
     (if destptr < srcptr
      then fold (\<lambda>i m. m(destptr + of_nat i := m (srcptr + of_nat i))) [0..<unat sz] m
      else fold (\<lambda>i m. m(destptr + of_nat (i - 1) := m (srcptr + of_nat (i - 1))))
             (rev [1..<Suc (unat sz)]) m)"

text \<open>
  \<open>memcmp\<close> takes two byte arrays, given by their indexing functions (\<open>s1[i]\<close>), so that
  an array in memory and a string literal are compared by the same code.
\<close>

fun memcmp_loop :: "(nat \<Rightarrow> u8) \<Rightarrow> (nat \<Rightarrow> u8) \<Rightarrow> nat list \<Rightarrow> int" where
  "memcmp_loop s1 s2 [] = 0"
| "memcmp_loop s1 s2 (i # is) =
     (if s1 i > s2 i then 1 else if s1 i < s2 i then -1 else memcmp_loop s1 s2 is)"

definition memcmp :: "(nat \<Rightarrow> u8) \<Rightarrow> (nat \<Rightarrow> u8) \<Rightarrow> u64 \<Rightarrow> int" where
  "memcmp s1 s2 s1_len = memcmp_loop s1 s2 [0..<unat s1_len]"

partial_function (option) strlen_loop :: "(u64 \<Rightarrow> u8) \<Rightarrow> u64 \<Rightarrow> u64 option" where
  "strlen_loop str len = (if str len \<noteq> 0 then strlen_loop str (len + 1) else Some len)"

definition strlen :: "(u64 \<Rightarrow> u8) \<Rightarrow> u64 option" where
  "strlen str = strlen_loop str 0"

section \<open>Closed forms of the loops\<close>

lemma memset_prefix:
  assumes "n \<le> 18446744073709551616"
  shows "fold (\<lambda>i m. m(d + of_nat i := v)) [0..<n] m = (\<lambda>x. if x \<in> region d n then v else m x)"
  using assms
proof (induction n)
  case (Suc n)
  have "x \<in> region d (Suc n) \<longleftrightarrow> x = d + of_nat n \<or> x \<in> region d n" for x
    using Suc.prems
    by (metis Suc_le_lessD less_Suc_eq of_nat_in_region region_iff region_member
        u64_of_nat_unat add_diff_cancel_left' lessI)
  with Suc show ?case by (auto simp: fun_eq_iff)
qed auto

lemma memset_eq: "memset m d v n = (\<lambda>x. if x \<in> region d (unat n) then ucast v else m x)"
  unfolding memset_def by (rule memset_prefix) (simp add: less_imp_le)

lemma memset_in [simp]: "x \<in> region d (unat n) \<Longrightarrow> memset m d v n x = ucast v"
  by (simp add: memset_eq)

lemma memset_other [frame]: "x \<notin> region d (unat n) \<Longrightarrow> memset m d v n x = m x"
  by (simp add: memset_eq)

text \<open>
  The copy loops agree with the simultaneous copy on every prefix (suffix) of the indices
  as long as no step overwrites a source cell that a later step still reads.
\<close>

definition copied :: "memory \<Rightarrow> u64 \<Rightarrow> u64 \<Rightarrow> nat set \<Rightarrow> memory" where
  "copied m d s I = (\<lambda>x. if unat (x - d) \<in> I then m (s + (x - d)) else m x)"

lemma copied_step:
  assumes "j < 18446744073709551616"
  shows "(copied m d s I)(d + of_nat j := m (s + of_nat j)) = copied m d s (insert j I)"
proof (rule ext)
  fix x
  have "x = d + of_nat j \<longleftrightarrow> unat (x - d) = j"
    using assms by (metis diff_add_cancel unat_of_nat_u64 u64_of_nat_unat add_diff_cancel_left')
  then show "((copied m d s I)(d + of_nat j := m (s + of_nat j))) x = copied m d s (insert j I) x"
    using assms by (auto simp: copied_def)
qed

lemma copy_up:
  assumes "n \<le> 18446744073709551616"
    and "\<And>i j. i < j \<Longrightarrow> j < n \<Longrightarrow> s + of_nat j \<noteq> d + of_nat i"
  shows "fold (\<lambda>i m. m(d + of_nat i := m (s + of_nat i))) [0..<n] m = copied m d s {..<n}"
  using assms
proof (induction n)
  case (Suc n)
  have "unat (s + of_nat n - d) \<notin> {..<n}"
  proof
    assume "unat (s + of_nat n - d) \<in> {..<n}"
    then have "s + of_nat n \<in> region d n" by (simp add: region_iff)
    then obtain i where "i < n" "s + of_nat n = d + of_nat i" by (rule region_member)
    with Suc.prems(2) [of i n] show False by simp
  qed
  then have "copied m d s {..<n} (s + of_nat n) = m (s + of_nat n)"
    by (simp add: copied_def)
  then have "(copied m d s {..<n})(d + of_nat n := copied m d s {..<n} (s + of_nat n))
      = copied m d s {..<Suc n}"
    using Suc.prems(1) by (simp add: copied_step lessThan_Suc)
  moreover have "fold (\<lambda>i m. m(d + of_nat i := m (s + of_nat i))) [0..<n] m = copied m d s {..<n}"
    using Suc.prems by (intro Suc.IH) simp_all
  ultimately show ?case
    by (simp only: fold_upt_Suc)
qed (simp add: copied_def)

lemma copy_down:
  assumes "k \<le> n" and "n < 18446744073709551616"
    and "\<And>i j. i < j \<Longrightarrow> j < n \<Longrightarrow> s + of_nat i \<noteq> d + of_nat j"
  shows "fold (\<lambda>i m. m(d + of_nat (i - 1) := m (s + of_nat (i - 1)))) (rev [Suc k..<Suc n]) m
    = copied m d s {k..<n}"
  using assms(1)
proof (induction "n - k" arbitrary: k)
  case 0
  then show ?case by (simp add: copied_def)
next
  case (Suc l)
  then have k: "k < n" by simp
  then have split: "[Suc k..<Suc n] = Suc k # [Suc (Suc k)..<Suc n]"
    by (simp add: upt_conv_Cons del: upt_Suc)
  have "unat (s + of_nat k - d) \<notin> {Suc k..<n}"
  proof
    assume "unat (s + of_nat k - d) \<in> {Suc k..<n}"
    moreover have "s + of_nat k = d + of_nat (unat (s + of_nat k - d))" by simp
    ultimately show False
      using assms(3) [of k "unat (s + of_nat k - d)"] by fastforce
  qed
  then have "copied m d s {Suc k..<n} (s + of_nat k) = m (s + of_nat k)"
    unfolding copied_def by (simp only: if_False)
  moreover have "insert k {Suc k..<n} = {k..<n}" using k by auto
  ultimately show ?case
    using Suc.hyps(1) [of "Suc k"] Suc.hyps(2) k assms(2)
    by (simp add: split copied_step del: upt_Suc)
qed

lemma memcpy_disjoint:
  assumes "region d (unat n) \<inter> region s (unat n) = {}"
  shows "memcpy m d s n = (\<lambda>x. if x \<in> region d (unat n) then m (s + (x - d)) else m x)"
proof -
  have "s + of_nat j \<noteq> d + of_nat i" if "i < j" "j < unat n" for i j
  proof -
    have "s + of_nat j \<in> region s (unat n)" "d + of_nat i \<in> region d (unat n)"
      using that by simp_all
    with assms show ?thesis by force
  qed
  then show ?thesis
    unfolding memcpy_def
    by (subst copy_up) (auto simp: copied_def region_iff less_imp_le)
qed

lemma memcpy_other [frame]: "x \<notin> region d (unat n) \<Longrightarrow> memcpy m d s n x = m x"
  unfolding memcpy_def
proof (rule fold_upd_other)
  fix i assume "x \<notin> region d (unat n)" and "i \<in> set [0..<unat n]"
  then show "x \<noteq> d + of_nat i" by auto
qed

lemma memmove_eq:
  assumes "unat d + unat n \<le> 18446744073709551616" and "unat s + unat n \<le> 18446744073709551616"
  shows "memmove m d s n = (\<lambda>x. if x \<in> region d (unat n) then m (s + (x - d)) else m x)"
proof -
  have nat: "unat (a + of_nat i) = unat a + i"
    if "unat a + unat n \<le> 18446744073709551616" "i < unat n" for a :: u64 and i
    using that unat_plus_no_wrap [of a "of_nat i"] unat_less_2_64 [of n] by simp
  show ?thesis
  proof (cases "d < s")
    case True
    have "s + of_nat j \<noteq> d + of_nat i" if "i < j" "j < unat n" for i j
    proof
      assume "s + of_nat j = d + of_nat i"
      then have "unat s + j = unat d + i"
        using that nat [OF assms(1), of i] nat [OF assms(2), of j] by simp
      with that True show False by (simp add: word_less_nat_alt)
    qed
    with True show ?thesis
      unfolding memmove_def
      by (simp add: copy_up less_imp_le) (auto simp: copied_def region_iff)
  next
    case False
    have "s + of_nat i \<noteq> d + of_nat j" if "i < j" "j < unat n" for i j
    proof
      assume "s + of_nat i = d + of_nat j"
      then have "unat s + i = unat d + j"
        using that nat [OF assms(1), of j] nat [OF assms(2), of i] by simp
      with that False show False by (simp add: word_less_nat_alt)
    qed
    with False show ?thesis
      unfolding memmove_def
      using copy_down [of 0 "unat n" s d m]
      by (simp del: upt_Suc) (auto simp: copied_def region_iff)
  qed
qed

lemma memcmp_loop_eq_0: "memcmp_loop s1 s2 is = 0 \<longleftrightarrow> (\<forall>i\<in>set is. s1 i = s2 i)"
  by (induction "is") auto

lemma memcmp_eq_0: "memcmp s1 s2 n = 0 \<longleftrightarrow> (\<forall>i<unat n. s1 i = s2 i)"
  by (auto simp: memcmp_def memcmp_loop_eq_0)

lemma memcmp_loop_first_diff:
  "memcmp_loop s1 s2 (is @ j # js) = (if s1 j > s2 j then 1 else -1)"
  if "\<forall>i\<in>set is. s1 i = s2 i" and "s1 j \<noteq> s2 j"
  using that by (induction "is") (auto simp: not_less_iff_gr_or_eq)

lemma strlen_loop_stop: "strlen_loop str k = Some n \<Longrightarrow> str n = 0"
proof -
  assume ret: "strlen_loop str k = Some n"
  show "str n = 0"
    by (rule strlen_loop.raw_induct [where P = "\<lambda>str k n. str n = 0", OF _ ret])
      (auto split: if_splits)
qed

lemma strlen_loop_runs:
  assumes "str (k + of_nat n) = 0" and "\<And>i. i < n \<Longrightarrow> str (k + of_nat i) \<noteq> 0"
  shows "strlen_loop str k = Some (k + of_nat n)"
  using assms
proof (induction n arbitrary: k)
  case 0
  then show ?case by (simp add: strlen_loop.simps)
next
  case (Suc n)
  have "strlen_loop str (k + 1) = Some (k + 1 + of_nat n)"
  proof (rule Suc.IH)
    show "str (k + 1 + of_nat n) = 0" using Suc.prems(1) by (simp add: add.assoc)
  next
    fix i assume "i < n"
    then show "str (k + 1 + of_nat i) \<noteq> 0"
      using Suc.prems(2) [of "Suc i"] by (simp add: add.assoc)
  qed
  with Suc.prems(2) [of 0] show ?case
    by (simp add: strlen_loop.simps [of str k] add.assoc)
qed

lemma strlen_cstring:
  assumes "\<And>i. i < n \<Longrightarrow> str (of_nat i) \<noteq> 0" and "str (of_nat n) = 0"
  shows "strlen str = Some (of_nat n)"
  using strlen_loop_runs [of str 0 n] assms by (simp add: strlen_def)

section \<open>The contract the allocator relies on\<close>

text \<open>
  What a client of the block routines uses: filling and copying change the destination
  range only, with the stated bytes.
\<close>

locale block_ops =
  fixes fill :: "memory \<Rightarrow> u64 \<Rightarrow> u32 \<Rightarrow> u64 \<Rightarrow> memory"
    and copy :: "memory \<Rightarrow> u64 \<Rightarrow> u64 \<Rightarrow> u64 \<Rightarrow> memory"
  assumes fill_inside: "x \<in> region d (unat n) \<Longrightarrow> fill m d v n x = ucast v"
    and fill_outside: "x \<notin> region d (unat n) \<Longrightarrow> fill m d v n x = m x"
    and copy_inside: "region d (unat n) \<inter> region s (unat n) = {} \<Longrightarrow> x \<in> region d (unat n) \<Longrightarrow>
      copy m d s n x = m (s + (x - d))"
    and copy_outside: "x \<notin> region d (unat n) \<Longrightarrow> copy m d s n x = m x"
begin

text \<open>Copying out of a freshly filled block yields the fill byte.\<close>

lemma copy_of_fill:
  assumes "region d (unat n) \<inter> region s (unat n) = {}" and "x \<in> region d (unat n)"
  shows "copy (fill m s v n) d s n x = ucast v"
proof -
  have "s + (x - d) \<in> region s (unat n)"
    using assms(2) by (simp add: region_iff)
  then show ?thesis by (simp add: copy_inside [OF assms] fill_inside)
qed

text \<open>Copying there and back again restores both blocks' contents at the source.\<close>

lemma copy_back:
  assumes "region d (unat n) \<inter> region s (unat n) = {}" and "x \<in> region s (unat n)"
  shows "copy (copy m d s n) s d n x = m x"
proof -
  have "d + (x - s) \<in> region d (unat n)"
    using assms(2) by (simp add: region_iff)
  then show ?thesis
    using assms copy_inside [of s n d x "copy m d s n"] copy_inside [of d n s "d + (x - s)" m]
    by (simp add: Int_commute)
qed

end

interpretation libc: block_ops memset memcpy
  by unfold_locales (simp_all add: memset_eq memcpy_disjoint memcpy_other)

section \<open>Properties\<close>

text \<open>
  \<open>memmove\<close> is a simultaneous copy even when source and destination overlap:
  every destination byte gets the value its source byte had before the call, and no other
  byte changes.
\<close>

theorem memmove_overlap:
  assumes "unat d + unat n \<le> 18446744073709551616" and "unat s + unat n \<le> 18446744073709551616"
  shows "memmove m d s n = (\<lambda>x. if x \<in> region d (unat n) then m (s + (x - d)) else m x)"
  by (rule memmove_eq [OF assms])

theorem memmove_overlap_witness:
  "memmove (\<lambda>x. ucast x) 11 10 4 = (\<lambda>x. if x \<in> region 11 4 then ucast (10 + (x - 11)) else ucast x)"
  using memmove_overlap [of 11 4 10 "\<lambda>x. ucast x"] by simp

text \<open>
  C40: \<open>strlen\<close> returns exactly when a NUL byte is reachable, and then returns the
  index of the first one; on an unterminated buffer it does not return.
\<close>

theorem strlen_first_nul:
  "strlen str = Some n \<longleftrightarrow> str n = 0 \<and> (\<forall>k<n. str k \<noteq> 0)"
proof
  assume ret: "strlen str = Some n"
  then have z: "str n = 0" unfolding strlen_def by (rule strlen_loop_stop)
  define k where "k = (LEAST i. str (of_nat i) = 0)"
  have ex: "str (of_nat (unat n)) = 0" using z by simp
  have "str (of_nat k) = 0" and least: "\<And>i. i < k \<Longrightarrow> str (of_nat i) \<noteq> 0"
    unfolding k_def using ex by (rule LeastI) (rule not_less_Least)
  then have "n = of_nat k" using strlen_cstring ret by force
  moreover have "k \<le> unat n" unfolding k_def using ex by (rule Least_le)
  ultimately have "unat n = k" by (simp add: order_le_less_trans [OF _ unat_less_2_64])
  then have "\<forall>j<n. str j \<noteq> 0"
    using least by (metis u64_of_nat_unat word_less_nat_alt)
  with z show "str n = 0 \<and> (\<forall>k<n. str k \<noteq> 0)" ..
next
  assume n: "str n = 0 \<and> (\<forall>k<n. str k \<noteq> 0)"
  have "str (of_nat i) \<noteq> 0" if "i < unat n" for i
    using that n by (simp add: word_less_nat_alt order_less_trans [OF _ unat_less_2_64])
  then show "strlen str = Some n"
    using n strlen_cstring [of "unat n" str] by simp
qed

theorem strlen_first_nul_witness: "strlen (\<lambda>k. if k = 3 then 0 else 65) = Some 3"
  using strlen_first_nul [of "\<lambda>k. if k = 3 then 0 else 65" 3] by auto

end
