(* ===== verification/Machine.thy ===== *)
theory Machine
  imports Libc_String
begin

text \<open>
  The machine state every component extends: the byte memory, the history of port accesses
  (\<open>kernel/include/io/ports.h\<close>) and the interrupt flag that \<open>cli\<close> and \<open>sti\<close> switch. The C globals of the components are added to it
  by record extension, one record per component, so that an operation is typed by the part
  of the state it needs and applies to any larger kernel state.

  A device behind a port is not code of the repository: it is the parameter \<open>dev\<close>, a function
  from the history of port accesses so far to the byte a read of a port returns.
\<close>

datatype io_event = Out u16 u8 | In u16 u8

record machine =
  mem :: memory
  io_log :: "io_event list"
  if_flag :: bool

type_synonym device = "io_event list \<Rightarrow> u16 \<Rightarrow> u8"

definition outb :: "u16 \<Rightarrow> u8 \<Rightarrow> 'a machine_scheme \<Rightarrow> 'a machine_scheme" where
  "outb port val s = s\<lparr>io_log := io_log s @ [Out port val]\<rparr>"

definition inb :: "device \<Rightarrow> u16 \<Rightarrow> 'a machine_scheme \<Rightarrow> u8 \<times> 'a machine_scheme" where
  "inb dev port s =
     (let val = dev (io_log s) port in (val, s\<lparr>io_log := io_log s @ [In port val]\<rparr>))"

definition cli :: "'a machine_scheme \<Rightarrow> 'a machine_scheme" where
  "cli s = s\<lparr>if_flag := False\<rparr>"

definition sti :: "'a machine_scheme \<Rightarrow> 'a machine_scheme" where
  "sti s = s\<lparr>if_flag := True\<rparr>"

text \<open>The bytes written to a port, in order.\<close>

definition writes_to :: "u16 \<Rightarrow> io_event list \<Rightarrow> u8 list" where
  "writes_to port log = [v. Out p v \<leftarrow> log, p = port]"

lemma writes_to_append [simp]: "writes_to p (l @ l') = writes_to p l @ writes_to p l'"
  by (simp add: writes_to_def)

lemma writes_to_Nil [simp]: "writes_to p [] = []"
  by (simp add: writes_to_def)

lemma writes_to_Cons [simp]:
  "writes_to p (Out q v # l) = (if q = p then v # writes_to p l else writes_to p l)"
  "writes_to p (In q v # l) = writes_to p l"
  by (simp_all add: writes_to_def)

lemma outb_mem [simp]: "mem (outb p v s) = mem s"
  by (simp add: outb_def)

lemma outb_log [simp]: "io_log (outb p v s) = io_log s @ [Out p v]"
  by (simp add: outb_def)

end
