(* ===== verification/Terminal.thy ===== *)
theory Terminal
  imports Machine
begin

text \<open>
  The VGA text terminal: \<open>kernel/arch/x86_64/vga.h\<close> and \<open>kernel/arch/x86_64/tty.c\<close>.
  The state holds the static variables of \<open>tty.c\<close>; the screen itself lives in memory, two
  bytes per cell, at \<open>terminal_buffer\<close>. The operations are the functions of \<open>tty.c\<close>. The
  abstract screen (\<open>screen_of\<close>, \<open>put_spec\<close>) is a list of cells with a cursor, and
  \<open>terminal_put_char\<close> is shown to implement it.
\<close>

section \<open>Colours and cells\<close>

datatype vga_color =
    VGA_BLACK | VGA_BLUE | VGA_GREEN | VGA_CYAN | VGA_RED | VGA_MAGENTA | VGA_BROWN
  | VGA_LIGHT_GREY | VGA_DARK_GREY | VGA_LIGHT_BLUE | VGA_LIGHT_GREEN | VGA_LIGHT_CYAN
  | VGA_LIGHT_RED | VGA_LIGHT_MAGENTA | VGA_LIGHT_BROWN | VGA_WHITE

fun vga_color_code :: "vga_color \<Rightarrow> u32" where
  "vga_color_code VGA_BLACK = 0"
| "vga_color_code VGA_BLUE = 1"
| "vga_color_code VGA_GREEN = 2"
| "vga_color_code VGA_CYAN = 3"
| "vga_color_code VGA_RED = 4"
| "vga_color_code VGA_MAGENTA = 5"
| "vga_color_code VGA_BROWN = 6"
| "vga_color_code VGA_LIGHT_GREY = 7"
| "vga_color_code VGA_DARK_GREY = 8"
| "vga_color_code VGA_LIGHT_BLUE = 9"
| "vga_color_code VGA_LIGHT_GREEN = 10"
| "vga_color_code VGA_LIGHT_CYAN = 11"
| "vga_color_code VGA_LIGHT_RED = 12"
| "vga_color_code VGA_LIGHT_MAGENTA = 13"
| "vga_color_code VGA_LIGHT_BROWN = 14"
| "vga_color_code VGA_WHITE = 15"

definition vga_entry :: "vga_color \<Rightarrow> vga_color \<Rightarrow> u8" where
  "vga_entry foreground_c background_c =
     ucast (vga_color_code foreground_c OR push_bit 4 (vga_color_code background_c))"

definition vga_char :: "u8 \<Rightarrow> u8 \<Rightarrow> u16" where
  "vga_char character color = (ucast character OR push_bit 8 (ucast color))"

section \<open>Terminal state and operations\<close>

record tty = machine +
  cursor_x :: int
  cursor_y :: int
  terminal_color :: u8
  terminal_buffer :: u64

definition VGA :: u64 where
  "VGA = 0xB8000"

definition VGA_WIDTH :: int where
  "VGA_WIDTH = 80"

definition VGA_HEIGHT :: int where
  "VGA_HEIGHT = 25"

text \<open>\<open>terminal_buffer[i]\<close>: the cell at 16-bit index \<open>i\<close>, read and written.\<close>

definition tty_cell :: "'a tty_scheme \<Rightarrow> int \<Rightarrow> u16" where
  "tty_cell s i = load16 (mem s) (terminal_buffer s + 2 * of_int i)"

definition tty_set_cell :: "int \<Rightarrow> u16 \<Rightarrow> 'a tty_scheme \<Rightarrow> 'a tty_scheme" where
  "tty_set_cell i w s = s\<lparr>mem := store16 (mem s) (terminal_buffer s + 2 * of_int i) w\<rparr>"

definition clear_screen :: "'a tty_scheme \<Rightarrow> 'a tty_scheme" where
  "clear_screen s =
     (let blank = vga_char (of_char CHR '' '') (terminal_color s)
      in fold (\<lambda>i. tty_set_cell (int i) blank) [0..<nat (VGA_WIDTH * VGA_HEIGHT)] s)"

definition terminal_init :: "'a tty_scheme \<Rightarrow> 'a tty_scheme" where
  "terminal_init s =
     clear_screen (s\<lparr>cursor_x := 0, cursor_y := 0,
       terminal_color := vga_entry VGA_WHITE VGA_BLACK, terminal_buffer := VGA\<rparr>)"

definition clear_last_line :: "'a tty_scheme \<Rightarrow> 'a tty_scheme" where
  "clear_last_line s =
     (let s1 = fold (\<lambda>row. fold (\<lambda>col t.
                 tty_set_cell ((int row - 1) * VGA_WIDTH + int col)
                   (tty_cell t (int row * VGA_WIDTH + int col)) t) [0..<nat VGA_WIDTH])
               [1..<nat VGA_HEIGHT] s;
          s2 = fold (\<lambda>col t.
                 tty_set_cell ((VGA_HEIGHT - 1) * VGA_WIDTH + int col)
                   (vga_char (of_char CHR '' '') (terminal_color t)) t) [0..<nat VGA_WIDTH] s1
      in s2\<lparr>cursor_y := VGA_HEIGHT - 1\<rparr>)"

definition terminal_put_char :: "u8 \<Rightarrow> 'a tty_scheme \<Rightarrow> 'a tty_scheme" where
  "terminal_put_char c s =
     (let s1 =
        (if c = of_char CHR ''\<newline>'' then s\<lparr>cursor_x := 0, cursor_y := cursor_y s + 1\<rparr>
         else if c = 13 then s\<lparr>cursor_x := 0\<rparr>
         else
           let index = cursor_y s * VGA_WIDTH + cursor_x s;
               t = tty_set_cell index (vga_char c (terminal_color s)) s;
               t = t\<lparr>cursor_x := cursor_x t + 1\<rparr>
           in if cursor_x t \<ge> VGA_WIDTH then t\<lparr>cursor_x := 0, cursor_y := cursor_y t + 1\<rparr> else t)
      in if cursor_y s1 \<ge> VGA_HEIGHT then (clear_last_line s1)\<lparr>cursor_x := 0\<rparr> else s1)"

text \<open>
  \<open>terminal_write(data, length)\<close>: \<open>data\<close> is read through the current state at every
  step, so a buffer in memory is seen as the code sees it.
\<close>

definition terminal_write :: "('a tty_scheme \<Rightarrow> nat \<Rightarrow> u8) \<Rightarrow> u64 \<Rightarrow> 'a tty_scheme \<Rightarrow> 'a tty_scheme" where
  "terminal_write data len s = fold (\<lambda>i t. terminal_put_char (data t i) t) [0..<unat len] s"

section \<open>Invariant\<close>

text \<open>The cursor is on the screen and the buffer is the VGA memory.\<close>

definition tty_inv :: "'a tty_scheme \<Rightarrow> bool" where
  "tty_inv s \<longleftrightarrow> 0 \<le> cursor_x s \<and> cursor_x s < VGA_WIDTH \<and> 0 \<le> cursor_y s
     \<and> cursor_y s < VGA_HEIGHT \<and> terminal_buffer s = VGA"

text \<open>The addresses of the screen.\<close>

definition vga_region :: "u64 set" where
  "vga_region = region VGA 4000"

section \<open>The abstract screen\<close>

record screen =
  cells :: "u16 list"
  cx :: nat
  cy :: nat

definition screen_of :: "'a tty_scheme \<Rightarrow> screen" where
  "screen_of s = \<lparr>cells = map (\<lambda>i. tty_cell s (int i)) [0..<2000],
     cx = nat (cursor_x s), cy = nat (cursor_y s)\<rparr>"

definition scroll_cells :: "u16 \<Rightarrow> u16 list \<Rightarrow> u16 list" where
  "scroll_cells blank xs = drop 80 xs @ replicate 80 blank"

text \<open>Moving to row \<open>y\<close>, column 0: below the last row the screen scrolls by one line.\<close>

definition goto_row :: "u16 \<Rightarrow> nat \<Rightarrow> screen \<Rightarrow> screen" where
  "goto_row blank y sc =
     (if y < 25 then sc\<lparr>cx := 0, cy := y\<rparr>
      else sc\<lparr>cells := scroll_cells blank (cells sc), cx := 0, cy := 24\<rparr>)"

definition put_spec :: "u8 \<Rightarrow> u8 \<Rightarrow> screen \<Rightarrow> screen" where
  "put_spec color c sc =
     (let blank = vga_char 32 color in
      if c = 10 then goto_row blank (cy sc + 1) sc
      else if c = 13 then sc\<lparr>cx := 0\<rparr>
      else let sc' = sc\<lparr>cells := (cells sc)[cy sc * 80 + cx sc := vga_char c color]\<rparr>
           in if cx sc + 1 < 80 then sc'\<lparr>cx := cx sc + 1\<rparr> else goto_row blank (cy sc + 1) sc')"

section \<open>Cells as a list\<close>

text \<open>Distinct cells occupy disjoint addresses.\<close>

lemma cell_regions_disjoint:
  assumes "i < 2000" and "j < 2000" and "i \<noteq> j"
    and "x \<in> region (b + 2 * of_nat i) 2"
  shows "x \<notin> region (b + 2 * of_nat j) 2"
proof
  assume "x \<in> region (b + 2 * of_nat j) 2"
  then obtain k where k: "k < 2" "x = b + of_nat (2 * j + k)"
    by (auto elim!: region_member simp: add.assoc)
  from assms(4) obtain l where l: "l < 2" "x = b + of_nat (2 * i + l)"
    by (auto elim!: region_member simp: add.assoc)
  from k l have "b + of_nat (2 * j + k) = b + of_nat (2 * i + l)" by simp
  with k(1) l(1) assms(1,2) have "2 * j + k = 2 * i + l"
    by (subst (asm) u64_add_of_nat_inj) auto
  with k(1) l(1) assms(3) show False by presburger
qed

lemma tty_set_cell_fields [simp]:
  "cursor_x (tty_set_cell i w s) = cursor_x s" "cursor_y (tty_set_cell i w s) = cursor_y s"
  "terminal_color (tty_set_cell i w s) = terminal_color s"
  "terminal_buffer (tty_set_cell i w s) = terminal_buffer s"
  by (simp_all add: tty_set_cell_def)

lemma tty_cell_set_cell:
  assumes "i < 2000" and "j < 2000"
  shows "tty_cell (tty_set_cell (int i) w s) (int j) = (if i = j then w else tty_cell s (int j))"
proof (cases "i = j")
  case False
  have "load16 (store16 (mem s) (terminal_buffer s + 2 * of_nat i) w) (terminal_buffer s + 2 * of_nat j)
      = load16 (mem s) (terminal_buffer s + 2 * of_nat j)"
    by (rule load16_cong) (use cell_regions_disjoint assms False in \<open>metis store16_other\<close>)
  with False show ?thesis by (simp add: tty_cell_def tty_set_cell_def)
qed (simp add: tty_cell_def tty_set_cell_def)

definition cell_list :: "'a tty_scheme \<Rightarrow> u16 list" where
  "cell_list s = map (\<lambda>i. tty_cell s (int i)) [0..<2000]"

lemma length_cell_list [simp]: "length (cell_list s) = 2000"
  by (simp add: cell_list_def)

lemma nth_cell_list [simp]: "i < 2000 \<Longrightarrow> cell_list s ! i = tty_cell s (int i)"
  by (simp add: cell_list_def)

lemma cell_list_set_cell:
  "i < 2000 \<Longrightarrow> cell_list (tty_set_cell (int i) w s) = (cell_list s)[i := w]"
  by (rule nth_equalityI) (simp_all add: tty_cell_set_cell nth_list_update)

lemma cell_list_cong [simp]:
  "cell_list (s\<lparr>cursor_x := x\<rparr>) = cell_list s" "cell_list (s\<lparr>cursor_y := y\<rparr>) = cell_list s"
  by (simp_all add: cell_list_def tty_cell_def)

section \<open>What the terminal operations leave alone\<close>

text \<open>
  \<open>tty_frame s t\<close>: from \<open>s\<close> to \<open>t\<close> only the cursor and the bytes of the screen
  have changed. Every printing operation of the kernel satisfies it.
\<close>

definition tty_frame :: "'a tty_scheme \<Rightarrow> 'a tty_scheme \<Rightarrow> bool" where
  "tty_frame s t \<longleftrightarrow> (\<exists>m x y. t = s\<lparr>mem := m, cursor_x := x, cursor_y := y\<rparr>
     \<and> (\<forall>a. a \<notin> vga_region \<longrightarrow> m a = mem s a))"

lemma tty_frameI:
  "t = s\<lparr>mem := m, cursor_x := x, cursor_y := y\<rparr> \<Longrightarrow>
    (\<And>a. a \<notin> vga_region \<Longrightarrow> m a = mem s a) \<Longrightarrow> tty_frame s t"
  by (auto simp: tty_frame_def)

lemma tty_frame_cursor [simp]:
  "tty_frame s (s\<lparr>cursor_x := x\<rparr>)" "tty_frame s (s\<lparr>cursor_y := y\<rparr>)"
  "tty_frame s (s\<lparr>cursor_x := x, cursor_y := y\<rparr>)"
  by (rule tty_frameI [where m = "mem s" and x = x and y = "cursor_y s"], simp_all)
    (rule tty_frameI [where m = "mem s" and x = "cursor_x s" and y = y], simp_all,
     rule tty_frameI [where m = "mem s" and x = x and y = y], simp_all)

lemma tty_frame_refl [simp]: "tty_frame s s"
  using tty_frame_cursor(1) [of s "cursor_x s"] by simp

lemma tty_frame_trans: "tty_frame s t \<Longrightarrow> tty_frame t u \<Longrightarrow> tty_frame s u"
  by (auto simp: tty_frame_def) force

lemma tty_frame_fold:
  "(\<And>i s. i \<in> set js \<Longrightarrow> P s \<Longrightarrow> tty_frame s (f i s) \<and> P (f i s)) \<Longrightarrow> P s \<Longrightarrow>
    tty_frame s (fold f js s) \<and> P (fold f js s)"
proof (induction js arbitrary: s)
  case (Cons i js)
  then have "tty_frame s (f i s)" and "P (f i s)" by auto
  moreover from this Cons have "tty_frame (f i s) (fold f js (f i s)) \<and> P (fold f js (f i s))"
    by simp
  ultimately show ?case by (auto intro: tty_frame_trans)
qed simp

lemma tty_frame_set_cell:
  assumes "terminal_buffer s = VGA" and "i < 2000"
  shows "tty_frame s (tty_set_cell (int i) w s)"
proof -
  have "store16 (mem s) (VGA + 2 * of_nat i) w a = mem s a" if "a \<notin> vga_region" for a
  proof (rule store16_other)
    have "region (VGA + 2 * of_nat i) 2 \<subseteq> vga_region"
    proof
      fix x :: u64 assume "x \<in> region (VGA + 2 * of_nat i) 2"
      then obtain k where "k < 2" "x = VGA + of_nat (2 * i + k)"
        by (auto elim!: region_member simp: add.assoc)
      with assms(2) show "x \<in> vga_region"
        using of_nat_in_region [of "2 * i + k" 4000 VGA] by (simp add: vga_region_def)
    qed
    with that show "a \<notin> region (VGA + 2 * of_nat i) 2" by blast
  qed
  with assms show ?thesis
    by (intro tty_frameI [where m = "store16 (mem s) (VGA + 2 * of_nat i) w"
          and x = "cursor_x s" and y = "cursor_y s"])
      (simp_all add: tty_set_cell_def)
qed

section \<open>Scrolling\<close>

lemma scroll_rows_list:
  assumes "length xs = 2000" and "r \<le> 24"
  shows "fold (\<lambda>row. fold (\<lambda>col ys. ys[(row - 1) * 80 + col := ys ! (row * 80 + col)]) [0..<80])
      [1..<Suc r] xs = take (80 * r) (drop 80 xs) @ drop (80 * r) xs"
  using assms(2)
proof (induction r)
  case (Suc r)
  let ?ys = "take (80 * r) (drop 80 xs) @ drop (80 * r) xs"
  have "fold (\<lambda>col ys. ys[r * 80 + col := ys ! (Suc r * 80 + col)]) [0..<80] ?ys
      = take (r * 80) ?ys @ take 80 (drop (Suc r * 80) ?ys) @ drop (r * 80 + 80) ?ys"
    using Suc.prems assms(1) by (intro fold_copy_stretch) simp_all
  also have "\<dots> = take (80 * Suc r) (drop 80 xs) @ drop (80 * Suc r) xs"
    using Suc.prems assms(1) take_add [of "r * 80" 80 "drop 80 xs"]
    by (simp add: add.commute mult.commute)
  finally show ?case
    using Suc by (simp del: upt_Suc add: upt_Suc_append)
qed simp

lemma clear_last_line_cells:
  fixes s :: "'a tty_scheme"
  shows "cell_list (clear_last_line s) = scroll_cells (vga_char 32 (terminal_color s)) (cell_list s)"
proof -
  let ?copy = "\<lambda>row. fold (\<lambda>col t. tty_set_cell ((int row - 1) * 80 + int col)
      (tty_cell t (int row * 80 + int col)) t) [0..<80]"
  let ?copyl = "\<lambda>row. fold (\<lambda>col ys. ys[(row - 1) * 80 + col := ys ! (row * 80 + col)]) [0..<80]"
  define s1 where "s1 = fold ?copy [1..<25] s"
  have one: "cell_list (tty_set_cell ((int row - 1) * 80 + int col)
      (tty_cell t (int row * 80 + int col)) t)
      = (cell_list t)[(row - 1) * 80 + col := cell_list t ! (row * 80 + col)]"
    if "row \<in> set [1..<25]" "col \<in> set [0..<80]" for row col and t :: "'a tty_scheme"
  proof -
    have "(int row - 1) * 80 + int col = int ((row - 1) * 80 + col)"
      and "int row * 80 + int col = int (row * 80 + col)"
      and "(row - 1) * 80 + col < 2000" and "row * 80 + col < 2000"
      using that by auto
    then show ?thesis by (simp only: cell_list_set_cell nth_cell_list)
  qed
  have "cell_list s1 = fold ?copyl [1..<25] (cell_list s)"
    unfolding s1_def by (intro fold_abs) (rule one)
  also have "\<dots> = take 1920 (drop 80 (cell_list s)) @ drop 1920 (cell_list s)"
    using scroll_rows_list [of "cell_list s" 24] by simp
  finally have rows: "cell_list s1 = take 1920 (drop 80 (cell_list s)) @ drop 1920 (cell_list s)" .
  have color: "terminal_color s1 = terminal_color s"
    unfolding s1_def
    by (rule fold_preserves [where P = "\<lambda>t. terminal_color t = terminal_color s"],
        rule fold_preserves [where P = "\<lambda>t. terminal_color t = terminal_color s"]) simp_all
  have fill: "cell_list (tty_set_cell (1920 + int col) w t) = (cell_list t)[1920 + col := w]"
    if "col < 80" for col w and t :: "'a tty_scheme"
    using that cell_list_set_cell [of "1920 + col"] by simp
  let ?fill = "\<lambda>col t. tty_set_cell (1920 + int col) (vga_char 32 (terminal_color t)) t"
  have "cell_list (fold ?fill [0..<n] t) = fold (\<lambda>col ys. ys[1920 + col := vga_char 32 (terminal_color t)]) [0..<n] (cell_list t)
      \<and> terminal_color (fold ?fill [0..<n] t) = terminal_color t" if "n \<le> 80" for n and t :: "'a tty_scheme"
    using that by (induction n) (simp_all add: fill)
  from this [of 80 s1] have "cell_list (fold ?fill [0..<80] s1)
      = take 1920 (cell_list s1) @ replicate 80 (vga_char 32 (terminal_color s))"
    using fold_fill_stretch [of 1920 80 "cell_list s1"] by (simp add: color)
  then have "cell_list (fold ?fill [0..<80] s1) = scroll_cells (vga_char 32 (terminal_color s)) (cell_list s)"
    by (simp add: scroll_cells_def rows)
  moreover have "clear_last_line s = (fold ?fill [0..<80] s1)\<lparr>cursor_y := 24\<rparr>"
    by (simp add: clear_last_line_def VGA_WIDTH_def VGA_HEIGHT_def s1_def)
  ultimately show ?thesis by simp
qed

lemma clear_last_line_frame:
  assumes "terminal_buffer s = VGA"
  shows "tty_frame s (clear_last_line s)"
proof -
  have cell: "tty_frame t (tty_set_cell i w t) \<and> terminal_buffer (tty_set_cell i w t) = VGA"
    if "terminal_buffer t = VGA" "0 \<le> i" "i < 2000" for t :: "'a tty_scheme" and i w
    using that tty_frame_set_cell [of t "nat i" w] by simp
  let ?row = "\<lambda>row. fold (\<lambda>col t. tty_set_cell ((int row - 1) * 80 + int col)
      (tty_cell t (int row * 80 + int col)) t) [0..<80]"
  have 1: "tty_frame s (fold ?row [1..<25] s) \<and> terminal_buffer (fold ?row [1..<25] s) = VGA"
    by (rule tty_frame_fold [where P = "\<lambda>t. terminal_buffer t = VGA"],
        rule tty_frame_fold [where P = "\<lambda>t. terminal_buffer t = VGA"], rule cell)
      (use assms in auto)
  have 2: "tty_frame t (fold (\<lambda>col t. tty_set_cell (1920 + int col)
      (vga_char 32 (terminal_color t)) t) [0..<80] t)" if "terminal_buffer t = VGA" for t :: "'a tty_scheme"
    by (rule tty_frame_fold [where P = "\<lambda>t. terminal_buffer t = VGA", THEN conjunct1], rule cell)
      (use that in auto)
  define s2 where "s2 = fold (\<lambda>col t. tty_set_cell (1920 + int col)
      (vga_char 32 (terminal_color t)) t) [0..<80] (fold ?row [1..<25] s)"
  have "tty_frame s s2"
    unfolding s2_def using 1 2 tty_frame_trans by blast
  then have "tty_frame s (s2\<lparr>cursor_y := 24\<rparr>)"
    using tty_frame_trans tty_frame_cursor(2) by blast
  moreover have "clear_last_line s = s2\<lparr>cursor_y := 24\<rparr>"
    by (simp add: clear_last_line_def VGA_WIDTH_def VGA_HEIGHT_def s2_def)
  ultimately show ?thesis by simp
qed

lemma tty_frame_fields:
  assumes "tty_frame s t"
  shows "terminal_color t = terminal_color s" "terminal_buffer t = terminal_buffer s"
    "io_log t = io_log s" "a \<notin> vga_region \<Longrightarrow> mem t a = mem s a"
  using assms by (auto simp: tty_frame_def)

section \<open>One character\<close>

lemma screen_of_cells: "screen_of s = \<lparr>cells = cell_list s, cx = nat (cursor_x s), cy = nat (cursor_y s)\<rparr>"
  by (simp add: screen_of_def cell_list_def)

text \<open>
  The last step of \<open>terminal_put_char\<close>: with the cursor at column 0 of row \<open>y\<close>, scroll if
  \<open>y\<close> is below the screen.
\<close>

definition scroll_check :: "'a tty_scheme \<Rightarrow> 'a tty_scheme" where
  "scroll_check s = (if cursor_y s \<ge> VGA_HEIGHT then (clear_last_line s)\<lparr>cursor_x := 0\<rparr> else s)"

lemma clear_last_line_cursor: "cursor_y (clear_last_line s) = 24"
  by (simp add: clear_last_line_def VGA_HEIGHT_def Let_def)

lemma scroll_check_row:
  assumes "terminal_buffer s = VGA" and "cursor_x s = 0" and "0 \<le> cursor_y s"
  shows "screen_of (scroll_check s)
      = goto_row (vga_char 32 (terminal_color s)) (nat (cursor_y s)) (screen_of s)"
    and "tty_inv (scroll_check s)" and "tty_frame s (scroll_check s)"
  using assms clear_last_line_frame [OF assms(1)] tty_frame_fields(2) [OF clear_last_line_frame [OF assms(1)]]
  by (auto simp: scroll_check_def screen_of_cells goto_row_def VGA_HEIGHT_def VGA_WIDTH_def tty_inv_def
      clear_last_line_cells clear_last_line_cursor intro: tty_frame_trans)

lemma scroll_check_inside:
  "cursor_y s < VGA_HEIGHT \<Longrightarrow> scroll_check s = s"
  by (simp add: scroll_check_def)

lemma terminal_put_char_cases:
  "terminal_put_char c s = scroll_check
    (if c = 10 then s\<lparr>cursor_x := 0, cursor_y := cursor_y s + 1\<rparr>
     else if c = 13 then s\<lparr>cursor_x := 0\<rparr>
     else if cursor_x s + 1 < 80
       then (tty_set_cell (cursor_y s * 80 + cursor_x s) (vga_char c (terminal_color s)) s)
              \<lparr>cursor_x := cursor_x s + 1\<rparr>
       else (tty_set_cell (cursor_y s * 80 + cursor_x s) (vga_char c (terminal_color s)) s)
              \<lparr>cursor_x := 0, cursor_y := cursor_y s + 1\<rparr>)"
  by (simp add: terminal_put_char_def scroll_check_def Let_def VGA_WIDTH_def)

lemma terminal_put_char_correct:
  assumes inv: "tty_inv s"
  shows "tty_inv (terminal_put_char c s)" (is ?inv)
    and "tty_frame s (terminal_put_char c s)" (is ?frame)
    and "screen_of (terminal_put_char c s) = put_spec (terminal_color s) c (screen_of s)" (is ?abs)
proof -
  from inv have cur: "0 \<le> cursor_x s" "cursor_x s < 80" "0 \<le> cursor_y s" "cursor_y s < 25"
    and buf: "terminal_buffer s = VGA"
    by (simp_all add: tty_inv_def VGA_WIDTH_def VGA_HEIGHT_def)
  define i where "i = nat (cursor_y s) * 80 + nat (cursor_x s)"
  define t where "t = tty_set_cell (int i) (vga_char c (terminal_color s)) s"
  have i: "cursor_y s * 80 + cursor_x s = int i" and i_less: "i < 2000"
    using cur by (simp_all add: i_def)
  have t: "tty_frame s t" "cell_list t = (cell_list s)[i := vga_char c (terminal_color s)]"
    "cursor_x t = cursor_x s" "cursor_y t = cursor_y s" "terminal_buffer t = VGA"
    "terminal_color t = terminal_color s"
    using buf i_less by (simp_all add: t_def tty_frame_set_cell cell_list_set_cell)
  consider (nl) "c = 10" | (cr) "c = 13" | (col) "c \<noteq> 10" "c \<noteq> 13" "cursor_x s + 1 < 80"
    | (row) "c \<noteq> 10" "c \<noteq> 13" "cursor_x s + 1 = 80"
    using cur(2) by force
  then have "?inv \<and> ?frame \<and> ?abs"
  proof cases
    case nl
    let ?t = "s\<lparr>cursor_x := 0, cursor_y := cursor_y s + 1\<rparr>"
    have "terminal_put_char c s = scroll_check ?t"
      using nl by (simp add: terminal_put_char_cases)
    moreover have "nat (cursor_y s + 1) = nat (cursor_y s) + 1" using cur by simp
    moreover have "tty_frame s ?t" by simp
    ultimately show ?thesis
      using scroll_check_row [of ?t] nl cur buf
      by (auto simp: put_spec_def screen_of_cells goto_row_def intro: tty_frame_trans
          simp del: tty_frame_cursor)
  next
    case cr
    with cur buf show ?thesis
      by (simp add: terminal_put_char_cases scroll_check_inside put_spec_def screen_of_cells
          tty_inv_def VGA_WIDTH_def VGA_HEIGHT_def)
  next
    case col
    then have "terminal_put_char c s = t\<lparr>cursor_x := cursor_x s + 1\<rparr>"
      using cur t(4) by (simp add: terminal_put_char_cases scroll_check_inside i t_def VGA_HEIGHT_def)
    with col cur t i_def show ?thesis
      by (auto simp: put_spec_def screen_of_cells tty_inv_def VGA_WIDTH_def VGA_HEIGHT_def
          Let_def nat_add_distrib intro: tty_frame_trans)
  next
    case row
    let ?t = "t\<lparr>cursor_x := 0, cursor_y := cursor_y s + 1\<rparr>"
    have "terminal_put_char c s = scroll_check ?t"
      using row by (simp add: terminal_put_char_cases t_def flip: i)
    moreover have "nat (cursor_y s + 1) = nat (cursor_y s) + 1" "nat (cursor_x s) = 79"
      using cur row by simp_all
    moreover have "tty_frame s ?t" using t(1) tty_frame_trans tty_frame_cursor(3) by blast
    ultimately show ?thesis
      using scroll_check_row [of ?t] row cur t
      by (auto simp: put_spec_def screen_of_cells goto_row_def i_def intro: tty_frame_trans
          simp del: tty_frame_cursor)
  qed
  then show ?inv ?frame ?abs by auto
qed

lemma terminal_write_correct:
  assumes "tty_inv s"
  shows "tty_inv (terminal_write data n s) \<and> tty_frame s (terminal_write data n s)"
proof -
  have "tty_frame s (terminal_write data n s) \<and> tty_inv (terminal_write data n s)"
    unfolding terminal_write_def
    by (rule tty_frame_fold) (use assms terminal_put_char_correct(1,2) in blast)+
  then show ?thesis by simp
qed

section \<open>The console interface\<close>

text \<open>
  What the printing code relies on: one operation that writes a character, an invariant it
  keeps, a frame it stays in, and a view of the state on which it acts as \<open>step\<close>.
\<close>

locale console =
  fixes put :: "u8 \<Rightarrow> 's \<Rightarrow> 's"
    and inv :: "'s \<Rightarrow> bool"
    and frame :: "'s \<Rightarrow> 's \<Rightarrow> bool"
    and view :: "'s \<Rightarrow> 'v"
    and step :: "u8 \<Rightarrow> 'v \<Rightarrow> 'v"
  assumes frame_refl: "frame s s"
    and frame_trans: "frame s t \<Longrightarrow> frame t u \<Longrightarrow> frame s u"
    and put_inv: "inv s \<Longrightarrow> inv (put c s)"
    and put_frame: "inv s \<Longrightarrow> frame s (put c s)"
    and put_view: "inv s \<Longrightarrow> view (put c s) = step c (view s)"
begin

lemma puts_inv: "inv s \<Longrightarrow> inv (fold put cs s)"
  by (induction cs arbitrary: s) (auto intro: put_inv)

lemma puts_frame: "inv s \<Longrightarrow> frame s (fold put cs s)"
  by (induction cs arbitrary: s) (auto intro: frame_refl frame_trans put_frame put_inv)

lemma puts_view: "inv s \<Longrightarrow> view (fold put cs s) = fold step cs (view s)"
  by (induction cs arbitrary: s) (auto simp: put_view put_inv)

end

interpretation tty: console terminal_put_char tty_inv tty_frame
  "\<lambda>s. (terminal_color s, screen_of s)" "\<lambda>c (color, sc). (color, put_spec color c sc)"
proof
  fix s t u :: "'a tty_scheme" and c
  show "tty_frame s s" by simp
  show "tty_frame s t \<Longrightarrow> tty_frame t u \<Longrightarrow> tty_frame s u" by (rule tty_frame_trans)
  assume inv: "tty_inv s"
  then show "tty_inv (terminal_put_char c s)" and frame: "tty_frame s (terminal_put_char c s)"
    by (rule terminal_put_char_correct)+
  show "(terminal_color (terminal_put_char c s), screen_of (terminal_put_char c s))
      = (case (terminal_color s, screen_of s) of (color, sc) \<Rightarrow> (color, put_spec color c sc))"
    using tty_frame_fields(1) [OF frame] terminal_put_char_correct(3) [OF inv] by simp
qed

text \<open>Writing a sequence of known bytes.\<close>

definition put_chars :: "u8 list \<Rightarrow> 'a tty_scheme \<Rightarrow> 'a tty_scheme" where
  "put_chars cs s = fold terminal_put_char cs s"

lemma put_chars_Nil [simp]: "put_chars [] s = s"
  by (simp add: put_chars_def)

lemma put_chars_append: "put_chars (xs @ ys) s = put_chars ys (put_chars xs s)"
  by (simp add: put_chars_def)

lemma put_chars_Cons: "put_chars (x # xs) s = put_chars xs (terminal_put_char x s)"
  by (simp add: put_chars_def)

lemma put_chars_inv: "tty_inv s \<Longrightarrow> tty_inv (put_chars cs s)"
  unfolding put_chars_def by (rule tty.puts_inv)

lemma put_chars_frame: "tty_inv s \<Longrightarrow> tty_frame s (put_chars cs s)"
  unfolding put_chars_def by (rule tty.puts_frame)

lemma put_chars_screen:
  assumes "tty_inv s"
  shows "screen_of (put_chars cs s) = fold (put_spec (terminal_color s)) cs (screen_of s)"
proof -
  have "fold (\<lambda>c (color, sc). (color, put_spec color c sc)) cs (k, sc)
      = (k, fold (put_spec k) cs sc)" for k sc
    by (induction cs arbitrary: sc) simp_all
  with tty.puts_view [OF assms, of cs] show ?thesis by (simp add: put_chars_def)
qed

section \<open>Initialisation\<close>

lemma clear_screen_cells:
  fixes s :: "'a tty_scheme"
  shows "cell_list (clear_screen s) = replicate 2000 (vga_char 32 (terminal_color s))"
proof -
  have "cell_list (fold (\<lambda>i. tty_set_cell (int i) w) [0..<2000] s)
      = fold (\<lambda>i ys. ys[i := w]) [0..<2000] (cell_list s)" for w
    by (rule fold_abs) (simp add: cell_list_set_cell)
  also have "\<dots> w = replicate 2000 w" for w
    using fold_fill_stretch [of 0 2000 "cell_list s" w] by simp
  finally show ?thesis by (simp add: clear_screen_def VGA_WIDTH_def VGA_HEIGHT_def)
qed

lemma clear_screen_frame:
  assumes "terminal_buffer s = VGA"
  shows "tty_frame s (clear_screen s)" and "cursor_x (clear_screen s) = cursor_x s"
    and "cursor_y (clear_screen s) = cursor_y s"
proof -
  have "tty_frame s (fold (\<lambda>i. tty_set_cell (int i) w) [0..<2000] s)" for w
    by (rule tty_frame_fold [where P = "\<lambda>t. terminal_buffer t = VGA", THEN conjunct1])
      (use assms in \<open>simp_all add: tty_frame_set_cell\<close>)
  then show "tty_frame s (clear_screen s)"
    by (simp add: clear_screen_def VGA_WIDTH_def VGA_HEIGHT_def)
  show "cursor_x (clear_screen s) = cursor_x s" "cursor_y (clear_screen s) = cursor_y s"
    unfolding clear_screen_def Let_def by (rule fold_preserves [where P = "\<lambda>t. _ t = _ s"]; simp)+
qed

section \<open>Properties\<close>

text \<open>
  C12: \<open>terminal_put_char\<close> implements the abstract screen: it keeps the cursor on the
  screen, changes no memory outside the VGA text buffer, and its effect on cells and cursor
  is \<open>put_spec\<close> (newline, carriage return, wrapping at column 80, scrolling below row 25).
\<close>

theorem terminal_put_char_refines:
  assumes "tty_inv s"
  shows "tty_inv (terminal_put_char c s) \<and> tty_frame s (terminal_put_char c s)
    \<and> screen_of (terminal_put_char c s) = put_spec (terminal_color s) c (screen_of s)"
  using terminal_put_char_correct [OF assms, of c] by blast

definition example_tty :: tty where
  "example_tty = \<lparr>mem = (\<lambda>_. 0), io_log = [], if_flag = False, cursor_x = 79, cursor_y = 24,
     terminal_color = 15, terminal_buffer = VGA\<rparr>"

lemma example_tty_inv: "tty_inv example_tty"
  by (simp add: tty_inv_def example_tty_def VGA_WIDTH_def VGA_HEIGHT_def)

theorem terminal_put_char_refines_witness:
  "tty_inv example_tty \<and> tty_inv (terminal_put_char 65 example_tty)
    \<and> tty_frame example_tty (terminal_put_char 65 example_tty)
    \<and> screen_of (terminal_put_char 65 example_tty) = put_spec 15 65 (screen_of example_tty)"
  using terminal_put_char_refines [OF example_tty_inv, of 65] example_tty_inv
  by (simp add: example_tty_def)

text \<open>
  \<open>terminal_init\<close> establishes the invariant from any state, clears all 2000 cells to
  white-on-black blanks and puts the cursor in the top left corner.
\<close>

theorem terminal_init_establishes:
  "tty_inv (terminal_init s)
    \<and> screen_of (terminal_init s) = \<lparr>cells = replicate 2000 0x0F20, cx = 0, cy = 0\<rparr>"
proof -
  let ?s = "s\<lparr>cursor_x := 0, cursor_y := 0, terminal_color := vga_entry VGA_WHITE VGA_BLACK,
    terminal_buffer := VGA\<rparr>"
  have "vga_char 32 (vga_entry VGA_WHITE VGA_BLACK) = 0x0F20"
    by (simp add: vga_char_def vga_entry_def)
  then show ?thesis
    using clear_screen_cells [of ?s] clear_screen_frame [of ?s]
      tty_frame_fields(2) [OF clear_screen_frame(1), of ?s]
    by (simp add: terminal_init_def tty_inv_def screen_of_cells VGA_WIDTH_def VGA_HEIGHT_def)
qed

end
