(* ===== verification/Heap.thy ===== *)
theory Heap
  imports Terminal
begin

text \<open>
  The heap allocator of \<open>libc/stdlib/\<close>: \<open>malloc\<close>, \<open>calloc\<close>, \<open>free\<close> and
  \<open>realloc\<close> as functions on the byte memory. Every block starts with an \<open>alloc_t\<close>
  header of 16 bytes (status byte at offset 0, 64-bit size at offset 8) directly followed by
  its payload; the blocks lie side by side from \<open>heap_beginning\<close> to \<open>last_alloc\<close>. The
  scanning loops follow headers read from memory and need not stop on a corrupted heap, so
  they are partial functions: \<open>None\<close> is "does not return".
\<close>

record heap = tty +
  heap_beginning :: u64
  heap_end :: u64
  last_alloc :: u64
  memory_used :: u64

definition ALLOC_ALIGN :: u64 where
  "ALLOC_ALIGN = 16"

definition ALIGN_UP :: "u64 \<Rightarrow> u64" where
  "ALIGN_UP x = (x + (ALLOC_ALIGN - 1)) AND NOT (ALLOC_ALIGN - 1)"

section \<open>Block headers\<close>

text \<open>\<open>sizeof(alloc_t)\<close>: one byte, seven bytes of padding, eight bytes.\<close>

definition sizeof_alloc_t :: u64 where
  "sizeof_alloc_t = 16"

definition alloc_status :: "'a heap_scheme \<Rightarrow> u64 \<Rightarrow> u8" where
  "alloc_status s alloc = mem s alloc"

definition alloc_size :: "'a heap_scheme \<Rightarrow> u64 \<Rightarrow> u64" where
  "alloc_size s alloc = load64 (mem s) (alloc + 8)"

definition set_status :: "u64 \<Rightarrow> u8 \<Rightarrow> 'a heap_scheme \<Rightarrow> 'a heap_scheme" where
  "set_status alloc v s = s\<lparr>mem := store8 (mem s) alloc v\<rparr>"

definition set_size :: "u64 \<Rightarrow> u64 \<Rightarrow> 'a heap_scheme \<Rightarrow> 'a heap_scheme" where
  "set_size alloc v s = s\<lparr>mem := store64 (mem s) (alloc + 8) v\<rparr>"

definition heap_memset :: "u64 \<Rightarrow> u64 \<Rightarrow> 'a heap_scheme \<Rightarrow> 'a heap_scheme" where
  "heap_memset dest n s = s\<lparr>mem := memset (mem s) dest 0 n\<rparr>"

text \<open>
  The limit \<open>INT_MAX - (ALLOC_ALIGN - 1)\<close> against which the requested sizes are compared.
\<close>

definition MAX_REQUEST :: u64 where
  "MAX_REQUEST = of_int (INT_MAX - 15)"

section \<open>malloc\<close>

text \<open>
  The search loop, shared by \<open>malloc\<close> and \<open>calloc\<close>: either a free block that fits is
  found at \<open>memory_loc\<close>, or control reaches the label \<open>new_alloc\<close> with \<open>memory_loc\<close>.
\<close>

datatype scan = Found u64 | New_alloc u64

partial_function (option) malloc_scan :: "'a heap_scheme \<Rightarrow> u64 \<Rightarrow> u64 \<Rightarrow> scan option" where
  "malloc_scan s sz memory_loc =
     (if memory_loc < last_alloc s then
        (if alloc_size s memory_loc = 0 then Some (New_alloc memory_loc)
         else if alloc_status s memory_loc = 1
           then malloc_scan s sz (memory_loc + alloc_size s memory_loc + sizeof_alloc_t)
         else if alloc_size s memory_loc \<ge> sz then Some (Found memory_loc)
         else malloc_scan s sz (memory_loc + alloc_size s memory_loc + sizeof_alloc_t))
      else Some (New_alloc memory_loc))"

text \<open>
  Cutting a block to \<open>size\<close> bytes when more than a header is left over: the remainder
  becomes a free block of its own.
\<close>

definition split_block :: "u64 \<Rightarrow> u64 \<Rightarrow> 'a heap_scheme \<Rightarrow> 'a heap_scheme" where
  "split_block alloc sz s =
     (if alloc_size s alloc - sz > sizeof_alloc_t then
        let remainder = alloc + sizeof_alloc_t + sz;
            s1 = set_status remainder 0 s;
            s2 = set_size remainder (alloc_size s1 alloc - sz - sizeof_alloc_t) s1
        in set_size alloc sz s2
      else s)"

text \<open>The code after the label \<open>new_alloc\<close>: a new block at the end of the used part.\<close>

definition new_block :: "u64 \<Rightarrow> u64 \<Rightarrow> 'a heap_scheme \<Rightarrow> u64 \<times> 'a heap_scheme" where
  "new_block sz memory_loc s =
     (if last_alloc s + sz + sizeof_alloc_t \<ge> heap_end s then (0, s)
      else
        let s1 = set_size memory_loc sz (set_status memory_loc 1 s);
            s2 = s1\<lparr>last_alloc := last_alloc s1 + (sz + sizeof_alloc_t)\<rparr>;
            s3 = s2\<lparr>memory_used := memory_used s2 + (sz + sizeof_alloc_t)\<rparr>
        in (memory_loc + sizeof_alloc_t, heap_memset (memory_loc + sizeof_alloc_t) sz s3))"

definition malloc :: "u64 \<Rightarrow> 'a heap_scheme \<Rightarrow> (u64 \<times> 'a heap_scheme) option" where
  "malloc sz s =
     (if sz = 0 then Some (0, s)
      else if heap_beginning s = 0 then Some (0, s)
      else if sz > MAX_REQUEST then Some (0, s)
      else
        let sz = ALIGN_UP sz in
        case malloc_scan s sz (heap_beginning s) of
          None \<Rightarrow> None
        | Some (Found memory_loc) \<Rightarrow>
            let s1 = split_block memory_loc sz s;
                s2 = set_status memory_loc 1 s1;
                s3 = s2\<lparr>memory_used := memory_used s2 + (alloc_size s2 memory_loc + sizeof_alloc_t)\<rparr>;
                s4 = heap_memset (memory_loc + sizeof_alloc_t) (alloc_size s3 memory_loc) s3
            in Some (memory_loc + sizeof_alloc_t, s4)
        | Some (New_alloc memory_loc) \<Rightarrow> Some (new_block sz memory_loc s))"

section \<open>calloc\<close>

definition SIZE_MAX :: u64 where
  "SIZE_MAX = - 1"

definition calloc :: "u64 \<Rightarrow> u64 \<Rightarrow> 'a heap_scheme \<Rightarrow> (u64 \<times> 'a heap_scheme) option" where
  "calloc amount sz s =
     (if sz = 0 then Some (0, s)
      else if amount = 0 then Some (0, s)
      else if amount \<noteq> 0 \<and> sz > SIZE_MAX div amount then Some (0, s)
      else if amount * sz > MAX_REQUEST then Some (0, s)
      else
        let total_size = ALIGN_UP (amount * sz) in
        if heap_beginning s = 0 then Some (0, s)
        else
          case malloc_scan s total_size (heap_beginning s) of
            None \<Rightarrow> None
          | Some (Found memory_loc) \<Rightarrow>
              let s1 = split_block memory_loc total_size s;
                  s2 = set_status memory_loc 1 s1;
                  s3 = s2\<lparr>memory_used := memory_used s2 + (alloc_size s2 memory_loc + sizeof_alloc_t)\<rparr>;
                  s4 = heap_memset (memory_loc + sizeof_alloc_t) total_size s3
              in Some (memory_loc + sizeof_alloc_t, s4)
          | Some (New_alloc memory_loc) \<Rightarrow> Some (new_block total_size memory_loc s))"

section \<open>free\<close>

partial_function (option) find_before_loop :: "'a heap_scheme \<Rightarrow> u64 \<Rightarrow> u64 \<Rightarrow> u64 \<Rightarrow> u64 option" where
  "find_before_loop s alloc cur nxt =
     (if nxt \<noteq> alloc then find_before_loop s alloc nxt (nxt + sizeof_alloc_t + alloc_size s nxt)
      else Some cur)"

definition find_before :: "'a heap_scheme \<Rightarrow> u64 \<Rightarrow> u64 option" where
  "find_before s alloc =
     (let cur = heap_beginning s;
          nxt = cur + sizeof_alloc_t + alloc_size s cur
      in if cur = alloc then Some 0 else find_before_loop s alloc cur nxt)"

definition free :: "u64 \<Rightarrow> 'a heap_scheme \<Rightarrow> 'a heap_scheme option" where
  "free ptr s =
     (if ptr = 0 then Some s
      else
        let alloc = ptr - sizeof_alloc_t in
        if alloc_status s alloc = 0 then Some s
        else
          let s1 = set_status alloc 0 s;
              s2 = s1\<lparr>memory_used := memory_used s1 - (sizeof_alloc_t + alloc_size s1 alloc)\<rparr>;
              nxt = ptr + alloc_size s2 alloc
          in case find_before s2 alloc of
               None \<Rightarrow> None
             | Some before \<Rightarrow>
                 let s3 = (if nxt < last_alloc s2 \<and> alloc_status s2 nxt = 0
                           then set_size alloc (alloc_size s2 alloc + (sizeof_alloc_t + alloc_size s2 nxt)) s2
                           else s2);
                     (alloc, s4) =
                       (if before \<noteq> 0 \<and> alloc_status s3 before = 0
                        then (before, set_size before
                               (alloc_size s3 before + (sizeof_alloc_t + alloc_size s3 alloc)) s3)
                        else (alloc, s3))
                 in Some (heap_memset (alloc + sizeof_alloc_t) (alloc_size s4 alloc) s4))"

section \<open>realloc\<close>

definition realloc :: "u64 \<Rightarrow> u64 \<Rightarrow> 'a heap_scheme \<Rightarrow> (u64 \<times> 'a heap_scheme) option" where
  "realloc ptr sz s =
     (if ptr = 0 then Some (0, s)
      else if sz = 0 then
        (case free ptr s of None \<Rightarrow> None | Some s' \<Rightarrow> Some (0, s'))
      else if sz > MAX_REQUEST then Some (0, s)
      else
        let sz = ALIGN_UP sz;
            alloc_cur = ptr - sizeof_alloc_t
        in if alloc_size s alloc_cur \<ge> sz then
             (if alloc_size s alloc_cur - sz > sizeof_alloc_t then
                let remainder = alloc_cur + sizeof_alloc_t + sz;
                    s1 = split_block alloc_cur sz s
                in Some (ptr, s1\<lparr>memory_used :=
                     memory_used s1 - (alloc_size s1 remainder + sizeof_alloc_t)\<rparr>)
              else Some (ptr, s))
           else
             (case malloc sz s of
                None \<Rightarrow> None
              | Some (new, s1) \<Rightarrow>
                  if new = 0 then Some (0, s1)
                  else
                    let s2 = s1\<lparr>mem := memcpy (mem s1) new ptr (alloc_size s1 alloc_cur)\<rparr>
                    in (case free ptr s2 of None \<Rightarrow> None | Some s3 \<Rightarrow> Some (new, s3))))"

end
