(* ===== verification/Heap_Blocks.thy ===== *)
theory Heap_Blocks
  imports Heap
begin

text \<open>
  The abstract heap: a list of blocks, each used or free with its payload size, and the
  specification of the allocator on such lists (first fit with splitting, growing at the
  end, freeing with merging). \<open>chain m a bs\<close> says that the headers found in memory from
  address \<open>a\<close> on spell the list \<open>bs\<close>; \<open>heap_rel s bs\<close> is the representation
  invariant that ties a heap state to its block list. The lemmas say how writes to memory
  change a chain.
\<close>

type_synonym block = "bool \<times> nat"

section \<open>Block lists\<close>

text \<open>The bytes a list of blocks occupies: a 16-byte header and the payload each.\<close>

fun span :: "block list \<Rightarrow> nat" where
  "span [] = 0"
| "span ((u, n) # bs) = 16 + n + span bs"

text \<open>The bytes that \<open>memory_used\<close> counts: headers and payloads of the used blocks.\<close>

fun used_bytes :: "block list \<Rightarrow> nat" where
  "used_bytes [] = 0"
| "used_bytes ((u, n) # bs) = (if u then 16 + n else 0) + used_bytes bs"

lemma span_append [simp]: "span (xs @ ys) = span xs + span ys"
  by (induction xs rule: span.induct) auto

lemma used_bytes_append [simp]: "used_bytes (xs @ ys) = used_bytes xs + used_bytes ys"
  by (induction xs rule: used_bytes.induct) auto

lemma used_bytes_le_span: "used_bytes bs \<le> span bs"
  by (induction bs rule: span.induct) auto

definition well_sized :: "block list \<Rightarrow> bool" where
  "well_sized bs \<longleftrightarrow> (\<forall>(u, n) \<in> set bs. 0 < n \<and> 16 dvd n)"

lemma well_sized_simps [simp]:
  "well_sized []" "well_sized ((u, n) # bs) \<longleftrightarrow> 0 < n \<and> 16 dvd n \<and> well_sized bs"
  "well_sized (xs @ ys) \<longleftrightarrow> well_sized xs \<and> well_sized ys"
  by (auto simp: well_sized_def)

lemma well_sized_span: "well_sized bs \<Longrightarrow> 16 dvd span bs"
  by (induction bs rule: span.induct) auto

section \<open>The allocator on block lists\<close>

text \<open>First fit: the blocks before the first free block of at least \<open>n\<close> bytes, its
  size, and the blocks after it.\<close>

fun first_fit :: "nat \<Rightarrow> block list \<Rightarrow> (block list \<times> nat \<times> block list) option" where
  "first_fit n [] = None"
| "first_fit n ((u, k) # bs) =
     (if \<not> u \<and> n \<le> k then Some ([], k, bs)
      else map_option (\<lambda>(xs, k', ys). ((u, k) # xs, k', ys)) (first_fit n bs))"

text \<open>Using \<open>n\<close> bytes of a free block of \<open>k\<close> bytes, the rest split off if it is worth it.\<close>

definition carve :: "nat \<Rightarrow> nat \<Rightarrow> block list" where
  "carve n k = (if k - n > 16 then [(True, n), (False, k - n - 16)] else [(True, k)])"

text \<open>
  Allocating \<open>n\<close> bytes in a heap of \<open>room\<close> bytes: the offset of the new payload and
  the new list, or nothing.
\<close>

definition alloc_blocks :: "nat \<Rightarrow> nat \<Rightarrow> block list \<Rightarrow> (nat \<times> block list) option" where
  "alloc_blocks room n bs =
     (case first_fit n bs of
        Some (xs, k, ys) \<Rightarrow> Some (span xs + 16, xs @ carve n k @ ys)
      | None \<Rightarrow> if span bs + n + 16 \<ge> room then None
                else Some (span bs + 16, bs @ [(True, n)]))"

text \<open>Freeing the block between \<open>xs\<close> and \<open>ys\<close>: merged with a free successor, then with
  a free predecessor.\<close>

definition merge_next :: "nat \<Rightarrow> block list \<Rightarrow> nat \<times> block list" where
  "merge_next n ys = (case ys of (False, k) # zs \<Rightarrow> (n + 16 + k, zs) | _ \<Rightarrow> (n, ys))"

definition free_blocks :: "block list \<Rightarrow> nat \<Rightarrow> block list \<Rightarrow> block list" where
  "free_blocks xs n ys =
     (let (n', zs) = merge_next n ys in
      if xs \<noteq> [] \<and> \<not> fst (last xs)
      then butlast xs @ (False, snd (last xs) + 16 + n') # zs
      else xs @ (False, n') # zs)"

lemma first_fit_Some:
  "first_fit n bs = Some (xs, k, ys) \<Longrightarrow> bs = xs @ (False, k) # ys \<and> n \<le> k \<and> first_fit n xs = None"
  by (induction n bs arbitrary: xs rule: first_fit.induct) (auto split: if_splits)

lemma first_fit_None: "first_fit n bs = None \<longleftrightarrow> (\<forall>(u, k) \<in> set bs. u \<or> k < n)"
  by (induction n bs rule: first_fit.induct) (auto split: if_splits)

lemma span_carve [simp]: "n \<le> k \<Longrightarrow> span (carve n k) = 16 + k"
  by (simp add: carve_def)

lemma well_sized_carve:
  "0 < n \<Longrightarrow> 16 dvd n \<Longrightarrow> 16 dvd k \<Longrightarrow> n \<le> k \<Longrightarrow> well_sized (carve n k)"
  by (auto simp: carve_def)

lemma used_bytes_carve:
  "n \<le> k \<Longrightarrow> used_bytes (carve n k) = 16 + (if k - n > 16 then n else k)"
  by (simp add: carve_def)

lemma merge_next_span: "merge_next n ys = (n', zs) \<Longrightarrow> n' + span zs = n + span ys"
  by (auto simp: merge_next_def split: list.splits prod.splits bool.splits)

lemma merge_next_well_sized:
  "merge_next n ys = (n', zs) \<Longrightarrow> 0 < n \<Longrightarrow> 16 dvd n \<Longrightarrow> well_sized ys \<Longrightarrow>
    0 < n' \<and> 16 dvd n' \<and> well_sized zs"
  by (auto simp: merge_next_def split: list.splits prod.splits bool.splits)

lemma merge_next_used: "merge_next n ys = (n', zs) \<Longrightarrow> used_bytes zs = used_bytes ys"
  by (auto simp: merge_next_def split: list.splits prod.splits bool.splits)

section \<open>Writes confined to an interval\<close>

definition only_changes :: "nat \<Rightarrow> nat \<Rightarrow> memory \<Rightarrow> memory \<Rightarrow> bool" where
  "only_changes lo hi m m' \<longleftrightarrow> (\<forall>x. unat x < lo \<or> hi \<le> unat x \<longrightarrow> m' x = m x)"

named_theorems confined \<open>operations that write in an interval only\<close>

lemma only_changes_refl [simp]: "only_changes lo hi m m"
  by (simp add: only_changes_def)

lemma only_changes_trans:
  "only_changes lo hi m m' \<Longrightarrow> only_changes lo hi m' m'' \<Longrightarrow> only_changes lo hi m m''"
  by (simp add: only_changes_def)

lemma only_changes_mono:
  "only_changes lo hi m m' \<Longrightarrow> lo' \<le> lo \<Longrightarrow> hi \<le> hi' \<Longrightarrow> only_changes lo' hi' m m'"
  by (auto simp: only_changes_def)

lemma only_changesD: "only_changes lo hi m m' \<Longrightarrow> unat x < lo \<or> hi \<le> unat x \<Longrightarrow> m' x = m x"
  by (auto simp: only_changes_def)

lemma only_changes_store8 [confined]:
  "lo \<le> unat a \<Longrightarrow> unat a < hi \<Longrightarrow> only_changes lo hi m (store8 m a v)"
  by (auto simp: only_changes_def store8_def)

lemma only_changes_region:
  assumes "lo \<le> unat a" and "unat a + n \<le> hi" and "hi \<le> 18446744073709551616"
    and "\<And>x. x \<notin> region a n \<Longrightarrow> m' x = m x"
  shows "only_changes lo hi m m'"
  unfolding only_changes_def using assms by (auto simp: region_interval)

lemma only_changes_store64 [confined]:
  "lo \<le> unat a \<Longrightarrow> unat a + 8 \<le> hi \<Longrightarrow> hi \<le> 18446744073709551616 \<Longrightarrow>
    only_changes lo hi m (store64 m a v)"
  by (rule only_changes_region) (auto simp: store64_other)

lemma only_changes_memset [confined]:
  "lo \<le> unat d \<Longrightarrow> unat d + unat n \<le> hi \<Longrightarrow> hi \<le> 18446744073709551616 \<Longrightarrow>
    only_changes lo hi m (memset m d v n)"
  by (rule only_changes_region) (auto simp: memset_other)

lemma only_changes_memcpy [confined]:
  "lo \<le> unat d \<Longrightarrow> unat d + unat n \<le> hi \<Longrightarrow> hi \<le> 18446744073709551616 \<Longrightarrow>
    only_changes lo hi m (memcpy m d src n)"
  by (rule only_changes_region) (auto simp: memcpy_other)

section \<open>Headers and chains\<close>

text \<open>A header at natural address \<open>b\<close>.\<close>

definition header :: "memory \<Rightarrow> nat \<Rightarrow> block \<Rightarrow> bool" where
  "header m b blk \<longleftrightarrow> m (of_nat b) = (if fst blk then 1 else 0)
     \<and> load64 m (of_nat b + 8) = of_nat (snd blk)"

fun chain :: "memory \<Rightarrow> nat \<Rightarrow> block list \<Rightarrow> bool" where
  "chain m a [] = True"
| "chain m a (b # bs) = (header m a b \<and> chain m (a + 16 + snd b) bs)"

lemma chain_append [simp]: "chain m a (xs @ ys) \<longleftrightarrow> chain m a xs \<and> chain m (a + span xs) ys"
  by (induction xs arbitrary: a) (auto simp: add.assoc)

lemma unat_of_nat_plus8 [simp]:
  "b + 8 < 18446744073709551616 \<Longrightarrow> unat (of_nat b + 8 :: u64) = b + 8"
  by (subst unat_plus_no_wrap) simp_all

lemma load64_frame:
  assumes "only_changes lo hi m m'" and "unat a + 8 \<le> lo \<or> hi \<le> unat a"
    and "unat a + 8 \<le> 18446744073709551616"
  shows "load64 m' a = load64 m a"
proof (rule load64_cong)
  fix x assume "x \<in> region a 8"
  then have "unat a \<le> unat x \<and> unat x < unat a + 8"
    using assms(3) by (simp add: region_interval)
  then show "m' x = m x"
    using assms(2) by (intro only_changesD [OF assms(1)]) auto
qed

lemma header_frame:
  assumes "only_changes lo hi m m'" and "b + 16 \<le> lo \<or> hi \<le> b" and "b + 16 \<le> 18446744073709551616"
  shows "header m' b blk = header m b blk"
proof -
  have b: "unat (of_nat b :: u64) = b" using assms(3) by simp
  have "m' (of_nat b) = m (of_nat b)"
    using assms by (intro only_changesD [OF assms(1)]) (auto simp: b)
  moreover have "load64 m' (of_nat b + 8) = load64 m (of_nat b + 8)"
    using assms by (intro load64_frame [OF assms(1)]) auto
  ultimately show ?thesis by (simp add: header_def)
qed

lemma chain_frame:
  assumes "only_changes lo hi m m'" and "a + span bs \<le> lo \<or> hi \<le> a"
    and "a + span bs \<le> 18446744073709551616"
  shows "chain m' a bs = chain m a bs"
  using assms(2,3)
proof (induction bs arbitrary: a)
  case (Cons b bs)
  have "span (b # bs) = 16 + snd b + span bs" by (cases b) simp
  with Cons header_frame [OF assms(1), of a b] show ?case
    by (auto simp: add.assoc)
qed simp

text \<open>Headers determine the block list.\<close>

lemma chain_unique:
  assumes "chain m a bs" and "chain m a bs'" and "span bs = span bs'"
    and "span bs < 18446744073709551616"
  shows "bs = bs'"
  using assms
proof (induction bs arbitrary: a bs')
  case Nil
  then show ?case by (cases bs' rule: span.cases) auto
next
  case (Cons b bs)
  obtain u n where b: "b = (u, n)" by force
  with Cons.prems(3) obtain u' n' bs'' where b': "bs' = (u', n') # bs''"
    by (cases bs' rule: span.cases) auto
  have "u = u'"
    using Cons.prems(1,2) by (auto simp: b b' header_def split: if_splits)
  moreover have "n = n'"
  proof -
    have "(of_nat n :: u64) = of_nat n'"
      using Cons.prems(1,2) by (simp add: b b' header_def)
    moreover have "n < 18446744073709551616" "n' < 18446744073709551616"
      using Cons.prems(3,4) by (simp_all add: b b')
    ultimately show ?thesis by (metis unat_of_nat_u64)
  qed
  ultimately show ?case
    using Cons.IH [of "a + 16 + n" bs''] Cons.prems by (simp add: b b')
qed

section \<open>The representation invariant\<close>

definition HEAP_LIMIT :: nat where
  "HEAP_LIMIT = 0x40000000"

definition HEAP_LOW :: nat where
  "HEAP_LOW = 0x800000"

text \<open>
  The blocks fill the heap from \<open>heap_beginning\<close> to \<open>last_alloc\<close> exactly and end at or
  before \<open>heap_end\<close>; the heap lies between the end of user space and the mapped limit;
  everything is 16-byte aligned; \<open>memory_used\<close> counts the used blocks. (A heap without
  blocks may be too small for any: aligning its beginning can move it past its end.)
\<close>

definition heap_rel :: "'a heap_scheme \<Rightarrow> block list \<Rightarrow> bool" where
  "heap_rel s bs \<longleftrightarrow> chain (mem s) (unat (heap_beginning s)) bs
     \<and> unat (last_alloc s) = unat (heap_beginning s) + span bs
     \<and> well_sized bs \<and> HEAP_LOW \<le> unat (heap_beginning s) \<and> 16 dvd unat (heap_beginning s)
     \<and> (bs = [] \<or> unat (last_alloc s) \<le> unat (heap_end s))
     \<and> unat (last_alloc s) \<le> HEAP_LIMIT \<and> unat (heap_end s) \<le> HEAP_LIMIT
     \<and> unat (memory_used s) = used_bytes bs"

definition heap_inv :: "'a heap_scheme \<Rightarrow> bool" where
  "heap_inv s \<longleftrightarrow> (\<exists>bs. heap_rel s bs)"

lemma heap_rel_unique: "heap_rel s bs \<Longrightarrow> heap_rel s bs' \<Longrightarrow> bs = bs'"
  by (rule chain_unique [of "mem s" "unat (heap_beginning s)"])
    (auto simp: heap_rel_def HEAP_LIMIT_def)

text \<open>The payload of a used block at address \<open>p\<close> with \<open>n\<close> bytes.\<close>

definition owns :: "'a heap_scheme \<Rightarrow> u64 \<Rightarrow> nat \<Rightarrow> bool" where
  "owns s p n \<longleftrightarrow> (\<exists>xs ys. heap_rel s (xs @ (True, n) # ys)
     \<and> unat p = unat (heap_beginning s) + span xs + 16)"

lemma ownsI:
  "heap_rel s (xs @ (True, n) # ys) \<Longrightarrow> unat p = unat (heap_beginning s) + span xs + 16 \<Longrightarrow> owns s p n"
  by (auto simp: owns_def)

lemma owns_heap_inv: "owns s p n \<Longrightarrow> heap_inv s"
  by (auto simp: owns_def heap_inv_def)

text \<open>Every owned payload lies inside the heap, is aligned and not at address 0.\<close>

lemma owns_bounds:
  assumes "owns s p n"
  shows "HEAP_LOW + 16 \<le> unat p" and "unat p + n \<le> HEAP_LIMIT" and "16 dvd unat p"
    and "0 < n" and "p \<noteq> 0"
    and "unat (heap_beginning s) + 16 \<le> unat p" and "unat p + n \<le> unat (heap_end s)"
proof -
  from assms obtain xs ys where rel: "heap_rel s (xs @ (True, n) # ys)"
    and p: "unat p = unat (heap_beginning s) + span xs + 16"
    by (auto simp: owns_def)
  then show "HEAP_LOW + 16 \<le> unat p" "unat p + n \<le> HEAP_LIMIT" "0 < n"
    "unat (heap_beginning s) + 16 \<le> unat p" "unat p + n \<le> unat (heap_end s)"
    by (auto simp: heap_rel_def)
  show "16 dvd unat p"
    using rel p well_sized_span [of xs] by (auto simp: heap_rel_def)
  then show "p \<noteq> 0"
    using \<open>HEAP_LOW + 16 \<le> unat p\<close> by (auto simp: HEAP_LOW_def)
qed

section \<open>Replacing a segment of the heap\<close>

text \<open>
  Every allocator operation rewrites one segment \<open>old\<close> of the block list into \<open>new\<close> and
  touches only the bytes of that segment. The next two lemmas carry all of them: the
  invariant is kept, and every block outside the segment keeps its owner and contents.
\<close>

lemma split_in_segment:
  assumes "us @ b # vs = xs @ old @ ys"
  obtains (before) xs' where "xs = us @ b # xs'" "vs = xs' @ old @ ys"
  | (inside) o1 o2 where "old = o1 @ b # o2" "us = xs @ o1" "vs = o2 @ ys"
  | (after) y1 where "us = xs @ old @ y1" "ys = y1 @ b # vs"
proof -
  have two: "\<exists>zs. as = cs @ zs \<and> zs @ bs = ds \<or> as @ zs = cs \<and> zs \<noteq> [] \<and> bs = zs @ ds"
    if "as @ bs = cs @ ds" for as bs cs ds :: "'a list"
  proof -
    from that obtain zs where "as = cs @ zs \<and> zs @ bs = ds \<or> as @ zs = cs \<and> bs = zs @ ds"
      by (auto simp: append_eq_append_conv2)
    then show ?thesis by (cases "zs = []") auto
  qed
  from two [OF assms] consider (l) zs where "us = xs @ zs" "zs @ b # vs = old @ ys"
    | (r) zs where "us @ zs = xs" "zs \<noteq> []" "b # vs = zs @ old @ ys"
    by blast
  then show thesis
  proof cases
    case l
    from two [OF l(2)] consider zs' where "zs = old @ zs'" "zs' @ b # vs = ys"
      | zs' where "zs @ zs' = old" "zs' \<noteq> []" "b # vs = zs' @ ys"
      by blast
    then show thesis
    proof cases
      case 1
      with l(1) show thesis using after by simp
    next
      case 2
      with l(1) show thesis using inside by (auto simp: Cons_eq_append_conv)
    qed
  next
    case r
    with before show thesis by (auto simp: Cons_eq_append_conv)
  qed
qed

definition keeps :: "'a heap_scheme \<Rightarrow> 'a heap_scheme \<Rightarrow> u64 \<Rightarrow> nat \<Rightarrow> bool" where
  "keeps s s' q j \<longleftrightarrow> owns s' q j \<and> (\<forall>x \<in> region q j. mem s' x = mem s x)"

lemma keeps_trans: "keeps s s' q j \<Longrightarrow> keeps s' s'' q j \<Longrightarrow> keeps s s'' q j"
  by (simp add: keeps_def)

lemma segment_rel:
  assumes rel: "heap_rel s (xs @ old @ ys)"
    and hb: "heap_beginning s' = heap_beginning s" and he: "heap_end s' = heap_end s"
    and last: "unat (last_alloc s') = unat (heap_beginning s) + span (xs @ new @ ys)"
    and inside: "unat (last_alloc s') \<le> unat (heap_end s)"
    and new: "chain (mem s') (unat (heap_beginning s) + span xs) new"
    and w: "only_changes (unat (heap_beginning s) + span xs)
      (unat (heap_beginning s) + span xs + span new) (mem s) (mem s')"
    and spans: "span old = span new \<or> ys = []"
    and sized: "well_sized new"
    and used: "unat (memory_used s') = used_bytes (xs @ new @ ys)"
  shows "heap_rel s' (xs @ new @ ys)"
proof -
  have limit: "unat (last_alloc s') \<le> HEAP_LIMIT"
    using rel inside by (simp add: heap_rel_def)
  then have len: "unat (heap_beginning s) + span (xs @ new @ ys) < 18446744073709551616"
    using last by (simp add: HEAP_LIMIT_def)
  have "chain (mem s') (unat (heap_beginning s)) xs"
    using rel len by (subst chain_frame [OF w]) (simp_all add: heap_rel_def)
  moreover have "chain (mem s') (unat (heap_beginning s) + span (xs @ new)) ys"
    using rel len spans by (subst chain_frame [OF w]) (auto simp: heap_rel_def add.assoc)
  ultimately show ?thesis
    using assms limit by (simp add: heap_rel_def add.assoc)
qed

lemma segment_keeps:
  assumes rel: "heap_rel s (xs @ old @ ys)" and rel': "heap_rel s' (xs @ new @ ys)"
    and hb: "heap_beginning s' = heap_beginning s"
    and w: "only_changes (unat (heap_beginning s) + span xs)
      (unat (heap_beginning s) + span xs + span new) (mem s) (mem s')"
    and spans: "span old = span new \<or> ys = []"
    and q: "owns s q j" "unat q < unat (heap_beginning s) + span xs
      \<or> unat (heap_beginning s) + span xs + span old \<le> unat q"
  shows "keeps s s' q j"
    and "unat q + j \<le> unat (heap_beginning s) + span xs
      \<or> unat (heap_beginning s) + span xs + span new \<le> unat q"
proof -
  let ?hb = "unat (heap_beginning s)"
  from q(1) obtain us vs where uv: "heap_rel s (us @ (True, j) # vs)"
    and uq: "unat q = ?hb + span us + 16"
    by (auto simp: owns_def)
  have eq: "us @ (True, j) # vs = xs @ old @ ys"
    using heap_rel_unique [OF uv rel] .
  have "owns s' q j \<and> (unat q + j \<le> ?hb + span xs \<or> ?hb + span xs + span new \<le> unat q)"
    using eq
  proof (cases rule: split_in_segment)
    case (before xs')
    then have "owns s' q j"
      using rel' uq hb by (intro ownsI [of s' us j "xs' @ new @ ys"]) simp_all
    then show ?thesis using uq before by simp
  next
    case (inside o1 o2)
    with q(2) uq owns_bounds(4) [OF q(1)] show ?thesis by simp
  next
    case (after y1)
    with spans have "span old = span new" by auto
    moreover have "owns s' q j"
      using rel' uq hb after calculation by (intro ownsI [of s' "xs @ new @ y1" j vs]) simp_all
    ultimately show ?thesis using uq after by simp
  qed
  then have apart: "unat q + j \<le> ?hb + span xs \<or> ?hb + span xs + span new \<le> unat q"
    and own: "owns s' q j" by auto
  from apart show "unat q + j \<le> ?hb + span xs \<or> ?hb + span xs + span new \<le> unat q" .
  have "mem s' x = mem s x" if "x \<in> region q j" for x
  proof -
    have "unat q \<le> unat x \<and> unat x < unat q + j"
      using that owns_bounds(2) [OF q(1)] by (simp add: region_interval HEAP_LIMIT_def)
    with apart show ?thesis by (intro only_changesD [OF w]) auto
  qed
  with own show "keeps s s' q j" by (simp add: keeps_def)
qed

text \<open>No owned payload starts inside a segment without used blocks.\<close>

lemma owns_outside_segment:
  assumes rel: "heap_rel s (xs @ old @ ys)" and free: "\<forall>b \<in> set old. \<not> fst b"
    and q: "owns s q j"
  shows "unat q < unat (heap_beginning s) + span xs
    \<or> unat (heap_beginning s) + span xs + span old \<le> unat q"
proof -
  from q obtain us vs where uv: "heap_rel s (us @ (True, j) # vs)"
    and uq: "unat q = unat (heap_beginning s) + span us + 16"
    by (auto simp: owns_def)
  from heap_rel_unique [OF uv rel] show ?thesis
  proof (cases rule: split_in_segment)
    case (before xs')
    with uq owns_bounds(4) [OF q] show ?thesis by simp
  next
    case (inside o1 o2)
    with free show ?thesis by auto
  next
    case (after y1)
    with uq show ?thesis by simp
  qed
qed

text \<open>The same with one used block in the segment, at another address.\<close>

lemma owns_outside_segment_but:
  assumes rel: "heap_rel s (xs @ (pre @ (True, n) # post) @ ys)"
    and free: "\<forall>b \<in> set pre \<union> set post. \<not> fst b" and q: "owns s q j"
    and ne: "unat q \<noteq> unat (heap_beginning s) + span xs + span pre + 16"
  shows "unat q < unat (heap_beginning s) + span xs
    \<or> unat (heap_beginning s) + span xs + span (pre @ (True, n) # post) \<le> unat q"
proof -
  let ?hb = "unat (heap_beginning s)"
  from q obtain us vs where uv: "heap_rel s (us @ (True, j) # vs)"
    and uq: "unat q = ?hb + span us + 16"
    by (auto simp: owns_def)
  from heap_rel_unique [OF uv rel] show ?thesis
  proof (cases rule: split_in_segment)
    case (before xs')
    with uq owns_bounds(4) [OF q] show ?thesis by simp
  next
    case (inside o1 o2)
    then have "o1 @ (True, j) # o2 = pre @ [(True, n)] @ post" by simp
    then have "o1 = pre"
    proof (cases rule: split_in_segment)
      case (inside c1 c2)
      then show ?thesis by (cases c1) auto
    qed (use free in auto)
    with ne uq inside show ?thesis by simp
  next
    case (after y1)
    with uq show ?thesis by simp
  qed
qed

end
