(* ===== verification/Heap_Alloc.thy ===== *)
theory Heap_Alloc
  imports Heap_Blocks
begin

text \<open>
  \<open>malloc\<close> and \<open>calloc\<close> implement first fit on the abstract block list: the search
  loop stops and finds the first fitting block, splitting and claiming a block rewrites
  exactly its own bytes, and the representation invariant is kept.
\<close>

section \<open>Alignment\<close>

lemma ALIGN_UP_unat:
  assumes "unat x \<le> 0xFFFFFFFFFFFFFFF0"
  shows "unat (ALIGN_UP x) = (unat x + 15) div 16 * 16"
proof -
  have mask: "- 16 = NOT (mask 4 :: u64)"
    by (simp add: mask_eq_exp_minus_1)
  have "unat (x + 15) = unat x + 15"
    using assms by (subst unat_plus_no_wrap) simp_all
  moreover have "(x + 15) AND NOT (mask 4) = push_bit 4 (drop_bit 4 (x + 15))"
    by (rule bit_word_eqI) (auto simp: bit_simps)
  moreover have "unat (push_bit 4 (drop_bit 4 y)) = unat y div 16 * 16" for y :: u64
  proof -
    have "unat (drop_bit 4 y) = unat y div 16"
      by (simp add: drop_bit_eq_div unat_div_distrib)
    moreover have "unat y div 16 * 16 < 18446744073709551616"
      using unat_less_2_64 [of y] by linarith
    ultimately show ?thesis
      by (simp add: push_bit_eq_mult unat_word_ariths)
  qed
  ultimately show ?thesis
    by (simp add: ALIGN_UP_def ALLOC_ALIGN_def mask)
qed

lemma MAX_REQUEST_unat: "unat MAX_REQUEST = 2147483632"
  by (simp add: MAX_REQUEST_def INT_MAX_def)

text \<open>An accepted request becomes a positive multiple of 16 that fits in 31 bits.\<close>

lemma ALIGN_UP_request:
  assumes "sz \<noteq> 0" and "\<not> sz > MAX_REQUEST"
  shows "unat sz \<le> unat (ALIGN_UP sz)" and "16 dvd unat (ALIGN_UP sz)"
    and "0 < unat (ALIGN_UP sz)" and "unat (ALIGN_UP sz) \<le> 2147483632"
    and "unat (ALIGN_UP sz) < unat sz + 16"
proof -
  have le: "unat sz \<le> 2147483632"
    using assms(2) by (simp add: not_less word_le_nat_alt MAX_REQUEST_unat)
  have pos: "0 < unat sz" using assms(1) by (simp add: unat_gt_0)
  have eq: "unat (ALIGN_UP sz) = (unat sz + 15) div 16 * 16"
    using le by (intro ALIGN_UP_unat) simp
  show "unat sz \<le> unat (ALIGN_UP sz)" and "16 dvd unat (ALIGN_UP sz)"
    and "unat (ALIGN_UP sz) \<le> 2147483632" and "unat (ALIGN_UP sz) < unat sz + 16"
    unfolding eq using le by presburger+
  show "0 < unat (ALIGN_UP sz)"
    unfolding eq using pos by presburger
qed

section \<open>The search loop\<close>

lemma header_read:
  assumes "header (mem s) (unat a) (u, k)"
  shows "alloc_status s a = (if u then 1 else 0)" and "alloc_size s a = of_nat k"
  using assms by (simp_all add: header_def alloc_status_def alloc_size_def)

lemma malloc_scan_chain:
  assumes "chain (mem s) (unat loc) bs" and "unat loc + span bs = unat (last_alloc s)"
    and "well_sized bs" and "unat (last_alloc s) \<le> HEAP_LIMIT" and "unat sz = n"
  shows "malloc_scan s sz loc = Some (case first_fit n bs of
      Some (xs, k, ys) \<Rightarrow> Found (loc + of_nat (span xs)) | None \<Rightarrow> New_alloc (last_alloc s))"
  using assms(1-3)
proof (induction bs arbitrary: loc)
  case Nil
  then have "loc = last_alloc s" by (simp add: word_unat_eq_iff)
  then show ?case by (simp add: malloc_scan.simps)
next
  case (Cons b bs)
  obtain u k where b: "b = (u, k)" by force
  have k: "0 < k" "k < 18446744073709551616" and room: "unat loc + 16 + k \<le> HEAP_LIMIT"
    using Cons.prems assms(4) by (auto simp: b HEAP_LIMIT_def)
  have hdr: "alloc_status s loc = (if u then 1 else 0)" "alloc_size s loc = of_nat k"
    using header_read [of s loc u k] Cons.prems(1) by (simp_all add: b)
  have less: "loc < last_alloc s"
    using Cons.prems(2) by (simp add: b word_less_nat_alt)
  have nz: "alloc_size s loc \<noteq> 0"
    using k hdr(2) by (metis less_numeral_extra(3) unat_of_nat_u64 unsigned_0)
  define nxt where "nxt = loc + of_nat k + 16"
  have nxt: "unat nxt = unat loc + 16 + k"
    using room k by (simp add: nxt_def HEAP_LIMIT_def unat_word_ariths)
  have IH: "malloc_scan s sz nxt = Some (case first_fit n bs of
      Some (xs, k, ys) \<Rightarrow> Found (nxt + of_nat (span xs)) | None \<Rightarrow> New_alloc (last_alloc s))"
    using Cons.prems by (intro Cons.IH) (auto simp: nxt b)
  have le: "alloc_size s loc \<ge> sz \<longleftrightarrow> n \<le> k"
    using k by (simp add: hdr word_le_nat_alt assms(5))
  show ?case
    using less nz le IH
    by (subst malloc_scan.simps)
      (auto simp: hdr(1) b sizeof_alloc_t_def nxt_def hdr(2) algebra_simps
        split: option.splits)
qed

section \<open>Splitting and claiming a block\<close>

lemma split_block_cond:
  assumes "header (mem s) (unat a) (u, k)" and "unat sz \<le> k" and "k < 18446744073709551616"
  shows "alloc_size s a - sz > sizeof_alloc_t \<longleftrightarrow> k - unat sz > 16"
proof -
  have "unat (of_nat k - sz) = k - unat sz"
    using assms(2,3) by (subst unat_minus_le) (simp_all add: word_le_nat_alt)
  then show ?thesis
    by (simp add: header_read(2) [OF assms(1)] sizeof_alloc_t_def word_less_nat_alt)
qed

lemma split_block_memory:
  assumes hdr: "header (mem s) (unat a) (u, k)" and gt: "k - unat sz > 16"
    and room: "unat a + 16 + k \<le> HEAP_LIMIT"
  defines "r \<equiv> a + 16 + sz"
  shows "split_block a sz s = s\<lparr>mem :=
    store64 (store64 (store8 (mem s) r 0) (r + 8) (of_nat (k - unat sz - 16))) (a + 8) sz\<rparr>"
    and "unat r = unat a + 16 + unat sz"
proof -
  show r: "unat r = unat a + 16 + unat sz"
    using room gt by (simp add: r_def unat_word_ariths HEAP_LIMIT_def)
  have "load64 (store8 (mem s) r 0) (a + 8) = load64 (mem s) (a + 8)"
    using room by (intro load64_frame [OF only_changes_store8 [OF le_refl lessI]])
      (simp_all add: r unat_word_ariths HEAP_LIMIT_def)
  then have "load64 (store8 (mem s) r 0) (a + 8) - sz - 16 = of_nat (k - unat sz - 16)"
    using header_read(2) [OF hdr] gt by (simp add: alloc_size_def)
  moreover have "alloc_size s a - sz > sizeof_alloc_t"
    using split_block_cond [OF hdr, of sz] gt room by (simp add: HEAP_LIMIT_def)
  ultimately show "split_block a sz s = s\<lparr>mem :=
      store64 (store64 (store8 (mem s) r 0) (r + 8) (of_nat (k - unat sz - 16))) (a + 8) sz\<rparr>"
    by (simp add: split_block_def Let_def set_size_def set_status_def alloc_size_def
        sizeof_alloc_t_def r_def)
qed

lemma split_block_effect:
  assumes hdr: "header (mem s) (unat a) (u, k)" and gt: "k - unat sz > 16"
    and room: "unat a + 16 + k \<le> HEAP_LIMIT"
  defines "s' \<equiv> split_block a sz s"
  shows "s' = s\<lparr>mem := mem s'\<rparr>" and "only_changes (unat a + 8) (unat a + 16 + k) (mem s) (mem s')"
    and "chain (mem s') (unat a) [(u, unat sz), (False, k - unat sz - 16)]"
proof -
  define r where "r = a + 16 + sz"
  define m1 where "m1 = store8 (mem s) r 0"
  define m2 where "m2 = store64 m1 (r + 8) (of_nat (k - unat sz - 16))"
  have s': "s' = s\<lparr>mem := store64 m2 (a + 8) sz\<rparr>" and r: "unat r = unat a + 16 + unat sz"
    using split_block_memory [OF hdr gt room] by (simp_all add: s'_def m1_def m2_def r_def)
  then show "s' = s\<lparr>mem := mem s'\<rparr>" by simp
  have a8: "unat (a + 8) = unat a + 8" and r8: "unat (r + 8) = unat r + 8"
    using room gt r by (simp_all add: unat_word_ariths HEAP_LIMIT_def)
  have w1: "only_changes (unat r) (unat a + 16 + k) (mem s) m1"
    and w2: "only_changes (unat r) (unat a + 16 + k) m1 m2"
    and w3: "only_changes (unat a + 8) (unat a + 16) m2 (mem s')"
    using gt room by (auto simp: m1_def m2_def s' a8 r8 r HEAP_LIMIT_def intro!: confined)
  from w1 w2 have w12: "only_changes (unat r) (unat a + 16 + k) (mem s) m2"
    by (rule only_changes_trans)
  then have "only_changes (unat a + 8) (unat a + 16 + k) (mem s) m2"
    by (rule only_changes_mono) (simp_all add: r)
  moreover from w3 have "only_changes (unat a + 8) (unat a + 16 + k) m2 (mem s')"
    by (rule only_changes_mono) simp_all
  ultimately show w: "only_changes (unat a + 8) (unat a + 16 + k) (mem s) (mem s')"
    by (rule only_changes_trans)
  have "mem s' a = mem s a"
    by (rule only_changesD [OF w]) simp
  then have "header (mem s') (unat a) (u, unat sz)"
    using hdr by (simp add: header_def s')
  moreover have "m1 r = 0" by (simp add: m1_def)
  then have "m2 r = 0"
    using r8 gt room r
    by (simp add: m2_def store64_other region_interval HEAP_LIMIT_def)
  then have "header m2 (unat r) (False, k - unat sz - 16)"
    by (simp add: header_def m2_def)
  then have "header (mem s') (unat r) (False, k - unat sz - 16)"
    using header_frame [OF w3, of "unat r"] r gt room by (simp add: HEAP_LIMIT_def)
  ultimately show "chain (mem s') (unat a) [(u, unat sz), (False, k - unat sz - 16)]"
    by (simp add: r)
qed

text \<open>
  What \<open>malloc\<close> and \<open>calloc\<close> do with a block they found: split, mark, count, clear
  \<open>z\<close> bytes.
\<close>

definition claim_block :: "u64 \<Rightarrow> u64 \<Rightarrow> ('a heap_scheme \<Rightarrow> u64) \<Rightarrow> 'a heap_scheme \<Rightarrow> 'a heap_scheme" where
  "claim_block a sz z s =
     (let s2 = set_status a 1 (split_block a sz s);
          s3 = s2\<lparr>memory_used := memory_used s2 + (alloc_size s2 a + sizeof_alloc_t)\<rparr>
      in heap_memset (a + sizeof_alloc_t) (z s3) s3)"

lemma set_status_chain:
  assumes "chain m b ((u, n) # bs)" and "b + span ((u, n) # bs) \<le> HEAP_LIMIT"
  shows "chain (store8 m (of_nat b) (if v then 1 else 0)) b ((v, n) # bs)"
proof -
  let ?m = "store8 m (of_nat b) (if v then 1 else 0)"
  have b: "unat (of_nat b :: u64) = b" using assms(2) by (simp add: HEAP_LIMIT_def)
  have w: "only_changes b (b + 1) m ?m"
    by (rule only_changes_store8) (simp_all add: b)
  have "load64 ?m (of_nat b + 8) = load64 m (of_nat b + 8)"
    using assms(2) by (intro load64_frame [OF w]) (simp_all add: HEAP_LIMIT_def)
  moreover have "chain ?m (b + 16 + n) bs = chain m (b + 16 + n) bs"
    using assms(2) by (intro chain_frame [OF w]) (simp_all add: HEAP_LIMIT_def)
  ultimately show ?thesis using assms(1) by (simp add: header_def)
qed

lemma claim_effect:
  assumes hdr: "header (mem s) (unat a) (False, k)" and le: "unat sz \<le> k"
    and room: "unat a + 16 + k \<le> HEAP_LIMIT"
    and z: "\<And>t. alloc_size t a = of_nat (if k - unat sz > 16 then unat sz else k) \<Longrightarrow>
      unat sz \<le> unat (z t) \<and> unat (z t) \<le> (if k - unat sz > 16 then unat sz else k)"
  defines "s' \<equiv> claim_block a sz z s" and "n' \<equiv> (if k - unat sz > 16 then unat sz else k)"
  shows "s' = s\<lparr>mem := mem s', memory_used := memory_used s + of_nat (16 + n')\<rparr>"
    and "only_changes (unat a) (unat a + 16 + k) (mem s) (mem s')"
    and "chain (mem s') (unat a) (carve (unat sz) k)"
    and "\<And>x. x \<in> region (a + 16) (unat sz) \<Longrightarrow> mem s' x = 0"
proof -
  define s1 where "s1 = split_block a sz s"
  define s2 where "s2 = set_status a 1 s1"
  define rest where "rest = (if k - unat sz > 16 then [(False, k - unat sz - 16)] else [])"
  have carve: "carve (unat sz) k = (True, n') # rest"
    by (simp add: carve_def n'_def rest_def)
  have s1: "s1 = s\<lparr>mem := mem s1\<rparr>" "only_changes (unat a) (unat a + 16 + k) (mem s) (mem s1)"
    "chain (mem s1) (unat a) ((False, n') # rest)"
  proof (atomize (full), cases "k - unat sz > 16")
    case True
    with split_block_effect [OF hdr True room] only_changes_mono [of "unat a + 8" "unat a + 16 + k"]
    show "s1 = s\<lparr>mem := mem s1\<rparr> \<and> only_changes (unat a) (unat a + 16 + k) (mem s) (mem s1)
        \<and> chain (mem s1) (unat a) ((False, n') # rest)"
      by (simp add: s1_def n'_def rest_def)
  next
    case False
    with split_block_cond [OF hdr le] room have "s1 = s"
      by (simp add: s1_def split_block_def HEAP_LIMIT_def)
    with False hdr show "s1 = s\<lparr>mem := mem s1\<rparr> \<and> only_changes (unat a) (unat a + 16 + k) (mem s) (mem s1)
        \<and> chain (mem s1) (unat a) ((False, n') # rest)"
      by (simp add: n'_def rest_def)
  qed
  have span: "16 + n' + span rest = 16 + k" and n': "n' \<le> k"
    using le by (auto simp: n'_def rest_def)
  have "chain (mem s2) (unat a) ((True, n') # rest)"
    using set_status_chain [OF s1(3), of True] room span
    by (simp add: s2_def set_status_def)
  then have c2: "chain (mem s2) (unat a) ((True, n') # rest)"
    and size2: "alloc_size s2 a = of_nat n'"
    using header_read(2) [of s2 a True n'] by simp_all
  define s3 where "s3 = s2\<lparr>memory_used := memory_used s2 + (alloc_size s2 a + sizeof_alloc_t)\<rparr>"
  have s': "s' = heap_memset (a + 16) (z s3) s3"
    by (simp add: s'_def claim_block_def s1_def s2_def s3_def Let_def sizeof_alloc_t_def)
  have size3: "alloc_size s3 a = of_nat n'"
    using size2 by (simp add: s3_def alloc_size_def)
  from z [of s3] size3 have zn: "unat sz \<le> unat (z s3)" "unat (z s3) \<le> n'"
    by (simp_all add: n'_def)
  have a16: "unat (a + 16) = unat a + 16"
    using room by (simp add: unat_word_ariths HEAP_LIMIT_def)
  have w4: "only_changes (unat a + 16) (unat a + 16 + n') (mem s2) (mem s')"
    unfolding s' heap_memset_def using zn(2) a16 room n'
    by (auto simp: s3_def HEAP_LIMIT_def intro!: confined)
  have w2: "only_changes (unat a) (unat a + 16 + k) (mem s1) (mem s2)"
    using room by (auto simp: s2_def set_status_def intro!: confined)
  have w4': "only_changes (unat a) (unat a + 16 + k) (mem s2) (mem s')"
    using only_changes_mono [OF w4] n' by simp
  show "only_changes (unat a) (unat a + 16 + k) (mem s) (mem s')"
    by (rule only_changes_trans [OF s1(2) only_changes_trans [OF w2 w4']])
  have "memory_used s1 = memory_used s" by (subst s1(1)) simp
  then show "s' = s\<lparr>mem := mem s', memory_used := memory_used s + of_nat (16 + n')\<rparr>"
    unfolding s' heap_memset_def s3_def s2_def set_status_def
    using size2 by (subst s1(1)) (simp add: s2_def set_status_def sizeof_alloc_t_def add.commute)
  have "header (mem s') (unat a) (True, n')"
    using c2 room n' header_frame [OF w4, of "unat a"] by (simp add: HEAP_LIMIT_def)
  moreover have "chain (mem s') (unat a + 16 + n') rest"
    using c2 room span chain_frame [OF w4, of "unat a + 16 + n'" rest] by (simp add: HEAP_LIMIT_def)
  ultimately show "chain (mem s') (unat a) (carve (unat sz) k)"
    by (simp add: carve)
  show "mem s' x = 0" if "x \<in> region (a + 16) (unat sz)" for x
    using that zn(1) region_mono [OF zn(1), of "a + 16"]
    by (auto simp: s' heap_memset_def)
qed

section \<open>Successful allocation\<close>

text \<open>
  \<open>allocated s n p s'\<close>: between \<open>s\<close> and \<open>s'\<close> a block of at least \<open>n\<close> zeroed bytes
  appeared at \<open>p\<close>; every block that was owned keeps its owner, its contents and lies
  apart from the new one; nothing outside the heap changed.
\<close>

definition allocated :: "'a heap_scheme \<Rightarrow> nat \<Rightarrow> u64 \<Rightarrow> 'a heap_scheme \<Rightarrow> bool" where
  "allocated s n p s' \<longleftrightarrow>
     (\<exists>k\<ge>n. owns s' p k \<and> (\<forall>q j. owns s q j \<longrightarrow> keeps s s' q j \<and> (unat q + j \<le> unat p \<or> unat p + k \<le> unat q)))
     \<and> (\<forall>x \<in> region p n. mem s' x = 0)
     \<and> s' = s\<lparr>mem := mem s', last_alloc := last_alloc s', memory_used := memory_used s'\<rparr>
     \<and> only_changes (unat (heap_beginning s)) (unat (heap_end s)) (mem s) (mem s')"

lemma used_bytes_of_nat:
  assumes "unat (mu :: u64) = x" and "x + y < 18446744073709551616"
  shows "unat (mu + of_nat y) = x + y"
  using assms by (subst unat_plus_no_wrap) simp_all

lemma update_last_alloc_same:
  "s\<lparr>mem := m, last_alloc := last_alloc s, memory_used := u\<rparr> = s\<lparr>mem := m, memory_used := u\<rparr>"
  by (cases s) simp

lemma claim_allocated:
  fixes s :: "'a heap_scheme"
  assumes rel: "heap_rel s (xs @ (False, k) # ys)" and le: "unat sz \<le> k"
    and sz: "0 < unat sz" "16 dvd unat sz"
    and a: "unat a = unat (heap_beginning s) + span xs"
    and z: "\<And>t. alloc_size t a = of_nat (if k - unat sz > 16 then unat sz else k) \<Longrightarrow>
      unat sz \<le> unat (z t) \<and> unat (z t) \<le> (if k - unat sz > 16 then unat sz else k)"
  defines "s' \<equiv> claim_block a sz z s"
  shows "heap_rel s' (xs @ carve (unat sz) k @ ys)" and "allocated s (unat sz) (a + 16) s'"
proof -
  let ?n' = "if k - unat sz > 16 then unat sz else k"
  have hdr: "header (mem s) (unat a) (False, k)" and room: "unat a + 16 + k \<le> HEAP_LIMIT"
    and k: "16 dvd k" and inside: "unat a + 16 + k \<le> unat (heap_end s)"
    using rel a by (auto simp: heap_rel_def)
  note eff = claim_effect [where z = z, OF hdr le room z, folded s'_def]
  have eqs: "heap_beginning s' = heap_beginning s" "heap_end s' = heap_end s"
    "last_alloc s' = last_alloc s" "memory_used s' = memory_used s + of_nat (16 + ?n')"
    using arg_cong [OF eff(1), of heap_beginning] arg_cong [OF eff(1), of heap_end]
      arg_cong [OF eff(1), of last_alloc] arg_cong [OF eff(1), of memory_used] by simp_all
  have "unat (memory_used s + of_nat (16 + ?n')) = used_bytes (xs @ (False, k) # ys) + (16 + ?n')"
    using rel le used_bytes_le_span [of "xs @ carve (unat sz) k @ ys"]
    by (intro used_bytes_of_nat) (auto simp: heap_rel_def HEAP_LIMIT_def used_bytes_carve)
  then have mu: "unat (memory_used s') = used_bytes (xs @ carve (unat sz) k @ ys)"
    using le by (simp add: eqs(4) used_bytes_carve del: of_nat_add)
  have rel0: "heap_rel s (xs @ [(False, k)] @ ys)" using rel by simp
  have w: "only_changes (unat (heap_beginning s) + span xs)
      (unat (heap_beginning s) + span xs + span (carve (unat sz) k)) (mem s) (mem s')"
    using eff(2) a le by (simp add: add.assoc)
  show rel': "heap_rel s' (xs @ carve (unat sz) k @ ys)"
    by (rule segment_rel [OF rel0 eqs(1,2) _ _ _ w])
      (use rel eff(3) le sz k mu in
        \<open>simp_all add: heap_rel_def eqs a well_sized_carve add.assoc\<close>)
  have a16: "unat (a + 16) = unat a + 16"
    using room by (simp add: unat_word_ariths HEAP_LIMIT_def)
  obtain rest where carve: "carve (unat sz) k = (True, ?n') # rest"
    by (cases "k - unat sz > 16") (simp_all add: carve_def)
  have own: "owns s' (a + 16) ?n'"
    using rel' by (intro ownsI [of s' xs _ "rest @ ys"]) (simp_all add: carve eqs a16 a)
  have keep: "keeps s s' q j \<and> (unat q + j \<le> unat (a + 16) \<or> unat (a + 16) + ?n' \<le> unat q)"
    if q: "owns s q j" for q j
  proof -
    have "unat q < unat a \<or> unat a + (16 + k) \<le> unat q"
      using owns_outside_segment [OF rel0 _ q] a by (simp add: add.assoc)
    then show ?thesis
      using segment_keeps [OF rel0 rel' eqs(1) w _ q] le by (auto simp: a a16)
  qed
  have glob: "only_changes (unat (heap_beginning s)) (unat (heap_end s)) (mem s) (mem s')"
    using eff(2) by (rule only_changes_mono) (use a inside in simp_all)
  show "allocated s (unat sz) (a + 16) s'"
    unfolding allocated_def
  proof (intro conjI exI [of _ ?n'])
    show "s' = s\<lparr>mem := mem s', last_alloc := last_alloc s', memory_used := memory_used s'\<rparr>"
      using eff(1) by (simp only: eqs update_last_alloc_same)
  qed (use own keep eff(4) glob le in auto)
qed

lemma new_block_allocated:
  fixes s :: "'a heap_scheme"
  assumes rel: "heap_rel s bs" and sz: "0 < unat sz" "16 dvd unat sz" "unat sz \<le> 2147483632"
    and fits: "\<not> last_alloc s + sz + sizeof_alloc_t \<ge> heap_end s"
  obtains s' where "new_block sz (last_alloc s) s = (last_alloc s + 16, s')"
    and "heap_rel s' (bs @ [(True, unat sz)])" and "allocated s (unat sz) (last_alloc s + 16) s'"
proof -
  let ?a = "last_alloc s" and ?hb = "unat (heap_beginning s)"
  define m1 where "m1 = store64 (store8 (mem s) ?a 1) (?a + 8) sz"
  define s' where "s' = s\<lparr>mem := memset m1 (?a + 16) 0 sz, last_alloc := ?a + (sz + 16),
    memory_used := memory_used s + (sz + 16)\<rparr>"
  have res: "new_block sz ?a s = (?a + 16, s')"
    using fits by (simp add: new_block_def Let_def set_size_def set_status_def heap_memset_def
        sizeof_alloc_t_def s'_def m1_def)
  have a: "unat ?a = ?hb + span bs" and lim: "unat ?a \<le> HEAP_LIMIT"
    using rel by (simp_all add: heap_rel_def)
  have sum: "unat (?a + sz + 16) = unat ?a + unat sz + 16"
    using lim sz(3) by (simp add: unat_word_ariths HEAP_LIMIT_def)
  then have inside: "unat ?a + 16 + unat sz < unat (heap_end s)"
    and room: "unat ?a + 16 + unat sz < HEAP_LIMIT"
    using fits rel by (simp_all add: word_le_nat_alt not_le heap_rel_def sizeof_alloc_t_def)
  have at: "unat (?a + 8) = unat ?a + 8" "unat (?a + 16) = unat ?a + 16"
    using lim by (simp_all add: unat_word_ariths HEAP_LIMIT_def)
  have w1: "only_changes (unat ?a) (unat ?a + 16) (mem s) m1"
    unfolding m1_def using at room
    by (intro only_changes_trans [OF only_changes_store8 only_changes_store64])
      (simp_all add: HEAP_LIMIT_def)
  have w2: "only_changes (unat ?a + 16) (unat ?a + 16 + unat sz) m1 (mem s')"
    using at room by (auto simp: s'_def HEAP_LIMIT_def intro!: confined)
  have w: "only_changes (?hb + span bs) (?hb + span bs + span [(True, unat sz)]) (mem s) (mem s')"
    using only_changes_trans [OF only_changes_mono [OF w1] only_changes_mono [OF w2]]
    by (simp add: a)
  have "m1 ?a = 1"
    using at room by (simp add: m1_def store64_other region_interval HEAP_LIMIT_def)
  then have "header m1 (unat ?a) (True, unat sz)"
    by (simp add: header_def) (simp add: m1_def)
  then have new: "chain (mem s') (unat ?a) [(True, unat sz)]"
    using header_frame [OF w2, of "unat ?a"] room by (simp add: HEAP_LIMIT_def)
  have "unat (memory_used s + of_nat (unat sz + 16)) = used_bytes bs + (unat sz + 16)"
    using rel room used_bytes_le_span [of bs]
    by (intro used_bytes_of_nat) (auto simp: heap_rel_def HEAP_LIMIT_def)
  then have mu: "unat (memory_used s') = used_bytes (bs @ [(True, unat sz)])"
    by (simp add: s'_def)
  have last: "unat (last_alloc s') = ?hb + span (bs @ [(True, unat sz)])"
    using sum a by (simp add: s'_def add.assoc)
  have rel0: "heap_rel s (bs @ [] @ [])" using rel by simp
  have rel': "heap_rel s' (bs @ [(True, unat sz)] @ [])"
    by (rule segment_rel [OF rel0 _ _ _ _ _ w])
      (use last inside new mu sz a in \<open>simp_all add: s'_def\<close>)
  have own: "owns s' (?a + 16) (unat sz)"
    using rel' by (intro ownsI [of s' bs _ "[]"]) (simp_all add: at a s'_def)
  have keep: "keeps s s' q j \<and> (unat q + j \<le> unat (?a + 16) \<or> unat (?a + 16) + unat sz \<le> unat q)"
    if q: "owns s q j" for q j
    using segment_keeps [OF rel0 rel' _ w _ q] owns_outside_segment [OF rel0 _ q]
    by (auto simp: at a s'_def)
  have glob: "only_changes ?hb (unat (heap_end s)) (mem s) (mem s')"
    using w by (rule only_changes_mono) (use a inside in simp_all)
  have "allocated s (unat sz) (?a + 16) s'"
    unfolding allocated_def
    by (intro conjI exI [of _ "unat sz"]) (use own keep glob in \<open>auto simp: s'_def\<close>)
  with res rel' that show thesis by simp
qed

section \<open>malloc and calloc\<close>

text \<open>The common part of \<open>malloc\<close> and \<open>calloc\<close>, with the number of bytes cleared in a
  reused block as a parameter.\<close>

definition alloc_with :: "(u64 \<Rightarrow> 'a heap_scheme \<Rightarrow> u64) \<Rightarrow> u64 \<Rightarrow> 'a heap_scheme \<Rightarrow>
    (u64 \<times> 'a heap_scheme) option" where
  "alloc_with z sz s =
     (case malloc_scan s sz (heap_beginning s) of
        None \<Rightarrow> None
      | Some (Found a) \<Rightarrow> Some (a + sizeof_alloc_t, claim_block a sz (z a) s)
      | Some (New_alloc a) \<Rightarrow> Some (new_block sz a s))"

lemma heap_rel_nonzero: "heap_rel s bs \<Longrightarrow> heap_beginning s \<noteq> 0"
  by (auto simp: heap_rel_def HEAP_LOW_def)

lemma malloc_alloc_with:
  "sz \<noteq> 0 \<Longrightarrow> heap_beginning s \<noteq> 0 \<Longrightarrow> \<not> sz > MAX_REQUEST \<Longrightarrow>
    malloc sz s = alloc_with (\<lambda>a t. alloc_size t a) (ALIGN_UP sz) s"
  by (simp add: malloc_def alloc_with_def claim_block_def Let_def split: option.split scan.split)

lemma calloc_alloc_with:
  "sz \<noteq> 0 \<Longrightarrow> amount \<noteq> 0 \<Longrightarrow> heap_beginning s \<noteq> 0 \<Longrightarrow> \<not> sz > SIZE_MAX div amount \<Longrightarrow>
    \<not> amount * sz > MAX_REQUEST \<Longrightarrow>
    calloc amount sz s = alloc_with (\<lambda>a t. ALIGN_UP (amount * sz)) (ALIGN_UP (amount * sz)) s"
  by (simp add: calloc_def alloc_with_def claim_block_def Let_def split: option.split scan.split)

lemma alloc_with_refines:
  fixes s :: "'a heap_scheme"
  assumes rel: "heap_rel s bs"
    and sz: "0 < unat sz" "16 dvd unat sz" "unat sz \<le> 2147483632"
    and z: "\<And>a t k. alloc_size t a = of_nat k \<Longrightarrow> unat sz \<le> k \<Longrightarrow> k < 18446744073709551616 \<Longrightarrow>
      unat sz \<le> unat (z a t) \<and> unat (z a t) \<le> k"
  shows "case alloc_blocks (unat (heap_end s) - unat (heap_beginning s)) (unat sz) bs of
      None \<Rightarrow> alloc_with z sz s = Some (0, s)
    | Some (off, bs') \<Rightarrow> \<exists>s'. alloc_with z sz s = Some (heap_beginning s + of_nat off, s')
        \<and> heap_rel s' bs' \<and> allocated s (unat sz) (heap_beginning s + of_nat off) s'"
proof -
  have hb: "heap_beginning s + of_nat (span bs) = last_alloc s"
    using rel by (simp add: word_unat_eq_iff heap_rel_def HEAP_LIMIT_def unat_plus_no_wrap)
  have scan: "malloc_scan s sz (heap_beginning s) = Some (case first_fit (unat sz) bs of
      Some (xs, k, ys) \<Rightarrow> Found (heap_beginning s + of_nat (span xs)) | None \<Rightarrow> New_alloc (last_alloc s))"
    using rel by (intro malloc_scan_chain) (auto simp: heap_rel_def)
  show ?thesis
  proof (cases "first_fit (unat sz) bs")
    case None
    have sum: "unat (last_alloc s + sz + sizeof_alloc_t) = unat (heap_beginning s) + span bs + unat sz + 16"
      using rel sz(3) by (simp add: heap_rel_def unat_word_ariths HEAP_LIMIT_def sizeof_alloc_t_def)
    have full: "last_alloc s + sz + sizeof_alloc_t \<ge> heap_end s \<longleftrightarrow>
        span bs + unat sz + 16 \<ge> unat (heap_end s) - unat (heap_beginning s)"
      using sum by (simp add: word_le_nat_alt) linarith
    show ?thesis
    proof (cases "last_alloc s + sz + sizeof_alloc_t \<ge> heap_end s")
      case True
      with None full show ?thesis by (simp add: alloc_blocks_def alloc_with_def scan new_block_def)
    next
      case False
      obtain s' where "new_block sz (last_alloc s) s = (last_alloc s + 16, s')"
        "heap_rel s' (bs @ [(True, unat sz)])" "allocated s (unat sz) (last_alloc s + 16) s'"
        by (rule new_block_allocated [OF rel sz False])
      with None False full show ?thesis
        by (auto simp: alloc_blocks_def alloc_with_def scan hb [symmetric] add.assoc)
    qed
  next
    case (Some fit)
    then obtain xs k ys where fit: "first_fit (unat sz) bs = Some (xs, k, ys)" by (cases fit) auto
    then have bs: "bs = xs @ (False, k) # ys" and le: "unat sz \<le> k"
      using first_fit_Some by blast+
    let ?a = "heap_beginning s + of_nat (span xs)"
    have a: "unat ?a = unat (heap_beginning s) + span xs" and k: "k < 18446744073709551616"
      using rel by (simp_all add: bs heap_rel_def HEAP_LIMIT_def unat_plus_no_wrap)
    have rel0: "heap_rel s (xs @ (False, k) # ys)" using rel bs by simp
    have "heap_rel (claim_block ?a sz (z ?a) s) (xs @ carve (unat sz) k @ ys)"
      "allocated s (unat sz) (?a + 16) (claim_block ?a sz (z ?a) s)"
      using z [of _ ?a] le k by (intro claim_allocated [OF rel0 le sz(1,2) a]; auto)+
    with fit show ?thesis
      by (auto simp: alloc_blocks_def alloc_with_def scan sizeof_alloc_t_def add.assoc)
  qed
qed

lemma allocated_mono: "allocated s n p s' \<Longrightarrow> n' \<le> n \<Longrightarrow> allocated s n' p s'"
  using region_mono [of n' n p] unfolding allocated_def by (auto intro: order_trans)

lemma allocated_nonzero: "allocated s n p s' \<Longrightarrow> p \<noteq> 0"
  unfolding allocated_def using owns_bounds(5) by blast

text \<open>What the outcome of an allocating call on a good heap is.\<close>

definition alloc_outcome :: "'a heap_scheme \<Rightarrow> nat \<Rightarrow> (u64 \<times> 'a heap_scheme) option \<Rightarrow> bool" where
  "alloc_outcome s n r \<longleftrightarrow> (\<exists>p s'. r = Some (p, s') \<and> heap_inv s'
     \<and> (if p = 0 then s' = s else allocated s n p s'))"

lemma alloc_outcome_null: "heap_inv s \<Longrightarrow> alloc_outcome s n (Some (0, s))"
  by (simp add: alloc_outcome_def)

lemma alloc_with_outcome:
  assumes rel: "heap_rel s bs"
    and sz: "0 < unat sz" "16 dvd unat sz" "unat sz \<le> 2147483632" and n: "n \<le> unat sz"
    and z: "\<And>a t k. alloc_size t a = of_nat k \<Longrightarrow> unat sz \<le> k \<Longrightarrow> k < 18446744073709551616 \<Longrightarrow>
      unat sz \<le> unat (z a t) \<and> unat (z a t) \<le> k"
  shows "alloc_outcome s n (alloc_with z sz s)"
proof (cases "alloc_blocks (unat (heap_end s) - unat (heap_beginning s)) (unat sz) bs")
  case None
  with alloc_with_refines [where z = z, OF rel sz z] rel show ?thesis
    by (auto simp: alloc_outcome_def heap_inv_def)
next
  case (Some r)
  then obtain off bs' where "alloc_blocks (unat (heap_end s) - unat (heap_beginning s)) (unat sz) bs
      = Some (off, bs')"
    by (cases r) auto
  with alloc_with_refines [where z = z, OF rel sz z] obtain s' where
    "alloc_with z sz s = Some (heap_beginning s + of_nat off, s')" "heap_rel s' bs'"
    and "allocated s (unat sz) (heap_beginning s + of_nat off) s'"
    by auto
  then show ?thesis
    using allocated_mono [OF _ n] allocated_nonzero [of s]
    by (fastforce simp: alloc_outcome_def heap_inv_def)
qed

lemma malloc_outcome:
  assumes "heap_inv s"
  shows "alloc_outcome s (unat sz) (malloc sz s)"
proof (cases "sz = 0 \<or> sz > MAX_REQUEST")
  case True
  with alloc_outcome_null [OF assms] show ?thesis
    by (auto simp: malloc_def)
next
  case False
  then have req: "sz \<noteq> 0" "\<not> sz > MAX_REQUEST" by auto
  from assms obtain bs where rel: "heap_rel s bs" by (auto simp: heap_inv_def)
  show ?thesis
    using alloc_with_outcome [OF rel, of "ALIGN_UP sz" "unat sz" "\<lambda>a t. alloc_size t a"]
      ALIGN_UP_request [OF req]
    by (simp add: malloc_alloc_with [OF req(1) heap_rel_nonzero [OF rel] req(2)])
qed

lemma product_fits:
  fixes amount sz :: u64
  assumes "amount \<noteq> 0" and "\<not> sz > SIZE_MAX div amount"
  shows "unat (amount * sz) = unat amount * unat sz"
proof -
  have "unat sz \<le> 18446744073709551615 div unat amount"
    using assms(2) by (simp add: not_less word_le_nat_alt SIZE_MAX_def unat_div_distrib
        unsigned_minus_1_eq_mask mask_eq_exp_minus_1)
  then have "unat amount * unat sz \<le> 18446744073709551615"
    using assms(1) mult_le_mono2 [of "unat sz" _ "unat amount"]
      times_div_less_eq_dividend [of "unat amount" 18446744073709551615]
    by (meson order_trans)
  then show ?thesis by (simp add: unat_word_ariths)
qed

lemma calloc_outcome:
  assumes "heap_inv s"
  shows "alloc_outcome s (unat amount * unat sz) (calloc amount sz s)"
proof (cases "sz = 0 \<or> amount = 0 \<or> sz > SIZE_MAX div amount \<or> amount * sz > MAX_REQUEST")
  case True
  with alloc_outcome_null [OF assms] show ?thesis
    by (auto simp: calloc_def)
next
  case False
  then have req: "sz \<noteq> 0" "amount \<noteq> 0" "\<not> sz > SIZE_MAX div amount" "\<not> amount * sz > MAX_REQUEST"
    by auto
  note prod = product_fits [OF req(2,3)]
  then have "amount * sz \<noteq> 0"
    using req(1,2) by (metis mult_eq_0_iff unsigned_eq_0_iff)
  note total = ALIGN_UP_request [OF this req(4)]
  from assms obtain bs where rel: "heap_rel s bs" by (auto simp: heap_inv_def)
  show ?thesis
    using alloc_with_outcome [OF rel, of "ALIGN_UP (amount * sz)" "unat amount * unat sz"
        "\<lambda>a t. ALIGN_UP (amount * sz)"] total
    by (simp add: calloc_alloc_with [OF req(1,2) heap_rel_nonzero [OF rel] req(3,4)] prod)
qed

end
