(* ===== verification/Heap_Free.thy ===== *)
theory Heap_Free
  imports Heap_Alloc
begin

text \<open>
  \<open>free\<close> and \<open>realloc\<close> on the abstract block list: freeing finds the predecessor in
  a good heap, merges with free neighbours, clears the merged payload and leaves every other
  block alone; \<open>realloc\<close> shrinks in place or moves the contents.
\<close>

section \<open>Finding the predecessor\<close>

lemma find_before_loop_chain:
  assumes "chain (mem s) (unat cur) (x # zs)" and "unat a = unat cur + span (x # zs)"
    and "unat a \<le> HEAP_LIMIT" and "nxt = cur + 16 + of_nat (snd x)"
  shows "find_before_loop s a cur nxt = Some (cur + of_nat (span (butlast (x # zs))))"
  using assms
proof (induction zs arbitrary: x cur nxt)
  case Nil
  have "unat nxt = unat a"
    using Nil.prems by (cases x) (simp add: unat_word_ariths HEAP_LIMIT_def)
  then have "nxt = a" by (simp add: word_unat_eq_iff)
  then show ?case by (simp add: find_before_loop.simps)
next
  case (Cons z zs)
  obtain u n where x: "x = (u, n)" by force
  obtain v k where z: "z = (v, k)" by force
  have nxt: "unat nxt = unat cur + 16 + n"
    using Cons.prems by (simp add: x unat_word_ariths HEAP_LIMIT_def)
  have ne: "nxt \<noteq> a"
    using nxt Cons.prems(2) by (auto simp: x z)
  have chain: "chain (mem s) (unat nxt) (z # zs)"
    using Cons.prems(1) by (simp add: nxt x)
  then have "alloc_size s nxt = of_nat k"
    using header_read(2) [of s nxt v k] by (simp add: z)
  then have "find_before_loop s a nxt (nxt + sizeof_alloc_t + alloc_size s nxt)
      = Some (nxt + of_nat (span (butlast (z # zs))))"
    using chain Cons.prems(2,3) by (intro Cons.IH) (simp_all add: nxt x z sizeof_alloc_t_def)
  with ne show ?case
    using Cons.prems(4) by (subst find_before_loop.simps) (simp add: x z algebra_simps)
qed

lemma find_before_chain:
  assumes "chain (mem s) (unat (heap_beginning s)) xs"
    and "unat a = unat (heap_beginning s) + span xs" and "unat a \<le> HEAP_LIMIT"
  shows "find_before s a = Some (if xs = [] then 0 else heap_beginning s + of_nat (span (butlast xs)))"
proof (cases xs)
  case Nil
  then have "heap_beginning s = a" using assms(2) by (simp add: word_unat_eq_iff)
  with Nil show ?thesis by (simp add: find_before_def Let_def)
next
  case (Cons x zs)
  obtain u n where x: "x = (u, n)" by force
  have "heap_beginning s \<noteq> a" using assms(2) Cons x by auto
  moreover have "alloc_size s (heap_beginning s) = of_nat n"
    using header_read(2) [of s "heap_beginning s" u n] assms(1) Cons x by simp
  ultimately show ?thesis
    using find_before_loop_chain [of s "heap_beginning s" x zs a] assms Cons
    by (simp add: find_before_def Let_def sizeof_alloc_t_def x)
qed

section \<open>The segment a free merges\<close>

text \<open>
  The free neighbours of the freed block: \<open>pre\<close> (the predecessor if it is free) and
  \<open>post\<close> (the successor if it is free).
\<close>

definition free_pre :: "block list \<Rightarrow> block list" where
  "free_pre xs = (if xs \<noteq> [] \<and> \<not> fst (last xs) then [last xs] else [])"

definition free_post :: "block list \<Rightarrow> block list" where
  "free_post ys = (if ys \<noteq> [] \<and> \<not> fst (hd ys) then [hd ys] else [])"

definition rest_pre :: "block list \<Rightarrow> block list" where
  "rest_pre xs = (if xs \<noteq> [] \<and> \<not> fst (last xs) then butlast xs else xs)"

definition rest_post :: "block list \<Rightarrow> block list" where
  "rest_post ys = (if ys \<noteq> [] \<and> \<not> fst (hd ys) then tl ys else ys)"

lemma rest_pre_append: "rest_pre xs @ free_pre xs = xs"
  by (auto simp: rest_pre_def free_pre_def)

lemma free_post_append: "free_post ys @ rest_post ys = ys"
  by (cases ys) (auto simp: rest_post_def free_post_def)

lemma free_pre_post_free: "b \<in> set (free_pre xs) \<union> set (free_post ys) \<Longrightarrow> \<not> fst b"
  by (auto simp: free_pre_def free_post_def split: if_splits)

lemma used_bytes_free: "(\<And>b. b \<in> set bs \<Longrightarrow> \<not> fst b) \<Longrightarrow> used_bytes bs = 0"
  by (induction bs rule: used_bytes.induct) force+

lemma free_blocks_segment:
  "free_blocks xs n ys
    = rest_pre xs @ (False, span (free_pre xs) + n + span (free_post ys)) # rest_post ys"
proof -
  have "merge_next n ys = (n + span (free_post ys), rest_post ys)"
    by (cases ys) (auto simp: merge_next_def free_post_def rest_post_def split: bool.split)
  moreover have "span [b] = 16 + snd b" for b by (cases b) simp
  ultimately show ?thesis
    by (auto simp: free_blocks_def rest_pre_def free_pre_def)
qed

lemma span_pre: "span xs = span (rest_pre xs) + span (free_pre xs)"
  by (metis rest_pre_append span_append)

lemma span_post: "span ys = span (free_post ys) + span (rest_post ys)"
  by (metis free_post_append span_append)

section \<open>The steps of a free\<close>

lemma set_size_header:
  assumes "header (mem s) (unat a) (u, n)" and "unat a + 16 \<le> HEAP_LIMIT"
  shows "header (mem (set_size a (of_nat k) s)) (unat a) (u, k)"
    and "only_changes (unat a + 8) (unat a + 16) (mem s) (mem (set_size a (of_nat k) s))"
proof -
  have a8: "unat (a + 8) = unat a + 8"
    using assms(2) by (simp add: unat_word_ariths HEAP_LIMIT_def)
  show w: "only_changes (unat a + 8) (unat a + 16) (mem s) (mem (set_size a (of_nat k) s))"
    using assms(2) by (auto simp: set_size_def a8 HEAP_LIMIT_def intro!: confined)
  have "mem (set_size a (of_nat k) s) a = mem s a"
    by (rule only_changesD [OF w]) simp
  with assms(1) show "header (mem (set_size a (of_nat k) s)) (unat a) (u, k)"
    by (simp add: header_def set_size_def)
qed

text \<open>Absorbing a free successor.\<close>

definition absorb_next :: "u64 \<Rightarrow> u64 \<Rightarrow> 'a heap_scheme \<Rightarrow> 'a heap_scheme" where
  "absorb_next alloc nxt s =
     (if nxt < last_alloc s \<and> alloc_status s nxt = 0
      then set_size alloc (alloc_size s alloc + (sizeof_alloc_t + alloc_size s nxt)) s else s)"

lemma absorb_next_effect:
  assumes chain: "chain (mem s) (unat a) ((False, n) # ys)"
    and last: "unat (last_alloc s) = unat a + 16 + n + span ys"
    and limit: "unat (last_alloc s) \<le> HEAP_LIMIT" and nxt: "unat nxt = unat a + 16 + n"
  defines "s' \<equiv> absorb_next a nxt s"
  shows "header (mem s') (unat a) (False, n + span (free_post ys))"
    and "only_changes (unat a) (unat a + 16) (mem s) (mem s')" and "s' = s\<lparr>mem := mem s'\<rparr>"
proof -
  show "s' = s\<lparr>mem := mem s'\<rparr>" by (simp add: s'_def absorb_next_def set_size_def)
  have hdr: "header (mem s) (unat a) (False, n)" using chain by simp
  have size: "alloc_size s a = of_nat n" using header_read(2) [OF hdr] .
  have in_heap: "nxt < last_alloc s \<longleftrightarrow> ys \<noteq> []"
    using last nxt by (cases ys rule: span.cases) (auto simp: word_less_nat_alt)
  consider (none) "free_post ys = []" "s' = s"
    | (merge) k zs where "ys = (False, k) # zs" "s' = set_size a (of_nat (n + 16 + k)) s"
  proof (cases ys rule: span.cases)
    case 1
    with none in_heap show thesis by (simp add: s'_def absorb_next_def free_post_def)
  next
    case (2 u k zs)
    then have "alloc_status s nxt = (if u then 1 else 0)" and "alloc_size s nxt = of_nat k"
      using header_read [of s nxt u k] chain by (simp_all add: nxt)
    with 2 none merge in_heap size show thesis
      by (cases u) (simp_all add: s'_def absorb_next_def free_post_def sizeof_alloc_t_def add.assoc)
  qed
  then have "header (mem s') (unat a) (False, n + span (free_post ys))
      \<and> only_changes (unat a) (unat a + 16) (mem s) (mem s')"
  proof cases
    case none
    with hdr show ?thesis by simp
  next
    case merge
    then have room: "unat a + 16 \<le> HEAP_LIMIT" using last limit by simp
    show ?thesis
      using set_size_header [OF hdr room, of "n + 16 + k"] only_changes_mono [of "unat a + 8" "unat a + 16"]
      unfolding merge by (simp add: free_post_def add.assoc del: of_nat_add)
  qed
  then show "header (mem s') (unat a) (False, n + span (free_post ys))"
    and "only_changes (unat a) (unat a + 16) (mem s) (mem s')" by auto
qed

text \<open>Absorption into a free predecessor.\<close>

definition absorb_into :: "u64 \<Rightarrow> u64 \<Rightarrow> 'a heap_scheme \<Rightarrow> u64 \<times> 'a heap_scheme" where
  "absorb_into before alloc s =
     (if before \<noteq> 0 \<and> alloc_status s before = 0
      then (before, set_size before (alloc_size s before + (sizeof_alloc_t + alloc_size s alloc)) s)
      else (alloc, s))"

lemma absorb_into_effect:
  assumes xs: "chain (mem s) (unat (heap_beginning s)) xs" and low: "0 < unat (heap_beginning s)"
    and hdr: "header (mem s) (unat a) (False, n)"
    and a: "unat a = unat (heap_beginning s) + span xs" and room: "unat a + 16 + n \<le> HEAP_LIMIT"
    and before: "before = (if xs = [] then 0 else heap_beginning s + of_nat (span (butlast xs)))"
  obtains a' s' where "absorb_into before a s = (a', s')" and "s' = s\<lparr>mem := mem s'\<rparr>"
    and "unat a' = unat (heap_beginning s) + span (rest_pre xs)"
    and "header (mem s') (unat a') (False, span (free_pre xs) + n)"
    and "only_changes (unat a') (unat a' + 16) (mem s) (mem s')"
proof (cases "xs \<noteq> [] \<and> \<not> fst (last xs)")
  case True
  then obtain k where last: "last xs = (False, k)" by (cases "last xs") auto
  define b where "b = heap_beginning s + of_nat (span (butlast xs))"
  have xs_eq: "xs = butlast xs @ [(False, k)]" using True last by (metis append_butlast_last_id)
  then have "span xs = span (butlast xs) + 16 + k" by (metis span.simps add.assoc add_0_right span_append)
  then have ub: "unat b = unat (heap_beginning s) + span (butlast xs)"
    and ab: "unat a = unat b + 16 + k"
    using a room by (simp_all add: b_def HEAP_LIMIT_def unat_plus_no_wrap)
  have bh: "header (mem s) (unat b) (False, k)"
    using xs by (subst (asm) xs_eq) (simp add: ub)
  have "b \<noteq> 0" using ub low by auto
  then have "absorb_into before a s = (b, set_size b (of_nat (k + (16 + n))) s)"
    using header_read [OF bh] header_read [OF hdr] True before
    by (simp add: absorb_into_def b_def sizeof_alloc_t_def)
  moreover note set_size_header [OF bh, of "k + (16 + n)"]
  ultimately show thesis
    using that [of b "set_size b (of_nat (k + (16 + n))) s"] True last ub ab room
      only_changes_mono [of "unat b + 8" "unat b + 16"]
    by (simp add: rest_pre_def free_pre_def set_size_def add_ac)
next
  case False
  then have "absorb_into before a s = (a, s)"
  proof (cases "xs = []")
    case False
    with \<open>\<not> (xs \<noteq> [] \<and> \<not> fst (last xs))\<close> obtain k where last: "last xs = (True, k)"
      by (cases "last xs") auto
    have xs_eq: "xs = butlast xs @ [(True, k)]" using False last by (metis append_butlast_last_id)
    then have "span xs = span (butlast xs) + 16 + k" by (metis span.simps add.assoc add_0_right span_append)
    then have ub: "unat before = unat (heap_beginning s) + span (butlast xs)"
      using a room False by (simp add: before HEAP_LIMIT_def unat_plus_no_wrap)
    have "header (mem s) (unat before) (True, k)"
      using xs by (subst (asm) xs_eq) (simp add: ub)
    then show ?thesis using header_read(1) by (fastforce simp: absorb_into_def)
  qed (simp add: absorb_into_def before)
  moreover have "rest_pre xs = xs" "free_pre xs = []"
    using False by (auto simp: rest_pre_def free_pre_def)
  ultimately show thesis using hdr a that [of a s] by simp
qed

text \<open>The first half of a free: the block is marked and uncounted.\<close>

definition release :: "u64 \<Rightarrow> 'a heap_scheme \<Rightarrow> 'a heap_scheme" where
  "release a s =
     (let s1 = set_status a 0 s
      in s1\<lparr>memory_used := memory_used s1 - (sizeof_alloc_t + alloc_size s1 a)\<rparr>)"

lemma free_unfold:
  "p \<noteq> 0 \<Longrightarrow> alloc_status s (p - sizeof_alloc_t) \<noteq> 0 \<Longrightarrow>
    free p s =
      (let a = p - sizeof_alloc_t; s2 = release a s
       in case find_before s2 a of
            None \<Rightarrow> None
          | Some before \<Rightarrow>
              let (a', s4) = absorb_into before a (absorb_next a (p + alloc_size s2 a) s2)
              in Some (heap_memset (a' + sizeof_alloc_t) (alloc_size s4 a') s4))"
  unfolding free_def absorb_next_def absorb_into_def release_def Let_def by simp

lemma release_effect:
  assumes rel: "heap_rel s (xs @ (True, n) # ys)"
    and a: "unat a = unat (heap_beginning s) + span xs"
  defines "s2 \<equiv> release a s"
  shows "s2 = s\<lparr>mem := mem s2, memory_used := memory_used s - of_nat (16 + n)\<rparr>"
    and "alloc_size s2 a = of_nat n"
    and "only_changes (unat a) (unat a + 16) (mem s) (mem s2)"
    and "chain (mem s2) (unat a) ((False, n) # ys)"
    and "chain (mem s2) (unat (heap_beginning s)) xs"
proof -
  have lim: "unat (heap_beginning s) + span (xs @ (True, n) # ys) \<le> HEAP_LIMIT"
    using rel by (simp add: heap_rel_def)
  then have lim': "unat a + span ((True, n) # ys) \<le> HEAP_LIMIT" by (simp add: a)
  have chain: "chain (mem s) (unat (heap_beginning s)) xs" "chain (mem s) (unat a) ((True, n) # ys)"
    using rel by (simp_all add: heap_rel_def a)
  have m2: "mem s2 = store8 (mem s) a 0"
    by (simp add: s2_def release_def set_status_def Let_def)
  show w: "only_changes (unat a) (unat a + 16) (mem s) (mem s2)"
    unfolding m2 by (auto intro!: confined)
  show c: "chain (mem s2) (unat a) ((False, n) # ys)"
    using set_status_chain [OF chain(2) lim', of False] by (simp add: m2 del: chain.simps)
  then show size2: "alloc_size s2 a = of_nat n"
    using header_read(2) [of s2 a False n] by simp
  show "chain (mem s2) (unat (heap_beginning s)) xs"
    using chain_frame [OF w, of "unat (heap_beginning s)" xs] chain(1) lim a by (simp add: HEAP_LIMIT_def)
  show "s2 = s\<lparr>mem := mem s2, memory_used := memory_used s - of_nat (16 + n)\<rparr>"
    using size2 by (simp add: s2_def release_def set_status_def Let_def alloc_size_def sizeof_alloc_t_def)
qed

section \<open>free\<close>

text \<open>
  The memory after a free of the block between \<open>xs\<close> and \<open>ys\<close>: one free block in
  place of the freed one and its free neighbours, before its payload is cleared.
\<close>

lemma free_merge:
  fixes s :: "'a heap_scheme"
  assumes rel: "heap_rel s (xs @ (True, n) # ys)"
    and p: "unat p = unat (heap_beginning s) + span xs + 16"
  defines "tot \<equiv> span (free_pre xs) + n + span (free_post ys)"
    and "b \<equiv> unat (heap_beginning s) + span (rest_pre xs)"
  obtains a s4 where "unat a = b"
    and "free p s = Some (heap_memset (a + sizeof_alloc_t) (alloc_size s4 a) s4)"
    and "s4 = s\<lparr>mem := mem s4, memory_used := memory_used s - of_nat (16 + n)\<rparr>"
    and "header (mem s4) b (False, tot)" and "only_changes b (b + 16 + tot) (mem s) (mem s4)"
proof -
  let ?hb = "unat (heap_beginning s)" and ?n = "n + span (free_post ys)"
  define a where "a = p - sizeof_alloc_t"
  have lim: "?hb + span (xs @ (True, n) # ys) \<le> HEAP_LIMIT" and low: "0 < ?hb"
    using rel by (auto simp: heap_rel_def HEAP_LOW_def)
  have a: "unat a = ?hb + span xs" and pa: "p = a + 16"
    using p by (simp_all add: a_def sizeof_alloc_t_def unat_minus_le word_le_nat_alt)
  have "alloc_status s a = 1"
    using header_read [of s a True n] rel by (simp add: heap_rel_def a)
  moreover define s2 where "s2 = release a s"
  note s2 = release_effect [OF rel a, folded s2_def]
  have eqs: "heap_beginning s2 = heap_beginning s" "last_alloc s2 = last_alloc s"
    using arg_cong [OF s2(1), of heap_beginning] arg_cong [OF s2(1), of last_alloc] by simp_all
  define before where "before = (if xs = [] then 0 else heap_beginning s + of_nat (span (butlast xs)))"
  have fb: "find_before s2 a = Some before"
    unfolding before_def using find_before_chain [of s2 xs a] s2(5) a lim by (simp add: eqs)
  define s3 where "s3 = absorb_next a (p + of_nat n) s2"
  have s3: "header (mem s3) (unat a) (False, ?n)"
    "only_changes (unat a) (unat a + 16) (mem s2) (mem s3)" "s3 = s2\<lparr>mem := mem s3\<rparr>"
    unfolding s3_def
    by (rule absorb_next_effect [where ys = ys]; use rel s2(4) lim a in
        \<open>simp add: eqs heap_rel_def pa unat_word_ariths HEAP_LIMIT_def\<close>)+
  have hb3: "heap_beginning s3 = heap_beginning s"
    by (subst s3(3)) (simp add: eqs)
  have xs3: "chain (mem s3) (unat (heap_beginning s3)) xs"
    using chain_frame [OF s3(2), of ?hb xs] s2(5) lim a by (simp add: HEAP_LIMIT_def hb3)
  have a3: "unat a = unat (heap_beginning s3) + span xs"
    and before3: "before = (if xs = [] then 0 else heap_beginning s3 + of_nat (span (butlast xs)))"
    using a by (simp_all add: hb3 before_def)
  have post: "unat a + 16 + ?n \<le> HEAP_LIMIT"
    using lim a span_post [of ys] by simp
  obtain a' s4 where abs: "absorb_into before a s3 = (a', s4)" and s4: "s4 = s3\<lparr>mem := mem s4\<rparr>"
    and a': "unat a' = unat (heap_beginning s3) + span (rest_pre xs)"
    and hdr4: "header (mem s4) (unat a') (False, span (free_pre xs) + ?n)"
    and w4: "only_changes (unat a') (unat a' + 16) (mem s3) (mem s4)"
    by (rule absorb_into_effect [OF xs3 _ s3(1) a3 post before3]) (use low in \<open>simp_all add: hb3\<close>)
  have ba: "b \<le> unat a" and end_b: "unat a + 16 \<le> b + 16 + tot"
    using a span_pre [of xs] by (simp_all add: b_def tot_def)
  have "only_changes b (b + 16 + tot) (mem s) (mem s3)"
    using only_changes_mono [OF only_changes_trans [OF s2(3) s3(2)] ba end_b] .
  moreover have "only_changes b (b + 16 + tot) (mem s3) (mem s4)"
    using only_changes_mono [OF w4] a' by (simp add: hb3 b_def)
  moreover have "free p s = Some (heap_memset (a' + sizeof_alloc_t) (alloc_size s4 a') s4)"
    using \<open>alloc_status s a = 1\<close> p fb abs
    by (subst free_unfold) (auto simp: a_def [symmetric] Let_def s2_def [symmetric] s2(2) s3_def [symmetric])
  moreover have "s4 = s\<lparr>mem := mem s4, memory_used := memory_used s - of_nat (16 + n)\<rparr>"
    by (subst s4, subst s3(3), subst s2(1)) simp
  ultimately show thesis
    using that [of a' s4] a' hdr4 only_changes_trans
    by (simp add: hb3 b_def tot_def add.assoc)
qed

text \<open>With the payload cleared.\<close>

lemma free_effect:
  fixes s :: "'a heap_scheme"
  assumes rel: "heap_rel s (xs @ (True, n) # ys)"
    and p: "unat p = unat (heap_beginning s) + span xs + 16"
  defines "tot \<equiv> span (free_pre xs) + n + span (free_post ys)"
    and "b \<equiv> unat (heap_beginning s) + span (rest_pre xs)"
  obtains s' where "free p s = Some s'"
    and "s' = s\<lparr>mem := mem s', memory_used := memory_used s - of_nat (16 + n)\<rparr>"
    and "header (mem s') b (False, tot)" and "only_changes b (b + 16 + tot) (mem s) (mem s')"
    and "\<And>x. b + 16 \<le> unat x \<Longrightarrow> unat x < b + 16 + tot \<Longrightarrow> mem s' x = 0"
proof -
  obtain a s4 where a: "unat a = b"
    and res: "free p s = Some (heap_memset (a + sizeof_alloc_t) (alloc_size s4 a) s4)"
    and s4: "s4 = s\<lparr>mem := mem s4, memory_used := memory_used s - of_nat (16 + n)\<rparr>"
    and hdr: "header (mem s4) b (False, tot)" and w: "only_changes b (b + 16 + tot) (mem s) (mem s4)"
    unfolding b_def tot_def by (rule free_merge [OF rel p])
  have lim: "b + 16 + tot \<le> HEAP_LIMIT"
    using rel span_pre [of xs] span_post [of ys] by (simp add: heap_rel_def b_def tot_def)
  have sz: "alloc_size s4 a = of_nat tot"
    using header_read(2) [of s4 a False tot] hdr by (simp add: a)
  have a16: "unat (a + 16) = b + 16" and utot: "unat (of_nat tot :: u64) = tot"
    using a lim by (simp_all add: unat_word_ariths HEAP_LIMIT_def)
  define s' where "s' = s4\<lparr>mem := memset (mem s4) (a + 16) 0 (of_nat tot)\<rparr>"
  have w5: "only_changes (b + 16) (b + 16 + tot) (mem s4) (mem s')"
    using a16 utot lim by (auto simp: s'_def HEAP_LIMIT_def intro!: confined)
  have "header (mem s') b (False, tot)"
    using header_frame [OF w5, of b] hdr lim by (simp add: HEAP_LIMIT_def)
  moreover have "only_changes b (b + 16 + tot) (mem s) (mem s')"
    using only_changes_trans [OF w only_changes_mono [OF w5]] by simp
  moreover have "mem s' x = 0" if "b + 16 \<le> unat x" "unat x < b + 16 + tot" for x
  proof -
    have "x \<in> region (a + 16) (unat (of_nat tot :: u64))"
      using that a16 utot lim by (simp add: region_interval HEAP_LIMIT_def)
    then show ?thesis by (simp add: s'_def)
  qed
  moreover have "s' = s\<lparr>mem := mem s', memory_used := memory_used s - of_nat (16 + n)\<rparr>"
    by (subst (2) s'_def, subst s'_def, subst s4) simp
  moreover have "free p s = Some s'"
    using res by (simp add: s'_def heap_memset_def sz sizeof_alloc_t_def)
  ultimately show thesis using that by blast
qed

text \<open>
  \<open>freed s p n s'\<close>: between \<open>s\<close> and \<open>s'\<close> the block at \<open>p\<close> was given back and its
  \<open>n\<close> bytes cleared; every other owned block is kept and nothing outside the heap changed.
\<close>

definition freed :: "'a heap_scheme \<Rightarrow> u64 \<Rightarrow> nat \<Rightarrow> 'a heap_scheme \<Rightarrow> bool" where
  "freed s p n s' \<longleftrightarrow> heap_inv s' \<and> (\<forall>j. \<not> owns s' p j)
     \<and> (\<forall>q j. owns s q j \<longrightarrow> q \<noteq> p \<longrightarrow> keeps s s' q j)
     \<and> (\<forall>x \<in> region p n. mem s' x = 0)
     \<and> s' = s\<lparr>mem := mem s', memory_used := memory_used s - of_nat (16 + n)\<rparr>
     \<and> only_changes (unat (heap_beginning s)) (unat (heap_end s)) (mem s) (mem s')"

text \<open>The counter after a free.\<close>

lemma free_used_bytes:
  assumes "unat (mu :: u64) = used_bytes (xs @ (True, n) # ys)"
  shows "unat (mu - of_nat (16 + n)) = used_bytes (free_blocks xs n ys)"
proof -
  have "used_bytes (free_pre xs) = 0" "used_bytes (free_post ys) = 0"
    using used_bytes_free free_pre_post_free by blast+
  then have "used_bytes (xs @ (True, n) # ys) = used_bytes (free_blocks xs n ys) + (16 + n)"
    using arg_cong [OF rest_pre_append [of xs], of used_bytes]
      arg_cong [OF free_post_append [of ys], of used_bytes]
    by (simp add: free_blocks_segment)
  then show ?thesis
    using assms unat_less_2_64 [of mu]
    by (subst unat_minus_le) (simp_all add: word_le_nat_alt del: of_nat_add)
qed

lemma free_refines:
  fixes s :: "'a heap_scheme"
  assumes rel: "heap_rel s (xs @ (True, n) # ys)"
    and p: "unat p = unat (heap_beginning s) + span xs + 16"
  obtains s' where "free p s = Some s'" and "heap_rel s' (free_blocks xs n ys)" and "freed s p n s'"
proof -
  let ?hb = "unat (heap_beginning s)" and ?pre = "free_pre xs" and ?post = "free_post ys"
  let ?old = "?pre @ (True, n) # ?post" and ?new = "[(False, span ?pre + n + span ?post)]"
  let ?b = "?hb + span (rest_pre xs)"
  obtain s' where res: "free p s = Some s'"
    and s': "s' = s\<lparr>mem := mem s', memory_used := memory_used s - of_nat (16 + n)\<rparr>"
    and hdr: "header (mem s') ?b (False, span ?pre + n + span ?post)"
    and w: "only_changes ?b (?b + 16 + (span ?pre + n + span ?post)) (mem s) (mem s')"
    and zero: "\<And>x. ?b + 16 \<le> unat x \<Longrightarrow> unat x < ?b + 16 + (span ?pre + n + span ?post) \<Longrightarrow> mem s' x = 0"
    by (rule free_effect [OF rel p]) blast
  have rel0: "heap_rel s (rest_pre xs @ ?old @ rest_post ys)"
    using rel rest_pre_append [of xs] free_post_append [of ys] by (metis append_Cons append_assoc)
  have eqs: "heap_beginning s' = heap_beginning s" "heap_end s' = heap_end s"
    "last_alloc s' = last_alloc s" "memory_used s' = memory_used s - of_nat (16 + n)"
    using arg_cong [OF s', of heap_beginning] arg_cong [OF s', of heap_end]
      arg_cong [OF s', of last_alloc] arg_cong [OF s', of memory_used] by simp_all
  have spans: "span ?old = span ?new" by simp
  have w': "only_changes ?b (?b + span ?new) (mem s) (mem s')" using w by (simp add: add.assoc)
  have sized: "well_sized ?pre" "well_sized ?post" "0 < n" "16 dvd n"
    using rel0 by (simp_all add: heap_rel_def)
  have mu: "unat (memory_used s') = used_bytes (rest_pre xs @ ?new @ rest_post ys)"
    using free_used_bytes [of "memory_used s" xs n ys] rel
    by (simp add: eqs(4) free_blocks_segment heap_rel_def del: of_nat_add)
  have rel': "heap_rel s' (rest_pre xs @ ?new @ rest_post ys)"
    by (rule segment_rel [OF rel0 eqs(1,2) _ _ _ w'])
      (use rel0 hdr sized mu in \<open>simp_all add: heap_rel_def eqs well_sized_span add.assoc\<close>)
  have inside: "?b + 16 \<le> unat p \<and> unat p + n \<le> ?b + 16 + (span ?pre + n + span ?post)"
    using p span_pre [of xs] by simp
  have "freed s p n s'"
    unfolding freed_def
  proof (intro conjI allI ballI impI)
    show "heap_inv s'" using rel' by (auto simp: heap_inv_def)
    show "\<not> owns s' p j" for j
      using owns_outside_segment [OF rel', of p j] inside sized(3) by (auto simp: eqs(1))
    show "keeps s s' q j" if q: "owns s q j" and ne: "q \<noteq> p" for q j
    proof -
      have "unat q < ?b \<or> ?b + span ?old \<le> unat q"
        by (rule owns_outside_segment_but [OF rel0 _ q])
          (use ne p free_pre_post_free span_pre [of xs] in \<open>auto simp: word_unat_eq_iff\<close>)
      then show ?thesis
        using segment_keeps(1) [OF rel0 rel' eqs(1) w' _ q] spans by blast
    qed
    show "mem s' x = 0" if "x \<in> region p n" for x
      using that inside rel by (intro zero) (auto simp: region_interval heap_rel_def HEAP_LIMIT_def p)
    show "only_changes ?hb (unat (heap_end s)) (mem s) (mem s')"
      using w' by (rule only_changes_mono) (use rel0 in \<open>auto simp: heap_rel_def\<close>)
  qed (rule s')
  then show thesis
    using that [OF res] rel' by (simp add: free_blocks_segment)
qed

lemma free_owned:
  assumes "owns s p n"
  obtains s' where "free p s = Some s'" and "freed s p n s'"
  using assms free_refines unfolding owns_def by metis

text \<open>Two different owned blocks do not overlap.\<close>

lemma owns_apart:
  assumes p: "owns s p n" and q: "owns s q j" and ne: "p \<noteq> q"
  shows "unat p + n \<le> unat q \<or> unat q + j \<le> unat p"
proof -
  have half: "unat y < unat x \<or> unat x + k \<le> unat y"
    if x: "owns s x k" and y: "owns s y l" and "x \<noteq> y" for x y k l
  proof -
    from x obtain xs ys where rel: "heap_rel s (xs @ ([] @ (True, k) # []) @ ys)"
      and ux: "unat x = unat (heap_beginning s) + span xs + 16"
      by (auto simp: owns_def)
    from owns_outside_segment_but [OF rel _ y] \<open>x \<noteq> y\<close> ux show ?thesis
      by (auto simp: word_unat_eq_iff)
  qed
  from half [OF p q ne] half [OF q p] ne show ?thesis by fastforce
qed

lemma owns_same: "owns s p n \<Longrightarrow> owns s p k \<Longrightarrow> n = k"
proof -
  assume "owns s p n" "owns s p k"
  then obtain xs ys us vs where rel: "heap_rel s (xs @ (True, n) # ys)" "heap_rel s (us @ (True, k) # vs)"
    and span: "span us = span xs"
    by (auto simp: owns_def)
  from heap_rel_unique [OF rel] have "us @ (True, k) # vs = xs @ [(True, n)] @ ys" by simp
  then show "n = k"
  proof (cases rule: split_in_segment)
    case (inside o1 o2)
    then show ?thesis by (cases o1) auto
  qed (use span in auto)
qed

text \<open>A free gives nothing to anybody.\<close>

lemma free_owns_before:
  assumes "owns s p n" and "free p s = Some s'" and "owns s' q j"
  shows "owns s q j"
proof -
  from assms(1) obtain xs ys where rel: "heap_rel s (xs @ (True, n) # ys)"
    and p: "unat p = unat (heap_beginning s) + span xs + 16" by (auto simp: owns_def)
  let ?tot = "span (free_pre xs) + n + span (free_post ys)"
  from free_refines [OF rel p] assms(2) have rel': "heap_rel s' (rest_pre xs @ (False, ?tot) # rest_post ys)"
    and fr: "freed s p n s'" by (auto simp: free_blocks_segment)
  have "s' = s\<lparr>mem := mem s', memory_used := memory_used s - of_nat (16 + n)\<rparr>"
    using fr unfolding freed_def by blast
  from arg_cong [OF this, of heap_beginning] have hb: "heap_beginning s' = heap_beginning s" by simp
  from assms(3) obtain us vs where uv: "heap_rel s' (us @ (True, j) # vs)"
    and q: "unat q = unat (heap_beginning s) + span us + 16" by (auto simp: owns_def hb)
  from heap_rel_unique [OF uv rel'] consider ws where "us @ (True, j) # ws = rest_pre xs"
    | ws where "us = rest_pre xs @ (False, ?tot) # ws" "rest_post ys = ws @ (True, j) # vs"
    by (auto simp: append_eq_append_conv2 Cons_eq_append_conv append_eq_Cons_conv)
  then show ?thesis
  proof cases
    case 1
    then have "xs @ (True, n) # ys = us @ (True, j) # (ws @ free_pre xs @ (True, n) # ys)"
      using rest_pre_append [of xs] by (metis append_Cons append_assoc)
    with rel q show ?thesis by (metis ownsI)
  next
    case 2
    then have "xs @ (True, n) # ys = (xs @ (True, n) # free_post ys @ ws) @ (True, j) # vs"
      using free_post_append [of ys] by simp
    moreover have "span us = span (xs @ (True, n) # free_post ys @ ws)"
      using 2(1) span_pre [of xs] by simp
    ultimately show ?thesis using rel q by (metis ownsI)
  qed
qed

end
