(* ===== verification/Heap_Realloc.thy ===== *)
theory Heap_Realloc
  imports Heap_Free
begin

text \<open>
  Writes inside an owned block keep the heap; a shrinking \<open>realloc\<close> keeps the block
  where it is and gives the rest back, a growing one moves its contents to a new block.
\<close>

section \<open>Writes by the owner of a block\<close>

lemma owned_write:
  assumes own: "owns s p k" and w: "only_changes (unat p) (unat p + k) (mem s) m'"
    and rel: "heap_rel s bs"
  shows "heap_rel (s\<lparr>mem := m'\<rparr>) bs"
proof -
  from own obtain xs ys where r: "heap_rel s (xs @ (True, k) # ys)"
    and p: "unat p = unat (heap_beginning s) + span xs + 16"
    by (auto simp: owns_def)
  have bs: "bs = xs @ (True, k) # ys" by (rule heap_rel_unique [OF rel r])
  have lim: "unat (heap_beginning s) + span (xs @ (True, k) # ys) \<le> HEAP_LIMIT"
    using r by (simp add: heap_rel_def)
  have "chain m' (unat (heap_beginning s)) xs"
    using r lim p chain_frame [OF w, of "unat (heap_beginning s)" xs] by (simp add: heap_rel_def HEAP_LIMIT_def)
  moreover have "header m' (unat (heap_beginning s) + span xs) (True, k)"
    using r lim p header_frame [OF w, of "unat (heap_beginning s) + span xs"]
    by (simp add: heap_rel_def HEAP_LIMIT_def)
  moreover have "chain m' (unat (heap_beginning s) + span xs + 16 + k) ys"
    using r lim p chain_frame [OF w, of "unat (heap_beginning s) + span xs + 16 + k" ys]
    by (simp add: heap_rel_def HEAP_LIMIT_def add.assoc)
  ultimately show ?thesis using r by (simp add: heap_rel_def bs)
qed

lemma owned_write_owns:
  assumes own: "owns s p k" and w: "only_changes (unat p) (unat p + k) (mem s) m'"
  shows "owns s q j \<Longrightarrow> owns (s\<lparr>mem := m'\<rparr>) q j"
    and "owns s q j \<Longrightarrow> q \<noteq> p \<Longrightarrow> keeps s (s\<lparr>mem := m'\<rparr>) q j"
proof -
  show *: "owns (s\<lparr>mem := m'\<rparr>) q j" if q: "owns s q j"
    using that owned_write [OF own w] unfolding owns_def by fastforce
  show "keeps s (s\<lparr>mem := m'\<rparr>) q j" if q: "owns s q j" and ne: "q \<noteq> p"
    unfolding keeps_def
  proof (intro conjI ballI)
    fix x assume "x \<in> region q j"
    then have "unat q \<le> unat x \<and> unat x < unat q + j"
      using owns_bounds(2) [OF q] by (simp add: region_interval HEAP_LIMIT_def)
    with owns_apart [OF q own ne] have "unat x < unat p \<or> unat p + k \<le> unat x" by linarith
    from only_changesD [OF w this] show "mem (s\<lparr>mem := m'\<rparr>) x = mem s x" by simp
  qed (rule * [OF q])
qed

lemma owns_size_read: "owns s p k \<Longrightarrow> alloc_size s (p - sizeof_alloc_t) = of_nat k"
proof -
  assume "owns s p k"
  then obtain xs ys where r: "heap_rel s (xs @ (True, k) # ys)"
    and p: "unat p = unat (heap_beginning s) + span xs + 16"
    by (auto simp: owns_def)
  have "unat (p - 16) = unat (heap_beginning s) + span xs"
    using p by (subst unat_minus_le) (simp_all add: word_le_nat_alt)
  then show ?thesis
    using header_read(2) [of s "p - 16" True k] r by (simp add: heap_rel_def sizeof_alloc_t_def)
qed

lemma owns_size_small: "owns s p k \<Longrightarrow> k < 18446744073709551616"
  using owns_bounds(2) by (fastforce simp: HEAP_LIMIT_def)

section \<open>Shrinking in place\<close>

lemma split_block_payload:
  assumes hdr: "header (mem s) (unat a) (u, k)" and gt: "k - unat sz > 16"
    and room: "unat a + 16 + k \<le> HEAP_LIMIT"
    and x: "unat a + 16 \<le> unat x" "unat x < unat a + 16 + unat sz"
  shows "mem (split_block a sz s) x = mem s x"
proof -
  have r: "unat (a + 16 + sz) = unat a + 16 + unat sz" and r8: "unat (a + 16 + sz + 8) = unat a + 16 + unat sz + 8"
    and a8: "unat (a + 8) = unat a + 8"
    using room gt by (simp_all add: unat_word_ariths HEAP_LIMIT_def)
  have "x \<notin> region (a + 8) 8" "x \<notin> region (a + 16 + sz + 8) 8" "x \<noteq> a + 16 + sz"
    using x room gt r r8 a8 by (auto simp: region_interval HEAP_LIMIT_def)
  then show ?thesis
    by (simp add: split_block_memory(1) [OF hdr gt room] frame)
qed

text \<open>
  \<open>resized s p k q n s'\<close>: between \<open>s\<close> and \<open>s'\<close> the block of \<open>k\<close> bytes at \<open>p\<close> became a
  block of at least \<open>n\<close> bytes at \<open>q\<close> with the same contents (up to the smaller size); every
  other owned block is kept and lies apart from the new one; nothing outside the heap changed.
\<close>

definition resized :: "'a heap_scheme \<Rightarrow> u64 \<Rightarrow> nat \<Rightarrow> u64 \<Rightarrow> nat \<Rightarrow> 'a heap_scheme \<Rightarrow> bool" where
  "resized s p k q n s' \<longleftrightarrow>
     (\<exists>k'\<ge>n. owns s' q k' \<and> (\<forall>r j. owns s r j \<longrightarrow> r \<noteq> p \<longrightarrow> keeps s s' r j \<and> r \<noteq> q))
     \<and> (\<forall>i < min k n. mem s' (q + of_nat i) = mem s (p + of_nat i))
     \<and> s' = s\<lparr>mem := mem s', last_alloc := last_alloc s', memory_used := memory_used s'\<rparr>
     \<and> only_changes (unat (heap_beginning s)) (unat (heap_end s)) (mem s) (mem s')"

definition shrink :: "u64 \<Rightarrow> u64 \<Rightarrow> 'a heap_scheme \<Rightarrow> 'a heap_scheme" where
  "shrink a sz s =
     (let s1 = split_block a sz s
      in s1\<lparr>memory_used := memory_used s1 - (alloc_size s1 (a + sizeof_alloc_t + sz) + sizeof_alloc_t)\<rparr>)"

lemma shrink_effect:
  fixes s :: "'a heap_scheme"
  assumes rel: "heap_rel s (xs @ (True, k) # ys)"
    and a: "unat a = unat (heap_beginning s) + span xs" and gt: "k - unat sz > 16"
    and sz: "0 < unat sz" "16 dvd unat sz"
  defines "s' \<equiv> shrink a sz s"
  shows "s' = s\<lparr>mem := mem s', memory_used := memory_used s - of_nat (k - unat sz)\<rparr>"
    and "only_changes (unat a) (unat a + 16 + k) (mem s) (mem s')"
    and "heap_rel s' (xs @ [(True, unat sz), (False, k - unat sz - 16)] @ ys)"
    and "\<And>x. unat a + 16 \<le> unat x \<Longrightarrow> unat x < unat a + 16 + unat sz \<Longrightarrow> mem s' x = mem s x"
proof -
  let ?new = "[(True, unat sz), (False, k - unat sz - 16)]"
  have hdr: "header (mem s) (unat a) (True, k)" and room: "unat a + 16 + k \<le> HEAP_LIMIT"
    and k: "16 dvd k"
    using rel a by (auto simp: heap_rel_def)
  define s1 where "s1 = split_block a sz s"
  note eff = split_block_effect [OF hdr gt room, folded s1_def]
  have r: "unat (a + 16 + sz) = unat a + 16 + unat sz"
    using room gt by (simp add: unat_word_ariths HEAP_LIMIT_def)
  have "alloc_size s1 (a + 16 + sz) = of_nat (k - unat sz - 16)"
    using header_read(2) [of s1 "a + 16 + sz" False] eff(3) by (simp add: r)
  moreover have "(of_nat (k - unat sz - 16) + 16 :: u64) = of_nat (k - unat sz)"
  proof -
    have "(of_nat (k - unat sz - 16) + 16 :: u64) = of_nat (k - unat sz - 16 + 16)"
      by (simp only: of_nat_add of_nat_numeral)
    with gt show ?thesis by simp
  qed
  ultimately have s1': "s' = s1\<lparr>memory_used := memory_used s1 - of_nat (k - unat sz)\<rparr>"
    by (simp add: s'_def shrink_def s1_def [symmetric] Let_def sizeof_alloc_t_def add.assoc [symmetric])
  have mu1: "memory_used s1 = memory_used s" by (subst eff(1)) simp
  show s': "s' = s\<lparr>mem := mem s', memory_used := memory_used s - of_nat (k - unat sz)\<rparr>"
    by (subst (2) s1', subst s1', subst eff(1)) (simp add: mu1)
  have m: "mem s' = mem s1" by (simp add: s1')
  show w: "only_changes (unat a) (unat a + 16 + k) (mem s) (mem s')"
    unfolding m using only_changes_mono [OF eff(2)] by simp
  show "mem s' x = mem s x" if "unat a + 16 \<le> unat x" "unat x < unat a + 16 + unat sz" for x
    using split_block_payload [OF hdr gt room that] by (simp add: m s1_def)
  have eqs: "heap_beginning s' = heap_beginning s" "heap_end s' = heap_end s"
    "last_alloc s' = last_alloc s" "memory_used s' = memory_used s - of_nat (k - unat sz)"
    using arg_cong [OF s', of heap_beginning] arg_cong [OF s', of heap_end]
      arg_cong [OF s', of last_alloc] arg_cong [OF s', of memory_used] by simp_all
  have mu: "unat (memory_used s') = used_bytes (xs @ ?new @ ys)"
    unfolding eqs(4) using rel gt room
    by (subst unat_minus_le) (simp_all add: word_le_nat_alt heap_rel_def HEAP_LIMIT_def del: of_nat_diff)
  have "heap_rel s (xs @ [(True, k)] @ ys)" using rel by simp
  then show "heap_rel s' (xs @ ?new @ ys)"
    by (rule segment_rel [OF _ eqs(1,2)])
      (use rel w eff(3) gt sz k mu in \<open>simp_all add: heap_rel_def eqs m a add.assoc\<close>)
qed

text \<open>A shrunk block is the same block with fewer bytes.\<close>

lemma shrink_resized:
  fixes s :: "'a heap_scheme"
  assumes own: "owns s p k" and gt: "k - unat sz > 16" and sz: "0 < unat sz" "16 dvd unat sz"
  defines "s' \<equiv> shrink (p - sizeof_alloc_t) sz s"
  shows "resized s p k p (unat sz) s'"
proof -
  define a where "a = p - sizeof_alloc_t"
  from own obtain xs ys where rel: "heap_rel s (xs @ (True, k) # ys)"
    and p: "unat p = unat (heap_beginning s) + span xs + 16"
    by (auto simp: owns_def)
  have a: "unat a = unat (heap_beginning s) + span xs"
    using p by (simp add: a_def sizeof_alloc_t_def unat_minus_le word_le_nat_alt)
  note eff = shrink_effect [OF rel a gt sz, unfolded a_def, folded s'_def, folded a_def]
  have eqs: "heap_beginning s' = heap_beginning s" "last_alloc s' = last_alloc s"
    "memory_used s' = memory_used s - of_nat (k - unat sz)"
    using arg_cong [OF eff(1), of heap_beginning] arg_cong [OF eff(1), of last_alloc]
      arg_cong [OF eff(1), of memory_used] by simp_all
  have rel0: "heap_rel s (xs @ ([] @ (True, k) # []) @ ys)" using rel by simp
  let ?new = "[(True, unat sz), (False, k - unat sz - 16)]"
  have w: "only_changes (unat (heap_beginning s) + span xs)
      (unat (heap_beginning s) + span xs + span ?new) (mem s) (mem s')"
    using eff(2) gt by (simp add: a add.assoc)
  have keep: "keeps s s' r j" if r: "owns s r j" and ne: "r \<noteq> p" for r j
  proof -
    have "unat r < unat (heap_beginning s) + span xs
        \<or> unat (heap_beginning s) + span xs + span ([] @ (True, k) # []) \<le> unat r"
      by (rule owns_outside_segment_but [OF rel0 _ r]) (use p ne in \<open>auto simp: word_unat_eq_iff\<close>)
    then show ?thesis
      using gt by (intro segment_keeps(1) [OF rel0 eff(3) eqs(1) w _ r]) simp_all
  qed
  have "mem s' (p + of_nat i) = mem s (p + of_nat i)" if "i < unat sz" for i
  proof -
    have "unat (p + of_nat i) = unat p + i"
      using that owns_bounds(2) [OF own] gt by (simp add: unat_plus_no_wrap HEAP_LIMIT_def)
    with that p a show ?thesis by (intro eff(4)) simp_all
  qed
  moreover have "owns s' p (unat sz)"
    using eff(3) p by (intro ownsI [of s' xs _ "(False, k - unat sz - 16) # ys"]) (simp_all add: eqs)
  moreover have "only_changes (unat (heap_beginning s)) (unat (heap_end s)) (mem s) (mem s')"
    using eff(2) by (rule only_changes_mono) (use rel a in \<open>simp_all add: heap_rel_def\<close>)
  moreover have "s' = s\<lparr>mem := mem s', last_alloc := last_alloc s', memory_used := memory_used s'\<rparr>"
    using eff(1) by (simp only: eqs update_last_alloc_same)
  ultimately show ?thesis
    unfolding resized_def using keep by auto
qed

section \<open>Growing\<close>

lemma allocated_owns:
  assumes "allocated s n p s'"
  obtains k where "n \<le> k" and "owns s' p k"
    and "\<And>q j. owns s q j \<Longrightarrow> keeps s s' q j" and "\<And>q j. owns s q j \<Longrightarrow> q \<noteq> p"
proof -
  from assms obtain k where k: "n \<le> k" "owns s' p k"
    and q: "\<And>q j. owns s q j \<Longrightarrow> keeps s s' q j \<and> (unat q + j \<le> unat p \<or> unat p + k \<le> unat q)"
    unfolding allocated_def by auto
  have "q \<noteq> p" if "owns s q j" for q j
    using q [OF that] owns_bounds(4) [OF that] owns_bounds(4) [OF k(2)] by auto
  with that k q show thesis by blast
qed

lemma allocated_heap_beginning: "allocated s n p s' \<Longrightarrow> heap_beginning s' = heap_beginning s"
  unfolding allocated_def by (elim conjE) (drule arg_cong [of _ _ heap_beginning], simp)

lemma allocated_heap_end: "allocated s n p s' \<Longrightarrow> heap_end s' = heap_end s"
  unfolding allocated_def by (elim conjE) (drule arg_cong [of _ _ heap_end], simp)

text \<open>Move the contents to a new block, then give the old one back.\<close>

lemma grow_resized:
  fixes s :: "'a heap_scheme"
  assumes own: "owns s p k" and alloc: "allocated s n q s1" and less: "k < n"
  defines "s2 \<equiv> s1\<lparr>mem := memcpy (mem s1) q p (of_nat k)\<rparr>"
  obtains s3 where "free p s2 = Some s3" and "heap_inv s3" and "resized s p k q n s3"
proof -
  from alloc obtain k' where k': "n \<le> k'" and q: "owns s1 q k'"
    and keep1: "\<And>r j. owns s r j \<Longrightarrow> keeps s s1 r j" and ne: "\<And>r j. owns s r j \<Longrightarrow> r \<noteq> q"
    by (rule allocated_owns) blast
  have p1: "owns s1 p k" and same1: "\<And>x. x \<in> region p k \<Longrightarrow> mem s1 x = mem s x"
    using keep1 [OF own] by (auto simp: keeps_def)
  have small: "unat (of_nat k :: u64) = k" "unat q + k' \<le> HEAP_LIMIT" "unat p + k \<le> HEAP_LIMIT"
    using owns_size_small [OF own] owns_bounds(2) [OF q] owns_bounds(2) [OF own] by simp_all
  have w: "only_changes (unat q) (unat q + k') (mem s1) (memcpy (mem s1) q p (of_nat k))"
    using less k' small by (intro confined) (simp_all add: HEAP_LIMIT_def)
  note s2 = owned_write_owns [OF q w, folded s2_def]
  obtain s3 where res: "free p s2 = Some s3" and fr: "freed s2 p k s3"
    by (rule free_owned [OF s2(1) [OF p1]])
  have keep3: "keeps s2 s3 r j" if "owns s2 r j" "r \<noteq> p" for r j
    using fr that by (simp add: freed_def)
  have q3: "keeps s2 s3 q k'" using keep3 [OF s2(1) [OF q]] ne [OF own] by blast
  have "keeps s s3 r j \<and> r \<noteq> q" if r: "owns s r j" and "r \<noteq> p" for r j
  proof -
    have r1: "owns s1 r j" using keep1 [OF r] by (simp add: keeps_def)
    from keep1 [OF r] s2(2) [OF r1 ne [OF r]] keep3 [OF s2(1) [OF r1] \<open>r \<noteq> p\<close>] ne [OF r]
    show ?thesis by (blast intro: keeps_trans)
  qed
  moreover have "mem s3 (q + of_nat i) = mem s (p + of_nat i)" if i: "i < min k n" for i
  proof -
    have "mem s3 (q + of_nat i) = mem s2 (q + of_nat i)"
      using q3 i k' small by (simp add: keeps_def HEAP_LIMIT_def)
    also have "\<dots> = mem s1 (p + of_nat i)"
    proof -
      have "region q k \<inter> region p k = {}"
        using owns_apart [OF q p1] ne [OF own] less k' small
        by (auto simp: region_interval HEAP_LIMIT_def)
      then show ?thesis using i small by (simp add: s2_def memcpy_disjoint HEAP_LIMIT_def)
    qed
    also have "\<dots> = mem s (p + of_nat i)"
      using i small by (intro same1) (simp add: HEAP_LIMIT_def)
    finally show ?thesis .
  qed
  moreover have "s3 = s\<lparr>mem := mem s3, last_alloc := last_alloc s3, memory_used := memory_used s3\<rparr>"
  proof -
    have s1: "s1 = s\<lparr>mem := mem s1, last_alloc := last_alloc s1, memory_used := memory_used s1\<rparr>"
      using alloc by (simp add: allocated_def)
    have s3: "s3 = s2\<lparr>mem := mem s3, memory_used := memory_used s2 - of_nat (16 + k)\<rparr>"
      using fr by (simp add: freed_def)
    have "last_alloc s3 = last_alloc s1" by (subst s3) (simp add: s2_def)
    moreover have "memory_used s3 = memory_used s2 - of_nat (16 + k)" by (subst s3) simp
    ultimately show ?thesis by (subst s3) (simp add: s2_def, subst s1, simp)
  qed
  moreover have "only_changes (unat (heap_beginning s)) (unat (heap_end s)) (mem s) (mem s3)"
  proof -
    note hb1 = allocated_heap_beginning [OF alloc] allocated_heap_end [OF alloc]
    have "only_changes (unat (heap_beginning s)) (unat (heap_end s)) (mem s1) (mem s2)"
      using w owns_bounds(6,7) [OF q] hb1 by (auto simp: s2_def intro: only_changes_mono)
    moreover have "only_changes (unat (heap_beginning s)) (unat (heap_end s)) (mem s2) (mem s3)"
      using fr hb1 by (simp add: freed_def s2_def)
    moreover have "only_changes (unat (heap_beginning s)) (unat (heap_end s)) (mem s) (mem s1)"
      using alloc by (simp add: allocated_def)
    ultimately show ?thesis by (blast intro: only_changes_trans)
  qed
  ultimately have "resized s p k q n s3"
    unfolding resized_def using q3 k' by (auto simp: keeps_def)
  with that res fr show thesis by (auto simp: freed_def)
qed

lemma resized_mono: "resized s p k q n s' \<Longrightarrow> n' \<le> n \<Longrightarrow> resized s p k q n' s'"
  unfolding resized_def by (auto intro: order_trans)

lemma resized_refl: "owns s p k \<Longrightarrow> n \<le> k \<Longrightarrow> resized s p k p n s"
  by (auto simp: resized_def keeps_def)

lemma resized_heap_inv: "resized s p k q n s' \<Longrightarrow> heap_inv s'"
  unfolding resized_def using owns_heap_inv by blast

section \<open>realloc\<close>

lemma realloc_grow:
  assumes own: "owns s p k" and sz: "sz \<noteq> 0" "\<not> sz > MAX_REQUEST" and less: "k < unat (ALIGN_UP sz)"
  shows "\<exists>q s'. realloc p sz s = Some (q, s') \<and> heap_inv s'
    \<and> (if q = 0 then s' = s else resized s p k q (unat sz) s')"
proof -
  note req = ALIGN_UP_request [OF sz]
  have small: "\<not> ALIGN_UP sz \<le> of_nat k"
    using less owns_size_small [OF own] by (simp add: word_le_nat_alt)
  from malloc_outcome [OF owns_heap_inv [OF own], of "ALIGN_UP sz"]
  obtain q s1 where m: "malloc (ALIGN_UP sz) s = Some (q, s1)" and inv1: "heap_inv s1"
    and out: "if q = 0 then s1 = s else allocated s (unat (ALIGN_UP sz)) q s1"
    by (auto simp: alloc_outcome_def)
  show ?thesis
  proof (cases "q = 0")
    case True
    with m out inv1 small sz owns_bounds(5) [OF own] owns_size_read [OF own] show ?thesis
      by (simp add: realloc_def Let_def)
  next
    case False
    with out have alloc: "allocated s (unat (ALIGN_UP sz)) q s1" by simp
    then have "owns s1 p k" by (rule allocated_owns) (use own in \<open>auto simp: keeps_def\<close>)
    then have read1: "alloc_size s1 (p - sizeof_alloc_t) = of_nat k" by (rule owns_size_read)
    obtain s3 where "free p (s1\<lparr>mem := memcpy (mem s1) q p (of_nat k)\<rparr>) = Some s3"
      and "heap_inv s3" and "resized s p k q (unat (ALIGN_UP sz)) s3"
      by (rule grow_resized [OF own alloc less])
    with False m small sz owns_bounds(5) [OF own] owns_size_read [OF own] read1 req(1) show ?thesis
      by (auto simp: realloc_def Let_def intro: resized_mono)
  qed
qed

lemma realloc_in_place:
  assumes own: "owns s p k" and sz: "sz \<noteq> 0" "\<not> sz > MAX_REQUEST" and le: "unat (ALIGN_UP sz) \<le> k"
  shows "\<exists>s'. realloc p sz s = Some (p, s') \<and> resized s p k p (unat sz) s'"
proof -
  note req = ALIGN_UP_request [OF sz]
  have fits: "ALIGN_UP sz \<le> of_nat k" and diff: "unat (of_nat k - ALIGN_UP sz) = k - unat (ALIGN_UP sz)"
    using le owns_size_small [OF own] by (simp_all add: word_le_nat_alt unat_minus_le)
  show ?thesis
  proof (cases "k - unat (ALIGN_UP sz) > 16")
    case True
    then have "of_nat k - ALIGN_UP sz > sizeof_alloc_t"
      using diff by (simp add: word_less_nat_alt sizeof_alloc_t_def)
    then have "realloc p sz s = Some (p, shrink (p - sizeof_alloc_t) (ALIGN_UP sz) s)"
      using fits sz owns_bounds(5) [OF own] owns_size_read [OF own]
      by (simp add: realloc_def Let_def shrink_def)
    with shrink_resized [OF own True req(3,2)] req(1) show ?thesis
      by (auto intro: resized_mono)
  next
    case False
    then have "\<not> of_nat k - ALIGN_UP sz > sizeof_alloc_t"
      using diff by (simp add: word_less_nat_alt sizeof_alloc_t_def)
    then have "realloc p sz s = Some (p, s)"
      using fits sz owns_bounds(5) [OF own] owns_size_read [OF own]
      by (simp add: realloc_def Let_def)
    with resized_refl [OF own] le req(1) show ?thesis by (meson order_trans)
  qed
qed

lemma realloc_outcome:
  assumes own: "owns s p k" and "sz \<noteq> 0"
  shows "\<exists>q s'. realloc p sz s = Some (q, s') \<and> heap_inv s'
    \<and> (if q = 0 then s' = s else resized s p k q (unat sz) s')"
proof (cases "sz > MAX_REQUEST")
  case True
  with assms owns_heap_inv [OF own] owns_bounds(5) [OF own] show ?thesis by (simp add: realloc_def)
next
  case False
  then consider "k < unat (ALIGN_UP sz)" | "unat (ALIGN_UP sz) \<le> k" by linarith
  then show ?thesis
    using realloc_grow [OF assms False] realloc_in_place [OF assms False] resized_heap_inv
      owns_bounds(5) [OF own] by cases fastforce+
qed

end
