(* ===== verification/Heap_Interface.thy ===== *)
theory Heap_Interface
  imports Heap_Realloc
begin

text \<open>
  The allocator as its clients see it. The locale \<open>allocator\<close> states the contract of
  \<open>malloc\<close> and \<open>free\<close> and is interpreted on them; an inductive step relation collects
  everything a client may do to the heap, and its invariant is proved by rule induction. The
  properties of the allocator close the theory.
\<close>

section \<open>Sequences of allocations\<close>

fun alloc_all :: "(u64 \<Rightarrow> 's \<Rightarrow> (u64 \<times> 's) option) \<Rightarrow> u64 list \<Rightarrow> 's \<Rightarrow> (u64 list \<times> 's) option" where
  "alloc_all alloc [] s = Some ([], s)"
| "alloc_all alloc (n # ns) s =
     (case alloc n s of None \<Rightarrow> None
      | Some (p, s1) \<Rightarrow> map_option (\<lambda>(ps, s2). (p # ps, s2)) (alloc_all alloc ns s1))"

section \<open>The allocator interface\<close>

text \<open>
  What a client of the allocator relies on. \<open>own s p n\<close>: the block of \<open>n\<close> bytes at \<open>p\<close>
  belongs to the client; \<open>byte s\<close> is the memory.
\<close>

locale allocator =
  fixes alloc :: "u64 \<Rightarrow> 's \<Rightarrow> (u64 \<times> 's) option"
    and dealloc :: "u64 \<Rightarrow> 's \<Rightarrow> 's option"
    and inv :: "'s \<Rightarrow> bool"
    and own :: "'s \<Rightarrow> u64 \<Rightarrow> nat \<Rightarrow> bool"
    and byte :: "'s \<Rightarrow> u64 \<Rightarrow> u8"
  assumes alloc_returns: "inv s \<Longrightarrow> \<exists>p s'. alloc n s = Some (p, s') \<and> inv s' \<and> (p = 0 \<longrightarrow> s' = s)"
    and alloc_owns: "inv s \<Longrightarrow> alloc n s = Some (p, s') \<Longrightarrow> p \<noteq> 0 \<Longrightarrow> \<exists>k\<ge>unat n. own s' p k"
    and alloc_keeps: "inv s \<Longrightarrow> alloc n s = Some (p, s') \<Longrightarrow> p \<noteq> 0 \<Longrightarrow> own s q j \<Longrightarrow>
      own s' q j \<and> q \<noteq> p \<and> (\<forall>x \<in> region q j. byte s' x = byte s x)"
    and dealloc_returns: "own s p k \<Longrightarrow> \<exists>s'. dealloc p s = Some s' \<and> inv s' \<and> (\<forall>j. \<not> own s' p j)"
    and dealloc_keeps: "own s p k \<Longrightarrow> dealloc p s = Some s' \<Longrightarrow> own s q j \<Longrightarrow> q \<noteq> p \<Longrightarrow>
      own s' q j \<and> (\<forall>x \<in> region q j. byte s' x = byte s x)"
begin

lemma alloc_keeps_any:
  "inv s \<Longrightarrow> alloc n s = Some (p, s') \<Longrightarrow> own s q j \<Longrightarrow>
    own s' q j \<and> (\<forall>x \<in> region q j. byte s' x = byte s x)"
  using alloc_returns [of s n] alloc_keeps [of s n p s' q j] by (cases "p = 0") auto

text \<open>A temporary block: allocated, then given back, it leaves the other blocks alone.\<close>

lemma alloc_dealloc:
  assumes "inv s" and "alloc n s = Some (p, s1)" and "p \<noteq> 0"
  shows "\<exists>s2. dealloc p s1 = Some s2 \<and> inv s2
    \<and> (\<forall>q j. own s q j \<longrightarrow> own s2 q j \<and> (\<forall>x \<in> region q j. byte s2 x = byte s x))"
proof -
  from alloc_owns [OF assms] obtain k where k: "own s1 p k" by auto
  from dealloc_returns [OF k] obtain s2 where s2: "dealloc p s1 = Some s2" "inv s2" by auto
  have "own s2 q j \<and> (\<forall>x \<in> region q j. byte s2 x = byte s x)" if "own s q j" for q j
    using alloc_keeps [OF assms that] dealloc_keeps [OF k s2(1), of q j] by auto
  with s2 show ?thesis by blast
qed

text \<open>Allocating one block after the other: all returned blocks are owned at once and differ.\<close>

lemma alloc_all_owns:
  assumes "inv s"
  shows "\<exists>ps s'. alloc_all alloc ns s = Some (ps, s') \<and> inv s'
    \<and> list_all2 (\<lambda>n p. p \<noteq> 0 \<longrightarrow> (\<exists>k\<ge>unat n. own s' p k)) ns ps
    \<and> distinct (filter (\<lambda>p. p \<noteq> 0) ps)
    \<and> (\<forall>q j. own s q j \<longrightarrow> own s' q j \<and> q \<notin> set (filter (\<lambda>p. p \<noteq> 0) ps)
         \<and> (\<forall>x \<in> region q j. byte s' x = byte s x))"
  using assms
proof (induction ns arbitrary: s)
  case (Cons n ns)
  from alloc_returns [OF Cons.prems, of n] obtain p s1 where
    a: "alloc n s = Some (p, s1)" and inv1: "inv s1" by auto
  from Cons.IH [OF inv1] obtain ps s' where ih: "alloc_all alloc ns s1 = Some (ps, s')" "inv s'"
    "list_all2 (\<lambda>n p. p \<noteq> 0 \<longrightarrow> (\<exists>k\<ge>unat n. own s' p k)) ns ps"
    "distinct (filter (\<lambda>p. p \<noteq> 0) ps)"
    and keep: "\<And>q j. own s1 q j \<Longrightarrow> own s' q j \<and> q \<notin> set (filter (\<lambda>p. p \<noteq> 0) ps)
         \<and> (\<forall>x \<in> region q j. byte s' x = byte s1 x)"
    by blast
  have new: "\<exists>k\<ge>unat n. own s' p k" "p \<notin> set ps" if "p \<noteq> 0"
    using alloc_owns [OF Cons.prems a that] keep that by auto
  have old: "own s' q j \<and> q \<notin> set (filter (\<lambda>p. p \<noteq> 0) (p # ps))
      \<and> (\<forall>x \<in> region q j. byte s' x = byte s x)" if "own s q j" for q j
    using alloc_keeps_any [OF Cons.prems a that] alloc_keeps [OF Cons.prems a _ that]
      keep [of q j] by auto
  show ?case
    using a ih new old by (intro exI [of _ "p # ps"] exI [of _ s']) auto
qed simp

end

lemma malloc_cases:
  assumes "heap_inv s" and "malloc n s = Some (p, s')"
  shows "heap_inv s'" and "p = 0 \<Longrightarrow> s' = s" and "p \<noteq> 0 \<Longrightarrow> allocated s (unat n) p s'"
  using malloc_outcome [OF assms(1), of n] assms(2) by (auto simp: alloc_outcome_def)

interpretation heap: allocator malloc free heap_inv owns "mem :: 'a heap_scheme \<Rightarrow> memory"
proof
  fix s s' :: "'a heap_scheme" and n p q j k
  show "\<exists>p s'. malloc n s = Some (p, s') \<and> heap_inv s' \<and> (p = 0 \<longrightarrow> s' = s)" if "heap_inv s"
    using malloc_outcome [OF that, of n] by (auto simp: alloc_outcome_def)
  show "\<exists>k\<ge>unat n. owns s' p k" if "heap_inv s" "malloc n s = Some (p, s')" "p \<noteq> 0"
    using malloc_cases(3) [OF that] by (auto elim: allocated_owns)
  show "owns s' q j \<and> q \<noteq> p \<and> (\<forall>x \<in> region q j. mem s' x = mem s x)"
    if "heap_inv s" "malloc n s = Some (p, s')" "p \<noteq> 0" "owns s q j"
    using allocated_owns [OF malloc_cases(3) [OF that(1-3)]] that(4) by (metis keeps_def)
  show "\<exists>s'. free p s = Some s' \<and> heap_inv s' \<and> (\<forall>j. \<not> owns s' p j)" if "owns s p k"
    using free_owned [OF that] by (metis freed_def)
  show "owns s' q j \<and> (\<forall>x \<in> region q j. mem s' x = mem s x)"
    if "owns s p k" "free p s = Some s'" "owns s q j" "q \<noteq> p"
    using free_owned [OF that(1)] that(2-4) by (metis freed_def keeps_def option.inject)
qed

section \<open>Everything a client may do\<close>

text \<open>
  Calls of the allocator with pointers the client owns (or NULL), writes into owned blocks,
  and writes to memory below the heap. A step is labelled with the pointer it acts on: the
  one given to \<open>free\<close> or \<open>realloc\<close>, or the block written to; \<open>malloc\<close>, \<open>calloc\<close> and
  writes below the heap act on no block and have the label 0.
\<close>

inductive heap_step :: "'a heap_scheme \<Rightarrow> u64 \<Rightarrow> 'a heap_scheme \<Rightarrow> bool" where
  step_malloc: "malloc n s = Some (p, s') \<Longrightarrow> heap_step s 0 s'"
| step_calloc: "calloc c n s = Some (p, s') \<Longrightarrow> heap_step s 0 s'"
| step_free: "p = 0 \<or> owns s p k \<Longrightarrow> free p s = Some s' \<Longrightarrow> heap_step s p s'"
| step_realloc: "p = 0 \<or> owns s p k \<Longrightarrow> realloc p n s = Some (q, s') \<Longrightarrow> heap_step s p s'"
| step_write: "owns s p k \<Longrightarrow> x \<in> region p k \<Longrightarrow> heap_step s p (s\<lparr>mem := (mem s)(x := v)\<rparr>)"
| step_below: "unat x < unat (heap_beginning s) \<Longrightarrow> heap_step s 0 (s\<lparr>mem := (mem s)(x := v)\<rparr>)"

inductive_cases heap_step_cases [elim]: "heap_step s p s'"

text \<open>Runs of the clients, with the pointers they act on in order.\<close>

inductive heap_run :: "'a heap_scheme \<Rightarrow> u64 list \<Rightarrow> 'a heap_scheme \<Rightarrow> bool" where
  run_nil: "heap_run s [] s"
| run_step: "heap_run s ps t \<Longrightarrow> heap_step t p u \<Longrightarrow> heap_run s (ps @ [p]) u"

text \<open>
  What one call keeps: the heap well formed, and every block but the one acted on, with its
  owner and its contents.
\<close>

definition keeps_others :: "'a heap_scheme \<Rightarrow> u64 \<Rightarrow> 'a heap_scheme \<Rightarrow> bool" where
  "keeps_others s p s' \<longleftrightarrow> heap_inv s' \<and> (\<forall>q j. owns s q j \<longrightarrow> q \<noteq> p \<longrightarrow> keeps s s' q j)"

lemma keeps_others_refl: "heap_inv s \<Longrightarrow> keeps_others s p s"
  by (simp add: keeps_others_def keeps_def)

lemma alloc_keeps_others:
  assumes "alloc_outcome s n (Some (p, s'))" and "heap_inv s"
  shows "keeps_others s q s'"
proof (cases "p = 0")
  case False
  with assms(1) have "heap_inv s'" "allocated s n p s'" by (auto simp: alloc_outcome_def)
  then show ?thesis by (auto simp: keeps_others_def elim: allocated_owns)
qed (use assms keeps_others_refl in \<open>auto simp: alloc_outcome_def\<close>)

lemma free_cases:
  assumes "p = 0 \<or> owns s p k" and "free p s = Some s'" and "heap_inv s"
  shows "keeps_others s p s'"
proof (cases "p = 0")
  case False
  with assms(1) obtain t where "free p s = Some t" "freed s p k t" using free_owned by blast
  with assms(2) show ?thesis by (auto simp: keeps_others_def freed_def)
qed (use assms keeps_others_refl in \<open>auto simp: free_def\<close>)

lemma realloc_cases:
  assumes "p = 0 \<or> owns s p k" and "realloc p n s = Some (q, s')" and "heap_inv s"
  shows "keeps_others s p s'"
proof -
  consider "p = 0" | "p \<noteq> 0" "n = 0" | "p \<noteq> 0" "n \<noteq> 0" by blast
  then show ?thesis
  proof cases
    case 2
    with assms(2) have "free p s = Some s'" by (auto simp: realloc_def split: option.splits)
    with free_cases assms show ?thesis by blast
  next
    case 3
    with assms realloc_outcome [of s p k n]
    have "heap_inv s'" "if q = 0 then s' = s else resized s p k q (unat n) s'" by auto
    then show ?thesis
      by (cases "q = 0") (auto simp: keeps_others_def keeps_def resized_def)
  next
    case 1
    then have "s' = s" using assms(2) by (simp add: realloc_def)
    with keeps_others_refl [OF assms(3)] show ?thesis by simp
  qed
qed

lemma heap_rel_below:
  assumes "heap_rel s bs" and "unat x < unat (heap_beginning s)"
  shows "heap_rel (s\<lparr>mem := (mem s)(x := v)\<rparr>) bs"
proof -
  have w: "only_changes (unat x) (Suc (unat x)) (mem s) ((mem s)(x := v))"
    using only_changes_store8 [of "unat x" x "Suc (unat x)" "mem s" v] by (simp add: store8_def)
  have "chain ((mem s)(x := v)) (unat (heap_beginning s)) bs"
    using assms chain_frame [OF w, of "unat (heap_beginning s)" bs]
    by (simp add: heap_rel_def HEAP_LIMIT_def)
  with assms show ?thesis by (auto simp: heap_rel_def)
qed

lemma below_keeps_others:
  assumes "unat x < unat (heap_beginning s)" and "heap_inv s"
  shows "keeps_others s 0 (s\<lparr>mem := (mem s)(x := v)\<rparr>)"
proof -
  let ?t = "s\<lparr>mem := (mem s)(x := v)\<rparr>"
  have rel: "heap_rel ?t bs" if "heap_rel s bs" for bs
    by (rule heap_rel_below [OF that assms(1)])
  have "keeps s ?t q j" if q: "owns s q j" for q j
  proof -
    have "x \<notin> region q j"
      using assms(1) owns_bounds(2,6) [OF q] by (auto simp: region_interval HEAP_LIMIT_def)
    moreover have "owns ?t q j" using q rel unfolding owns_def by fastforce
    ultimately show ?thesis by (auto simp: keeps_def)
  qed
  with rel assms(2) show ?thesis by (auto simp: keeps_others_def heap_inv_def)
qed

lemma write_keeps_others:
  assumes own: "owns s p k" and "x \<in> region p k"
  shows "keeps_others s p (s\<lparr>mem := (mem s)(x := v)\<rparr>)"
proof -
  have "unat p \<le> unat x \<and> unat x < unat p + k"
    using assms(2) owns_bounds(2) [OF own] by (simp add: region_interval HEAP_LIMIT_def)
  then have w: "only_changes (unat p) (unat p + k) (mem s) ((mem s)(x := v))"
    using only_changes_store8 [of "unat p" x "unat p + k" "mem s" v] by (simp add: store8_def)
  show ?thesis
    using owned_write [OF own w] owned_write_owns(2) [OF own w] owns_heap_inv [OF own]
    by (auto simp: keeps_others_def heap_inv_def)
qed

lemma heap_step_keeps_others: "heap_step s p s' \<Longrightarrow> heap_inv s \<Longrightarrow> keeps_others s p s'"
proof (induction rule: heap_step.induct)
  case (step_malloc n s p s')
  then show ?case using alloc_keeps_others malloc_outcome by metis
next
  case (step_calloc c n s p s')
  then show ?case using alloc_keeps_others calloc_outcome by metis
qed (blast intro: free_cases realloc_cases write_keeps_others below_keeps_others)+

lemma heap_run_keeps:
  assumes "heap_run s ps t" and "heap_inv s"
  shows "heap_inv t \<and> (\<forall>q k. owns s q k \<longrightarrow> q \<notin> set ps \<longrightarrow> keeps s t q k)"
  using assms
proof (induction rule: heap_run.induct)
  case (run_step s ps t p u)
  then have "keeps_others t p u" using heap_step_keeps_others by blast
  then have "keeps s u q k" if "owns s q k" "q \<notin> set ps" "q \<noteq> p" for q k
    using run_step that keeps_trans by (metis keeps_def keeps_others_def)
  with \<open>keeps_others t p u\<close> show ?case by (auto simp: keeps_others_def)
qed (simp add: keeps_def)

section \<open>Example heaps\<close>

text \<open>A fresh heap of 1 MiB at 8 MiB, and the same heap with one block of 32 bytes.\<close>

definition fresh_heap :: heap where
  "fresh_heap = \<lparr>mem = (\<lambda>_. 0), io_log = [], if_flag = False, cursor_x = 0, cursor_y = 0, terminal_color = 15,
     terminal_buffer = VGA, heap_beginning = 0x800000, heap_end = 0x900000,
     last_alloc = 0x800000, memory_used = 0\<rparr>"

definition one_block_heap :: heap where
  "one_block_heap = fresh_heap\<lparr>
     mem := store64 (store8 (store8 (\<lambda>_. 0) 0x800010 7) 0x800000 1) 0x800008 32,
     last_alloc := 0x800030, memory_used := 48\<rparr>"

lemma fresh_heap_rel: "heap_rel fresh_heap []"
  by (simp add: heap_rel_def fresh_heap_def HEAP_LOW_def HEAP_LIMIT_def)

lemma one_block_heap_rel: "heap_rel one_block_heap ([] @ (True, 32) # [])"
proof -
  have "0x800000 \<notin> region 0x800008 8" by (subst region_interval) simp_all
  then show ?thesis
    by (simp add: heap_rel_def fresh_heap_def one_block_heap_def HEAP_LOW_def HEAP_LIMIT_def header_def
        store64_other)
qed

lemma one_block_owns: "owns one_block_heap 0x800010 32"
  by (rule ownsI [OF one_block_heap_rel]) (simp add: one_block_heap_def fresh_heap_def)

lemma fresh_heap_inv: "heap_inv fresh_heap"
  using fresh_heap_rel by (auto simp: heap_inv_def)

lemma fresh_heap_malloc:
  obtains s where "malloc 20 fresh_heap = Some (0x800010, s)" and "heap_rel s [(True, 32)]"
proof -
  have "unat (ALIGN_UP 20) = 32" by (subst ALIGN_UP_unat) simp_all
  with alloc_with_refines [OF fresh_heap_rel, of "ALIGN_UP 20" "\<lambda>a t. alloc_size t a"] that show thesis
    by (auto simp: malloc_alloc_with MAX_REQUEST_def INT_MAX_def alloc_blocks_def fresh_heap_def)
qed

section \<open>Properties\<close>

text \<open>
  C1: on a well-formed heap \<open>malloc\<close> implements first fit on the block list: it returns,
  and either the abstract allocator finds no room and \<open>malloc\<close> returns NULL with the state
  unchanged, or it returns the payload address the abstract allocator chose and the headers
  in memory spell the new block list.
\<close>

theorem malloc_refines:
  assumes "heap_rel s bs" and "sz \<noteq> 0" and "sz \<le> MAX_REQUEST"
  shows "case alloc_blocks (unat (heap_end s) - unat (heap_beginning s)) (unat (ALIGN_UP sz)) bs of
      None \<Rightarrow> malloc sz s = Some (0, s)
    | Some (off, bs') \<Rightarrow> \<exists>s'. malloc sz s = Some (heap_beginning s + of_nat off, s') \<and> heap_rel s' bs'"
proof -
  have "\<not> sz > MAX_REQUEST" using assms(3) by simp
  note req = ALIGN_UP_request [OF assms(2) this] and
    eq = malloc_alloc_with [OF assms(2) heap_rel_nonzero [OF assms(1)] this]
  show ?thesis
    using alloc_with_refines [OF assms(1) req(3,2,4), of "\<lambda>a t. alloc_size t a"]
    by (auto simp: eq split: option.splits)
qed

theorem malloc_refines_witness:
  "\<exists>s'. malloc 20 fresh_heap = Some (0x800010, s') \<and> heap_rel s' [(True, 32)]"
proof -
  have "unat (ALIGN_UP 20) = 32" by (subst ALIGN_UP_unat) simp_all
  with malloc_refines [OF fresh_heap_rel, of 20] show ?thesis
    by (simp add: MAX_REQUEST_def INT_MAX_def alloc_blocks_def fresh_heap_def)
qed

text \<open>
  C23: \<open>malloc\<close> is total and safe on every well-formed heap and for every size: it
  returns, keeps the heap well formed, and either returns NULL and changes nothing or
  returns a block of at least the requested size that lies between \<open>heap_beginning\<close> and
  \<open>heap_end\<close>, is zeroed, overlaps no block in use, and leaves the contents of those and all
  memory outside \<open>heap_beginning\<close> to \<open>heap_end\<close> as they were.
\<close>

theorem malloc_safe:
  assumes "heap_inv s"
  shows "\<exists>p s'. malloc sz s = Some (p, s') \<and> heap_inv s'
    \<and> (if p = 0 then s' = s
       else allocated s (unat sz) p s' \<and> unat (heap_beginning s) + 16 \<le> unat p
         \<and> unat p + unat sz \<le> unat (heap_end s))"
proof -
  obtain p s' where m: "malloc sz s = Some (p, s')" and inv: "heap_inv s'"
    and res: "if p = 0 then s' = s else allocated s (unat sz) p s'"
    using malloc_outcome [OF assms, of sz] by (auto simp: alloc_outcome_def)
  have "unat (heap_beginning s) + 16 \<le> unat p \<and> unat p + unat sz \<le> unat (heap_end s)"
    if "allocated s (unat sz) p s'"
    by (rule allocated_owns [OF that])
      (use owns_bounds(6,7) [of s' p] allocated_heap_beginning [OF that] allocated_heap_end [OF that]
        in fastforce)
  with m inv res show ?thesis by auto
qed

theorem malloc_safe_witness:
  "heap_inv fresh_heap \<and> (\<exists>s'. malloc 20 fresh_heap = Some (0x800010, s') \<and> heap_inv s'
    \<and> allocated fresh_heap (unat (20 :: u64)) 0x800010 s'
    \<and> unat (0x800010 :: u64) + unat (20 :: u64) \<le> unat (heap_end fresh_heap))"
proof -
  obtain s' where s': "malloc 20 fresh_heap = Some (0x800010, s')" by (rule fresh_heap_malloc)
  with malloc_safe [OF fresh_heap_inv, of 20] fresh_heap_inv show ?thesis by auto
qed

text \<open>
  C24: \<open>calloc\<close> never returns a block smaller than the mathematical product of its
  arguments, however large they are: products that overflow are refused, and a returned
  block has all its bytes zero and overlaps no block in use.
\<close>

theorem calloc_safe:
  assumes "heap_inv s"
  shows "\<exists>p s'. calloc amount sz s = Some (p, s') \<and> heap_inv s'
    \<and> (if p = 0 then s' = s else allocated s (unat amount * unat sz) p s')"
  using calloc_outcome [OF assms, of amount sz] by (simp add: alloc_outcome_def)

theorem calloc_safe_witness:
  "heap_inv fresh_heap \<and> (\<exists>p s'. calloc 0x100000001 0x100000000 fresh_heap = Some (p, s') \<and> heap_inv s'
    \<and> (if p = 0 then s' = fresh_heap
       else allocated fresh_heap (unat (0x100000001 :: u64) * unat (0x100000000 :: u64)) p s'))"
  using calloc_safe [where s = fresh_heap and amount = "0x100000001" and sz = "0x100000000"]
    fresh_heap_inv by blast

text \<open>
  C2: \<open>free\<close> of a block in use returns (the search for its predecessor ends), merges the
  block with its free neighbours exactly as the abstract free does, clears the payload, and
  keeps every other block and all memory outside the heap.
\<close>

theorem free_refines_blocks:
  assumes "heap_rel s (xs @ (True, n) # ys)"
    and "unat p = unat (heap_beginning s) + span xs + 16"
  shows "\<exists>s'. free p s = Some s' \<and> heap_rel s' (free_blocks xs n ys) \<and> freed s p n s'"
  by (rule free_refines [OF assms]) blast

theorem free_refines_blocks_witness:
  "\<exists>s'. free 0x800010 one_block_heap = Some s' \<and> heap_rel s' [(False, 32)]
    \<and> freed one_block_heap 0x800010 32 s'"
  using free_refines_blocks [where s = one_block_heap and xs = "[]" and n = 32 and ys = "[]" and p = "0x800010"]
    one_block_heap_rel
  by (simp add: one_block_heap_def fresh_heap_def free_blocks_def merge_next_def)

text \<open>
  freeing a block a second time is harmless: the status byte is 0 (also when the block
  was merged away and its header cleared), so the second call changes nothing.
\<close>

theorem double_free_ignored:
  assumes "owns s p n" and "free p s = Some s'"
  shows "free p s' = Some s'"
proof -
  from assms(1) obtain xs ys where rel: "heap_rel s (xs @ (True, n) # ys)"
    and p: "unat p = unat (heap_beginning s) + span xs + 16"
    by (auto simp: owns_def)
  let ?b = "unat (heap_beginning s) + span (rest_pre xs)"
    and ?tot = "span (free_pre xs) + n + span (free_post ys)"
  obtain s2 where eff: "free p s = Some s2" "header (mem s2) ?b (False, ?tot)"
    "\<And>x. ?b + 16 \<le> unat x \<Longrightarrow> unat x < ?b + 16 + ?tot \<Longrightarrow> mem s2 x = 0"
    by (rule free_effect [OF rel p]) blast
  have a: "unat (p - 16) = ?b + span (free_pre xs)"
    using p span_pre [of xs] by (simp add: unat_minus_le word_le_nat_alt)
  consider "span (free_pre xs) = 0" | "16 \<le> span (free_pre xs)"
    by (cases "free_pre xs" rule: span.cases) auto
  then have "mem s2 (p - 16) = 0"
  proof cases
    case 1
    then have "p - 16 = of_nat ?b" using a by (metis add_0_right u64_of_nat_unat)
    with eff(2) show ?thesis by (simp add: header_def)
  next
    case 2
    then show ?thesis using owns_bounds(4) [OF assms(1)] by (intro eff(3)) (simp_all add: a)
  qed
  then show ?thesis
    using eff(1) assms(2) by (simp add: free_def alloc_status_def sizeof_alloc_t_def)
qed

theorem double_free_ignored_witness:
  "\<exists>s'. free 0x800010 one_block_heap = Some s' \<and> free 0x800010 s' = Some s'"
proof -
  obtain s' where s': "free 0x800010 one_block_heap = Some s'"
    by (rule free_owned [OF one_block_owns])
  with double_free_ignored [OF one_block_owns s'] show ?thesis by blast
qed

text \<open>
  C25: \<open>realloc\<close> of a block in use to a non-zero size returns; either it returns NULL and
  changes nothing, or it returns a block of at least the new size whose first bytes, up to
  the smaller of the two sizes, are those of the old block, while every other block in use is
  kept and differs from the new one.
\<close>

theorem realloc_preserves_contents:
  assumes "owns s p k" and "sz \<noteq> 0"
  shows "\<exists>q s'. realloc p sz s = Some (q, s') \<and> heap_inv s'
    \<and> (if q = 0 then s' = s else resized s p k q (unat sz) s')"
  by (rule realloc_outcome [OF assms])

theorem realloc_preserves_contents_witness:
  "\<exists>q s'. realloc 0x800010 64 one_block_heap = Some (q, s') \<and> heap_inv s'
    \<and> (if q = 0 then s' = one_block_heap else resized one_block_heap 0x800010 32 q (unat (64 :: u64)) s')"
  using realloc_preserves_contents [OF one_block_owns, of 64] by fastforce

text \<open>
  C3: whatever clients do with the heap (allocate, resize, free what they own or NULL, write
  into blocks they own or below the heap), in any order and however often, starting from the
  empty heap: the heap stays well formed, and a block in use stays in use, with the same
  contents, through every run that does not free, resize or write to that block itself.
\<close>

theorem heap_always_well_formed:
  assumes "heap_rel s0 []" and "heap_run s0 ps s" and "heap_run s qs t"
  shows "heap_inv t
    \<and> (\<forall>q k. owns s q k \<longrightarrow> q \<notin> set qs \<longrightarrow> owns t q k \<and> (\<forall>x \<in> region q k. mem t x = mem s x))"
proof -
  have "heap_inv s" using heap_run_keeps [OF assms(2)] assms(1) by (auto simp: heap_inv_def)
  from heap_run_keeps [OF assms(3) this] show ?thesis by (simp add: keeps_def)
qed

text \<open>One block of 20 bytes is allocated, then a second one is allocated and freed again.\<close>

theorem heap_always_well_formed_witness:
  "\<exists>s p r t k. malloc 20 fresh_heap = Some (0x800010, s) \<and> owns s 0x800010 k
    \<and> malloc 40 s = Some (p, r) \<and> free p r = Some t \<and> p \<noteq> 0x800010
    \<and> heap_inv t \<and> owns t 0x800010 k \<and> (\<forall>x \<in> region 0x800010 k. mem t x = mem s x)"
proof -
  obtain s where s: "malloc 20 fresh_heap = Some (0x800010, s)" and rel: "heap_rel s [(True, 32)]"
    by (rule fresh_heap_malloc)
  have sh: "heap_beginning s = 0x800000"
    using malloc_cases(3) [OF fresh_heap_inv s] allocated_heap_beginning
    by (fastforce simp: fresh_heap_def)
  have own: "owns s 0x800010 32" by (rule ownsI [of s "[]" 32 "[]"]) (simp_all add: rel sh)
  obtain p r where r: "malloc 40 s = Some (p, r)"
    using heap.alloc_returns [OF owns_heap_inv [OF own], of 40] by blast
  have p: "p = 0 \<or> (\<exists>k. owns r p k) \<and> p \<noteq> 0x800010"
    using heap.alloc_owns [OF owns_heap_inv [OF own] r] heap.alloc_keeps [OF owns_heap_inv [OF own] r _ own]
    by auto
  then obtain t where t: "free p r = Some t"
    using heap.dealloc_returns [of r p] by (cases "p = 0") (auto simp: free_def)
  have run0: "heap_run fresh_heap [0] s"
    using run_step [OF run_nil step_malloc [OF s]] by simp
  have run1: "heap_run s [0, p] t"
    using run_step [OF run_step [OF run_nil step_malloc [OF r]] step_free [OF _ t]] p by auto
  have "p \<noteq> 0x800010" using p by auto
  with heap_always_well_formed [OF fresh_heap_rel run0 run1] own s r t show ?thesis
    by (intro exI [of _ s] exI [of _ p] exI [of _ r] exI [of _ t] exI [of _ 32]) auto
qed

text \<open>
  Any number of \<open>malloc\<close> calls in a row return, and the blocks they return are all in
  use at the same time, large enough and pairwise different; blocks in use before keep their
  contents.
\<close>

theorem malloc_many_distinct:
  assumes "heap_inv (s :: 'a heap_scheme)"
  shows "\<exists>ps s'. alloc_all malloc ns s = Some (ps, s') \<and> heap_inv s'
    \<and> list_all2 (\<lambda>n p. p \<noteq> 0 \<longrightarrow> (\<exists>k\<ge>unat n. owns s' p k)) ns ps
    \<and> distinct (filter (\<lambda>p. p \<noteq> 0) ps)
    \<and> (\<forall>q j. owns s q j \<longrightarrow> owns s' q j \<and> q \<notin> set (filter (\<lambda>p. p \<noteq> 0) ps)
         \<and> (\<forall>x \<in> region q j. mem s' x = mem s x))"
  by (rule heap.alloc_all_owns [OF assms])

theorem malloc_many_distinct_witness:
  "\<exists>p q s'. alloc_all malloc [4096, 4096] fresh_heap = Some ([p, q], s') \<and> heap_inv s'
    \<and> (p = 0 \<or> q = 0 \<or> p \<noteq> q)"
proof -
  from malloc_many_distinct [OF fresh_heap_inv, of "[4096, 4096]"] obtain ps s' where
    "alloc_all malloc [4096, 4096] fresh_heap = Some (ps, s')" "heap_inv s'"
    "list_all2 (\<lambda>n p. p \<noteq> 0 \<longrightarrow> (\<exists>k\<ge>unat n. owns s' p k)) [4096 :: u64, 4096] ps"
    "distinct (filter (\<lambda>p. p \<noteq> 0) ps)" by (elim exE conjE) (rule that)
  then show ?thesis by (auto simp: list_all2_Cons1 split: if_splits)
qed

text \<open>
  A temporary block is invisible afterwards: after a successful \<open>malloc\<close>, \<open>free\<close> of
  the returned block returns with a well-formed heap in which every block that was in use
  before the pair of calls is still in use with the same contents.
\<close>

theorem malloc_free_transparent:
  assumes "heap_inv (s :: 'a heap_scheme)" and "malloc n s = Some (p, s1)" and "p \<noteq> 0"
  shows "\<exists>s2. free p s1 = Some s2 \<and> heap_inv s2
    \<and> (\<forall>q j. owns s q j \<longrightarrow> owns s2 q j \<and> (\<forall>x \<in> region q j. mem s2 x = mem s x))"
  by (rule heap.alloc_dealloc [OF assms])

theorem malloc_free_transparent_witness:
  "\<exists>s1 s2. malloc 20 fresh_heap = Some (0x800010, s1) \<and> free 0x800010 s1 = Some s2 \<and> heap_inv s2"
proof -
  obtain s1 where s1: "malloc 20 fresh_heap = Some (0x800010, s1)"
    by (rule fresh_heap_malloc)
  with malloc_free_transparent [OF fresh_heap_inv s1] show ?thesis by auto
qed

end
