(* ===== verification/Printf.thy ===== *)
theory Printf
  imports Terminal Libc_String
begin

text \<open>
  Formatted output: \<open>libc/stdio/putchar.c\<close>, \<open>printf.c\<close> and \<open>puts.c\<close>. A format string
  and a string argument are the byte lists before their NUL; the local \<open>char\<close> arrays of
  \<open>print_hex\<close> and \<open>print_decimal\<close> are lists of the declared length whose cells start
  indeterminate, and every access is checked. The specification \<open>render\<close> is the text a
  format stands for; \<open>printf\<close> is shown to put exactly that text on the screen.
\<close>

section \<open>Results and arguments\<close>

text \<open>
  A call returns an \<open>int\<close>, passes control to \<open>panic_msg\<close> with a message and a source
  line, or reaches undefined behaviour of C.
\<close>

datatype 's print_result = Return int 's | Panics string int 's | Undefined c_error

text \<open>
  A variadic argument as the callee finds it: a 64-bit slot, or a pointer to a string.
\<close>

datatype arg = Slot u64 | Str "u8 list"

definition EOF :: int where
  "EOF = -1"

section \<open>Characters\<close>

definition putchar :: "int \<Rightarrow> 'a tty_scheme \<Rightarrow> int \<times> 'a tty_scheme" where
  "putchar int_char s = (let c = of_int int_char in (int_char, terminal_write (\<lambda>_ _. c) 1 s))"

fun print :: "u8 list \<Rightarrow> 'a tty_scheme \<Rightarrow> bool \<times> 'a tty_scheme" where
  "print [] s = (True, s)"
| "print (b # bs) s =
     (let (r, s1) = putchar (uint b) s in if r = EOF then (False, s1) else print bs s1)"

section \<open>Local buffers\<close>

type_synonym buffer = "u8 option list"

definition buf_put :: "buffer \<Rightarrow> int \<Rightarrow> u8 \<Rightarrow> buffer option" where
  "buf_put buf pos c =
     (if 0 \<le> pos \<and> nat pos < length buf then Some (buf[nat pos := Some c]) else None)"

definition buf_get :: "buffer \<Rightarrow> int \<Rightarrow> u8 option" where
  "buf_get buf pos = (if 0 \<le> pos \<and> nat pos < length buf then buf ! nat pos else None)"

definition buf_bytes :: "buffer \<Rightarrow> int \<Rightarrow> u8 list option" where
  "buf_bytes buf pos =
     (if 0 \<le> pos \<and> nat pos \<le> length buf then those (take (nat pos) buf) else None)"

text \<open>The end of both number printers: terminate the buffer, print \<open>pos\<close> bytes of it.\<close>

definition print_buffer :: "buffer \<Rightarrow> int \<Rightarrow> 'a tty_scheme \<Rightarrow> 'a tty_scheme print_result" where
  "print_buffer buf pos s =
     (case buf_put buf pos 0 of
        None \<Rightarrow> Undefined Out_of_bounds
      | Some buf \<Rightarrow>
          (case buf_bytes buf pos of
             None \<Rightarrow> Undefined Out_of_bounds
           | Some bytes \<Rightarrow> (case print bytes s of
               (True, s1) \<Rightarrow> Return pos s1
             | (False, s1) \<Rightarrow> Return (-1) s1)))"

section \<open>Hexadecimal numbers\<close>

definition digits :: "u8 list" where
  "digits = cstr ''0123456789ABCDEF''"

function hex_loop :: "u64 \<Rightarrow> int \<Rightarrow> buffer \<Rightarrow> int \<Rightarrow> bool \<Rightarrow> (buffer \<times> int) option" where
  "hex_loop hex i buf pos started =
     (if i < 0 then Some (buf, pos)
      else
        let nibble = (ucast (drop_bit (nat i) hex AND 0xF) :: u8) in
        if nibble \<noteq> 0 \<or> started \<or> i = 0 then
          (case buf_put buf pos (digits ! unat nibble) of
             None \<Rightarrow> None
           | Some buf \<Rightarrow> hex_loop hex (i - 4) buf (pos + 1) True)
        else hex_loop hex (i - 4) buf pos started)"
  by pat_completeness auto
termination by (relation "measure (\<lambda>(_, i, _). nat (i + 4))") auto

declare hex_loop.simps [simp del]

definition print_hex :: "u64 \<Rightarrow> 'a tty_scheme \<Rightarrow> 'a tty_scheme print_result" where
  "print_hex hex s =
     (case hex_loop hex 60 (map Some (cstr ''0x'') @ replicate 17 None) 2 False of
        None \<Rightarrow> Undefined Out_of_bounds
      | Some (buf, pos) \<Rightarrow> print_buffer buf pos s)"

section \<open>Decimal numbers\<close>

function dec_loop :: "int \<Rightarrow> buffer \<Rightarrow> int \<Rightarrow> (buffer \<times> int) option" where
  "dec_loop dec temp temp_pos =
     (if dec > 0 then
        (case buf_put temp temp_pos (of_char CHR ''0'' + of_int (dec mod 10)) of
           None \<Rightarrow> None
         | Some temp \<Rightarrow> dec_loop (dec div 10) temp (temp_pos + 1))
      else Some (temp, temp_pos))"
  by pat_completeness auto
termination by (relation "measure (\<lambda>(dec, _). nat dec)") auto

declare dec_loop.simps [simp del]

function copy_back :: "buffer \<Rightarrow> int \<Rightarrow> buffer \<Rightarrow> int \<Rightarrow> (buffer \<times> int) option" where
  "copy_back temp temp_pos buf pos =
     (if temp_pos > 0 then
        (case buf_get temp (temp_pos - 1) of
           None \<Rightarrow> None
         | Some c \<Rightarrow> (case buf_put buf pos c of
             None \<Rightarrow> None
           | Some buf \<Rightarrow> copy_back temp (temp_pos - 1) buf (pos + 1)))
      else Some (buf, pos))"
  by pat_completeness auto
termination by (relation "measure (\<lambda>(_, temp_pos, _). nat temp_pos)") auto

declare copy_back.simps [simp del]

definition INT64_MIN :: int where
  "INT64_MIN = - 9223372036854775808"

text \<open>Digit extraction into \<open>temp\<close>, right to left.\<close>

definition dec_digits :: "int \<Rightarrow> (buffer \<times> int) option" where
  "dec_digits dec =
     (if dec = 0 then
        (case buf_put (replicate 20 None) 0 (of_char CHR ''0'') of
           None \<Rightarrow> None | Some temp \<Rightarrow> dec_loop dec temp 1)
      else dec_loop dec (replicate 20 None) 0)"

text \<open>The start of \<open>buffer\<close>: a minus sign for a negative number.\<close>

definition sign_buffer :: "bool \<Rightarrow> (buffer \<times> int) option" where
  "sign_buffer negative =
     (if negative then
        (case buf_put (replicate 21 None) 0 (of_char CHR ''-'') of
           None \<Rightarrow> None | Some buf \<Rightarrow> Some (buf, 1))
      else Some (replicate 21 None, 0))"

definition print_decimal :: "int \<Rightarrow> 'a tty_scheme \<Rightarrow> 'a tty_scheme print_result" where
  "print_decimal dec s =
     (if dec = INT64_MIN then Undefined Signed_overflow
      else
        let negative = dec < 0;
            dec = (if negative then - dec else dec)
        in case dec_digits dec of
             None \<Rightarrow> Undefined Out_of_bounds
           | Some (temp, temp_pos) \<Rightarrow> (case sign_buffer negative of
               None \<Rightarrow> Undefined Out_of_bounds
             | Some (buf, pos) \<Rightarrow> (case copy_back temp temp_pos buf pos of
                 None \<Rightarrow> Undefined Out_of_bounds
               | Some (buf, pos) \<Rightarrow> print_buffer buf pos s)))"

section \<open>printf\<close>

text \<open>\<open>format[i]\<close>: the byte at an index, NUL at the end of the list.\<close>

definition at :: "u8 list \<Rightarrow> nat \<Rightarrow> u8" where
  "at cs i = (if i < length cs then cs ! i else 0)"

text \<open>\<open>strlen\<close> of a string given as a byte list.\<close>

definition str_len :: "u8 list \<Rightarrow> nat" where
  "str_len cs = length (takeWhile (\<lambda>c. c \<noteq> 0) cs)"

text \<open>
  The inner loop: from index \<open>amount\<close> on, count up to the next NUL or \<open>%\<close>.
\<close>

function text_amount :: "u8 list \<Rightarrow> nat \<Rightarrow> nat" where
  "text_amount fmt amount =
     (if at fmt amount \<noteq> 0 \<and> at fmt amount \<noteq> of_char CHR ''%''
      then text_amount fmt (amount + 1) else amount)"
  by pat_completeness auto
termination by (relation "measure (\<lambda>(fmt, amount). length fmt - amount)") (auto simp: at_def split: if_splits)

declare text_amount.simps [simp del]

text \<open>After a number: \<open>if (len < 0) return -1; written += len;\<close>\<close>

definition add_written ::
  "int \<Rightarrow> 's print_result \<Rightarrow> (int \<Rightarrow> 's \<Rightarrow> 's print_result) \<Rightarrow> 's print_result" where
  "add_written written r cont =
     (case r of
        Return len s \<Rightarrow> if len < 0 then Return (-1) s
          else if written + len > INT_MAX then Undefined Signed_overflow
          else cont (written + len) s
      | Panics msg line s \<Rightarrow> Panics msg line s
      | Undefined e \<Rightarrow> Undefined e)"

text \<open>\<open>if (!print(data, n)) return -1;\<close> with the continuation for the other case.\<close>

definition print_or_fail ::
  "u8 list \<Rightarrow> 'a tty_scheme \<Rightarrow> ('a tty_scheme \<Rightarrow> 'a tty_scheme print_result) \<Rightarrow> 'a tty_scheme print_result" where
  "print_or_fail bytes s cont =
     (case print bytes s of (True, s1) \<Rightarrow> cont s1 | (False, s1) \<Rightarrow> Return (-1) s1)"

function printf_loop :: "u8 list \<Rightarrow> arg list \<Rightarrow> int \<Rightarrow> 'a tty_scheme \<Rightarrow> 'a tty_scheme print_result" where
  "printf_loop fmt args written s =
     (if at fmt 0 = 0 then Return written s
      else
        let maxrem = nat (INT_MAX - written) in
        if at fmt 0 \<noteq> of_char CHR ''%'' \<or> at fmt 1 = of_char CHR ''%'' then
          let fmt1 = (if at fmt 0 = of_char CHR ''%'' then drop 1 fmt else fmt);
              amount = text_amount fmt1 1
          in if maxrem < amount then Panics ''Overflow Error'' 149 s
             else print_or_fail (take amount fmt1) s
               (\<lambda>s1. printf_loop (drop amount fmt1) args (written + int amount) s1)
        else if at fmt 1 = of_char CHR ''c'' then
          (case args of
             Slot v # args' \<Rightarrow>
               if maxrem = 0 then Panics ''Overflow Error'' 176 s
               else print_or_fail [ucast v] s
                 (\<lambda>s1. printf_loop (drop 2 fmt) args' (written + 1) s1)
           | _ \<Rightarrow> Undefined Bad_vararg)
        else if at fmt 1 = of_char CHR ''s'' then
          (case args of
             Str str # args' \<Rightarrow>
               if maxrem < str_len str then Return (-1) s
               else print_or_fail (take (str_len str) str) s
                 (\<lambda>s1. printf_loop (drop 2 fmt) args' (written + int (str_len str)) s1)
           | _ \<Rightarrow> Undefined Bad_vararg)
        else if at fmt 1 = of_char CHR ''x'' then
          (case args of
             Slot v # args' \<Rightarrow> add_written written (print_hex v s) (printf_loop (drop 2 fmt) args')
           | _ \<Rightarrow> Undefined Bad_vararg)
        else if at fmt 1 = of_char CHR ''d'' then
          (case args of
             Slot v # args' \<Rightarrow> add_written written (print_decimal (sint v) s) (printf_loop (drop 2 fmt) args')
           | _ \<Rightarrow> Undefined Bad_vararg)
        else if maxrem < str_len fmt then Return (-1) s
        else print_or_fail (take (str_len fmt) fmt) s
          (\<lambda>s1. printf_loop (drop (str_len fmt) fmt) args (written + int (str_len fmt)) s1))"
  by pat_completeness auto

lemma text_amount_ge: "amount \<le> text_amount fmt amount"
proof (induction fmt amount rule: text_amount.induct)
  case (1 fmt amount)
  then show ?case by (subst text_amount.simps) auto
qed

lemma at_0_length: "at fmt 0 \<noteq> 0 \<Longrightarrow> 0 < length fmt"
  by (auto simp: at_def split: if_splits)

lemma str_len_pos: "at fmt 0 \<noteq> 0 \<Longrightarrow> 0 < str_len fmt"
  by (cases fmt) (auto simp: at_def str_len_def)

lemma at_percent: "at fmt 0 = 37 \<Longrightarrow> fmt \<noteq> [] \<and> 0 < str_len fmt"
  using str_len_pos [of fmt] by (auto simp: at_def)

termination printf_loop
proof (relation "measure (\<lambda>(fmt, _). length fmt)", goal_cases)
  case (2 fmt args written s maxrem fmt1 amount s1)
  then have "0 < amount" using text_amount_ge [of 1 fmt1] by simp
  with 2 at_0_length [of fmt] show ?case by auto
qed (auto dest: at_percent)

declare printf_loop.simps [simp del]

definition printf :: "u8 list \<Rightarrow> arg list \<Rightarrow> 'a tty_scheme \<Rightarrow> 'a tty_scheme print_result" where
  "printf fmt args s = printf_loop fmt args 0 s"

definition puts :: "u8 list \<Rightarrow> 'a tty_scheme \<Rightarrow> 'a tty_scheme print_result" where
  "puts string s = printf (cstr [CHR ''%'', CHR ''s'', CHR 0x0A]) [Str string] s"

section \<open>Numerals\<close>

text \<open>The digits of a number, most significant first, without leading zeros; and back.\<close>

fun numeral_of :: "nat \<Rightarrow> nat \<Rightarrow> u8 list" where
  "numeral_of b n = (if n < b \<or> b \<le> 1 then [digits ! n]
     else numeral_of b (n div b) @ [digits ! (n mod b)])"

declare numeral_of.simps [simp del]

fun digit_value :: "u8 \<Rightarrow> u8 list \<Rightarrow> nat" where
  "digit_value c [] = 0"
| "digit_value c (d # ds) = (if c = d then 0 else Suc (digit_value c ds))"

definition value_of :: "nat \<Rightarrow> u8 list \<Rightarrow> nat" where
  "value_of b cs = foldl (\<lambda>v c. b * v + digit_value c digits) 0 cs"

lemma digits_table [code_unfold]:
  "digits = [48, 49, 50, 51, 52, 53, 54, 55, 56, 57, 65, 66, 67, 68, 69, 70]"
  by (simp add: digits_def cstr_def)

lemma less_16_cases: "n < 16 \<Longrightarrow> n \<in> {0, 1, 2, 3, 4, 5, 6, 7, 8, 9, 10, 11, 12, 13, 14, 15 :: nat}"
  by (simp add: numeral_eq_Suc less_Suc_eq)

lemma digit_value_digit: "n < 16 \<Longrightarrow> digit_value (digits ! n) digits = n"
  using less_16_cases [of n] by (auto simp: digits_table)

lemma digit_decimal: "n < 10 \<Longrightarrow> of_char CHR ''0'' + of_nat n = digits ! n"
  using less_16_cases [of n] by (auto simp: digits_table)

lemma value_of_snoc [simp]: "value_of b (cs @ [c]) = b * value_of b cs + digit_value c digits"
  by (simp add: value_of_def)

lemma value_of_numeral_of:
  assumes "1 < b" and "b \<le> 16"
  shows "value_of b (numeral_of b n) = n"
proof (induction n rule: less_induct)
  case (less n)
  show ?case
  proof (cases "n < b")
    case True
    with assms show ?thesis
      by (subst numeral_of.simps) (simp add: value_of_def digit_value_digit)
  next
    case False
    have "n mod b < 16" using assms mod_less_divisor [of b n] by linarith
    with False assms less [of "n div b"] show ?thesis
      by (subst numeral_of.simps) (simp add: digit_value_digit)
  qed
qed

lemma numeral_of_nonempty [simp]: "numeral_of b n \<noteq> []"
  by (subst numeral_of.simps) simp

lemma length_numeral_of: "1 < b \<Longrightarrow> n < b ^ k \<Longrightarrow> 0 < k \<Longrightarrow> length (numeral_of b n) \<le> k"
proof (induction k arbitrary: n)
  case (Suc k)
  show ?case
  proof (cases "n < b")
    case False
    with Suc.prems have "k \<noteq> 0" by (cases k) auto
    moreover have "n div b < b ^ k"
      using Suc.prems by (simp add: less_mult_imp_div_less mult.commute)
    ultimately have "length (numeral_of b (n div b)) \<le> k" using Suc by simp
    with False Suc.prems show ?thesis by (subst numeral_of.simps) simp
  qed (use Suc.prems in \<open>subst numeral_of.simps, simp\<close>)
qed simp

text \<open>No leading zero, except in the numeral of zero.\<close>

lemma hd_numeral_of:
  assumes "1 < b" and "b \<le> 16" and "0 < n"
  shows "hd (numeral_of b n) \<noteq> 48"
  using assms(3)
proof (induction n rule: less_induct)
  case (less n)
  show ?case
  proof (cases "n < b")
    case True
    have "digits ! n \<noteq> 48"
      using less_16_cases [of n] True assms less.prems by (auto simp: digits_table)
    with True show ?thesis by (subst numeral_of.simps) simp
  next
    case False
    with assms have "hd (numeral_of b (n div b)) \<noteq> 48"
      by (intro less.IH) (simp_all add: div_greater_zero_iff)
    with False assms show ?thesis by (subst numeral_of.simps) simp
  qed
qed

section \<open>Printing bytes and buffers\<close>

lemma putchar_put: "putchar c s = (c, terminal_put_char (of_int c) s)"
  by (simp add: putchar_def terminal_write_def)

lemma print_put_chars: "print bs s = (True, put_chars bs s)"
proof (induction bs arbitrary: s)
  case (Cons b bs)
  have "uint b \<noteq> -1" using uint_ge_0 [of b] by linarith
  with Cons show ?case by (simp add: putchar_put EOF_def put_chars_Cons)
qed simp

lemma print_or_fail_eq [simp]: "print_or_fail bs s cont = cont (put_chars bs s)"
  by (simp add: print_or_fail_def print_put_chars)

text \<open>A buffer filled with known bytes from the left, \<open>r\<close> cells left.\<close>

abbreviation filled :: "u8 list \<Rightarrow> nat \<Rightarrow> buffer" where
  "filled cs r \<equiv> map Some cs @ replicate r None"

lemma buf_put_filled:
  assumes "pos = int (length cs)" and "0 < r"
  shows "buf_put (filled cs r) pos c = Some (filled (cs @ [c]) (r - 1))"
  using assms by (cases r) (simp_all add: buf_put_def list_update_append)

lemma those_Some [simp]: "those (map Some cs) = Some cs"
  by (induction cs) simp_all

lemma print_buffer_filled:
  assumes "pos = int (length cs)" and "0 < r"
  shows "print_buffer (filled cs r) pos s = Return pos (put_chars cs s)"
  unfolding print_buffer_def buf_put_filled [OF assms]
  using assms by (simp add: buf_bytes_def print_put_chars)

section \<open>The number printers\<close>

text \<open>The digits written when \<open>k\<close> nibbles remain.\<close>

definition hex_done :: "u64 \<Rightarrow> nat \<Rightarrow> u8 list" where
  "hex_done hex k = (if 0 < k \<and> unat hex div 16 ^ k = 0 then [] else numeral_of 16 (unat hex div 16 ^ k))"

lemma nibble_value: "unat (ucast (drop_bit (4 * k) (hex :: u64) AND 0xF) :: u8) = unat hex div 16 ^ k mod 16"
proof -
  have "drop_bit (4 * k) hex AND 0xF = take_bit 4 (drop_bit (4 * k) hex)"
    by (simp add: take_bit_eq_mask mask_eq_exp_minus_1)
  moreover have "unat (take_bit 4 (drop_bit (4 * k) hex)) = take_bit 4 (drop_bit (4 * k) (unat hex))"
    by (simp add: unsigned_take_bit_eq unsigned_drop_bit_eq take_bit_nat_eq_self)
  then have "unat (take_bit 4 (drop_bit (4 * k) hex)) = unat hex div 16 ^ k mod 16"
    by (simp add: take_bit_eq_mod [where 'a = nat] drop_bit_eq_div [where 'a = nat] power_mult)
  moreover have "unat (ucast w :: u8) = unat w" if "unat w < 256" for w :: u64
    using that by (simp add: unsigned_ucast_eq take_bit_nat_eq_self)
  ultimately show ?thesis by simp
qed

lemma hex_done_step:
  "hex_done hex k = (if unat hex div 16 ^ k mod 16 \<noteq> 0 \<or> hex_done hex (Suc k) \<noteq> [] \<or> k = 0
     then hex_done hex (Suc k) @ [digits ! (unat hex div 16 ^ k mod 16)] else [])"
proof -
  define v where "v = unat hex div 16 ^ k"
  have div: "unat hex div 16 ^ Suc k = v div 16"
    unfolding v_def power_Suc2 by (simp only: div_mult2_eq)
  show ?thesis
  proof (cases "v < 16")
    case True
    then have "hex_done hex (Suc k) = []" by (simp add: hex_done_def div del: power_Suc)
    moreover have "hex_done hex k = (if 0 < k \<and> v = 0 then [] else [digits ! v])"
      using True unfolding hex_done_def v_def [symmetric] by (simp add: numeral_of.simps [of 16 v])
    ultimately show ?thesis using True by (auto simp: v_def [symmetric])
  next
    case False
    then have "v div 16 \<noteq> 0" by (simp add: div_eq_0_iff)
    then have "hex_done hex (Suc k) = numeral_of 16 (v div 16)"
      by (simp add: hex_done_def div del: power_Suc)
    moreover have "hex_done hex k = numeral_of 16 (v div 16) @ [digits ! (v mod 16)]"
      using False unfolding hex_done_def v_def [symmetric] by (simp add: numeral_of.simps [of 16 v])
    ultimately show ?thesis by (simp add: v_def [symmetric])
  qed
qed

lemma hex_loop_step:
  "hex_loop hex (4 * int k) buf pos started =
    (if unat hex div 16 ^ k mod 16 \<noteq> 0 \<or> started \<or> k = 0
     then (case buf_put buf pos (digits ! (unat hex div 16 ^ k mod 16)) of
             None \<Rightarrow> None | Some buf \<Rightarrow> hex_loop hex (4 * int k - 4) buf (pos + 1) True)
     else hex_loop hex (4 * int k - 4) buf pos started)"
proof -
  let ?nib = "ucast (drop_bit (4 * k) hex AND 0xF) :: u8"
  have "?nib = 0 \<longleftrightarrow> unat hex div 16 ^ k mod 16 = 0"
    using nibble_value [of k hex] by (metis unsigned_0 unsigned_eq_0_iff)
  moreover have "nat (4 * int k) = 4 * k" by simp
  ultimately show ?thesis
    by (subst hex_loop.simps) (simp only: Let_def nibble_value, simp)
qed

lemma hex_loop_numeral:
  assumes "k \<le> r"
  shows "\<exists>r' \<ge> r - k. hex_loop hex (4 * int k - 4) (filled (pre @ hex_done hex k) r)
      (int (length pre + length (hex_done hex k))) (hex_done hex k \<noteq> [])
    = Some (filled (pre @ hex_done hex 0) r', int (length pre + length (hex_done hex 0)))"
  using assms
proof (induction k arbitrary: r)
  case 0
  show ?case by (subst hex_loop.simps) (intro exI [of _ r], simp)
next
  case (Suc k)
  have i: "4 * int (Suc k) - 4 = 4 * int k" by simp
  show ?case
  proof (cases "unat hex div 16 ^ k mod 16 \<noteq> 0 \<or> hex_done hex (Suc k) \<noteq> [] \<or> k = 0")
    case True
    then have step: "hex_done hex k = hex_done hex (Suc k) @ [digits ! (unat hex div 16 ^ k mod 16)]"
      by (subst hex_done_step) simp
    from Suc.prems have "k \<le> r - 1" "0 < r" by auto
    with Suc.IH [of "r - 1"] True step buf_put_filled [of _ "pre @ hex_done hex (Suc k)" r]
    show ?thesis
      by (simp only: i hex_loop_step if_True) (simp add: add.commute)
  next
    case False
    then have step: "hex_done hex (Suc k) = []" "hex_done hex k = []"
      by simp (subst hex_done_step, use False in simp)
    from Suc.prems Suc.IH [of r] obtain r' where "r - k \<le> r'"
      "hex_loop hex (4 * int k - 4) (filled (pre @ hex_done hex k) r)
        (int (length pre + length (hex_done hex k))) (hex_done hex k \<noteq> [])
       = Some (filled (pre @ hex_done hex 0) r', int (length pre + length (hex_done hex 0)))" by auto
    with False step show ?thesis
      by (intro exI [of _ r'], simp only: i hex_loop_step if_False) simp
  qed
qed

lemma print_hex_numeral:
  "print_hex hex s = Return (int (2 + length (numeral_of 16 (unat hex))))
     (put_chars (cstr ''0x'' @ numeral_of 16 (unat hex)) s)"
proof -
  have "unat hex div 16 ^ 16 = 0" by (simp add: div_eq_0_iff)
  then have start: "hex_done hex 16 = []" by (simp add: hex_done_def)
  have done0: "hex_done hex 0 = numeral_of 16 (unat hex)" by (simp add: hex_done_def)
  from hex_loop_numeral [of 16 17 hex "cstr ''0x''"] start done0
  obtain r' where r': "1 \<le> r'" and
    "hex_loop hex 60 (filled (cstr ''0x'') 17) 2 False
      = Some (filled (cstr ''0x'' @ numeral_of 16 (unat hex)) r', int (2 + length (numeral_of 16 (unat hex))))"
    by (auto simp: cstr_def)
  then have "print_hex hex s = print_buffer (filled (cstr ''0x'' @ numeral_of 16 (unat hex)) r')
      (int (2 + length (numeral_of 16 (unat hex)))) s"
    by (simp add: print_hex_def)
  with r' print_buffer_filled [of _ "cstr ''0x'' @ numeral_of 16 (unat hex)" r' s] show ?thesis
    by (simp add: cstr_def)
qed

lemma dec_loop_numeral:
  assumes "0 < n" and "length (numeral_of 10 n) \<le> r"
  shows "dec_loop (int n) (filled xs r) (int (length xs))
    = Some (filled (xs @ rev (numeral_of 10 n)) (r - length (numeral_of 10 n)),
            int (length xs + length (numeral_of 10 n)))"
  using assms
proof (induction n arbitrary: xs r rule: less_induct)
  case (less n)
  let ?d = "of_char CHR ''0'' + of_int (int n mod 10)"
  have d: "?d = digits ! (n mod 10)"
  proof -
    have "int n mod 10 = int (n mod 10)" by (simp add: of_nat_mod)
    with digit_decimal [of "n mod 10"] show ?thesis by (simp only: of_int_of_nat_eq)
  qed
  have r: "0 < r" using less.prems(2) by (metis le_zero_eq length_0_conv not_gr_zero numeral_of_nonempty)
  have put: "buf_put (filled xs r) (int (length xs)) ?d = Some (filled (xs @ [digits ! (n mod 10)]) (r - 1))"
    using buf_put_filled [of _ xs r] r d by simp
  have quot: "int n div 10 = int (n div 10)" by (simp add: zdiv_int)
  show ?case
  proof (cases "n < 10")
    case True
    then have "numeral_of 10 n = [digits ! n]" by (simp add: numeral_of.simps)
    moreover have "int n div 10 = 0" using True by simp
    ultimately show ?thesis
      using less.prems True put
      by (subst dec_loop.simps) (simp add: dec_loop.simps [of 0])
  next
    case False
    then have num: "numeral_of 10 n = numeral_of 10 (n div 10) @ [digits ! (n mod 10)]"
      by (subst numeral_of.simps) simp
    with False less.prems less.IH [of "n div 10" "r - 1" "xs @ [digits ! (n mod 10)]"]
    have "dec_loop (int (n div 10)) (filled (xs @ [digits ! (n mod 10)]) (r - 1)) (int (length xs) + 1)
        = Some (filled (xs @ rev (numeral_of 10 n)) (r - length (numeral_of 10 n)),
            int (length xs + length (numeral_of 10 n)))"
      by (simp add: add.commute)
    with put less.prems show ?thesis
      by (subst dec_loop.simps) (simp add: quot)
  qed
qed

lemma copy_back_rev:
  assumes "length xs \<le> r"
  shows "copy_back (map Some xs @ rest) (int (length xs)) (filled ys r) (int (length ys))
    = Some (filled (ys @ rev xs) (r - length xs), int (length ys + length xs))"
  using assms
proof (induction xs arbitrary: rest ys r rule: rev_induct)
  case Nil
  show ?case by (subst copy_back.simps) simp
next
  case (snoc x xs)
  from snoc.prems have "buf_put (filled ys r) (int (length ys)) x = Some (filled (ys @ [x]) (r - 1))"
    by (intro buf_put_filled) auto
  moreover have "buf_get (map Some (xs @ [x]) @ rest) (int (length xs)) = Some x"
    by (simp add: buf_get_def nth_append)
  ultimately show ?case
    using snoc.IH [of "r - 1" "Some x # rest" "ys @ [x]"] snoc.prems
    by (subst copy_back.simps) (simp add: add.commute)
qed

text \<open>The decimal text of a signed number.\<close>

definition signed_text :: "int \<Rightarrow> u8 list" where
  "signed_text dec = (if dec < 0 then [45] else []) @ numeral_of 10 (nat \<bar>dec\<bar>)"

lemma length_numeral_19: "n < 9223372036854775808 \<Longrightarrow> length (numeral_of 10 n) \<le> 19"
  by (rule length_numeral_of) simp_all

lemma dec_digits_numeral:
  assumes "length (numeral_of 10 n) \<le> 19"
  obtains r where "dec_digits (int n) = Some (map Some (rev (numeral_of 10 n)) @ r, int (length (numeral_of 10 n)))"
proof (cases "n = 0")
  case True
  then show thesis
    using buf_put_filled [of 0 "[]" 20 48] that
    by (simp add: dec_digits_def dec_loop.simps [of 0] numeral_of.simps digits_table)
next
  case False
  with dec_loop_numeral [of n 20 "[]"] assms that show thesis by (simp add: dec_digits_def)
qed

lemma sign_buffer_filled:
  "sign_buffer neg = Some (filled (if neg then [45] else []) (if neg then 20 else 21), if neg then 1 else 0)"
  using buf_put_filled [of 0 "[]" 21 45] by (simp add: sign_buffer_def)

lemma print_decimal_numeral:
  assumes "\<bar>dec\<bar> < 9223372036854775808"
  shows "print_decimal dec s = Return (int (length (signed_text dec))) (put_chars (signed_text dec) s)"
proof -
  define n where "n = nat \<bar>dec\<bar>"
  let ?num = "numeral_of 10 n"
  have abs: "(if dec < 0 then - dec else dec) = int n" and min: "dec \<noteq> INT64_MIN"
    using assms by (auto simp: n_def INT64_MIN_def)
  have len: "length ?num \<le> 19"
    using assms by (intro length_numeral_19) (simp add: n_def)
  obtain r where temp: "dec_digits (int n) = Some (map Some (rev ?num) @ r, int (length ?num))"
    by (rule dec_digits_numeral [OF len])
  define sign :: "u8 list" where "sign = (if dec < 0 then [45] else [])"
  define room where "room = (if dec < 0 then 20 else 21 :: nat)"
  have buf: "sign_buffer (dec < 0) = Some (filled sign room, int (length sign))"
    by (simp add: sign_buffer_filled sign_def room_def)
  have copy: "copy_back (map Some (rev ?num) @ r) (int (length ?num)) (filled sign room) (int (length sign))
      = Some (filled (sign @ ?num) (room - length ?num), int (length sign + length ?num))"
    using copy_back_rev [of "rev ?num" room r sign] len by (simp add: room_def)
  have "print_decimal dec s = print_buffer (filled (sign @ ?num) (room - length ?num))
      (int (length sign + length ?num)) s"
    by (simp only: print_decimal_def Let_def abs min temp buf copy if_False option.case prod.case)
  also have "\<dots> = Return (int (length sign + length ?num)) (put_chars (sign @ ?num) s)"
    by (rule print_buffer_filled) (use len in \<open>simp_all add: room_def\<close>)
  finally show ?thesis by (simp add: signed_text_def sign_def n_def)
qed

section \<open>What a format stands for\<close>

fun render :: "u8 list \<Rightarrow> arg list \<Rightarrow> u8 list option" where
  "render [] args = Some []"
| "render (c # cs) args =
     (if c \<noteq> 37 then map_option ((#) c) (render cs args)
      else case cs of
        [] \<Rightarrow> Some [c]
      | d # ds \<Rightarrow>
          if d = 37 then map_option ((#) 37) (render ds args)
          else if d = 99 then
            (case args of Slot v # args' \<Rightarrow> map_option ((#) (ucast v)) (render ds args') | _ \<Rightarrow> None)
          else if d = 115 then
            (case args of Str str # args' \<Rightarrow> map_option ((@) (takeWhile (\<lambda>c. c \<noteq> 0) str)) (render ds args') | _ \<Rightarrow> None)
          else if d = 120 then
            (case args of Slot v # args' \<Rightarrow> map_option ((@) (cstr ''0x'' @ numeral_of 16 (unat v))) (render ds args') | _ \<Rightarrow> None)
          else if d = 100 then
            (case args of Slot v # args' \<Rightarrow>
               if sint v = INT64_MIN then None else map_option ((@) (signed_text (sint v))) (render ds args')
             | _ \<Rightarrow> None)
          else Some (c # cs))"

lemma text_amount_run:
  "text_amount fmt amount = amount + length (takeWhile (\<lambda>c. c \<noteq> 0 \<and> c \<noteq> 37) (drop amount fmt))"
proof (induction fmt amount rule: text_amount.induct)
  case (1 fmt amount)
  show ?case
  proof (cases "amount < length fmt")
    case True
    then have "drop amount fmt = fmt ! amount # drop (Suc amount) fmt" by (simp add: Cons_nth_drop_Suc)
    with 1 True show ?thesis by (subst text_amount.simps) (auto simp: at_def)
  qed (subst text_amount.simps, simp add: at_def)
qed

lemma render_run: "37 \<notin> set run \<Longrightarrow> render (run @ rest) args = map_option ((@) run) (render rest args)"
  by (induction run; cases "render rest args") auto

lemma sint_abs: "sint (v :: u64) \<noteq> INT64_MIN \<Longrightarrow> \<bar>sint v\<bar> < 9223372036854775808"
  using sint_greater_eq [of v] sint_less [of v] by (simp add: INT64_MIN_def)

lemma at_Cons [simp]: "at (c # cs) 0 = c" "at (c # cs) (Suc i) = at cs i" "at [] i = 0"
  by (auto simp: at_def)

lemma str_len_no_nul: "0 \<notin> set cs \<Longrightarrow> str_len cs = length cs"
  unfolding str_len_def by (induction cs) auto

lemma take_str_len: "take (str_len cs) cs = takeWhile (\<lambda>c. c \<noteq> 0) cs"
  unfolding str_len_def by (induction cs) auto

text \<open>The loop on a run of plain text, introduced by an ordinary character or by \<open>%%\<close>.\<close>

lemma printf_loop_text:
  assumes "fmt = x # run @ rest \<and> x \<noteq> 37 \<or> fmt = 37 # x # run @ rest \<and> x = 37"
    and "0 \<notin> set fmt" and "37 \<notin> set run" and "rest = [] \<or> hd rest = 37"
    and "0 \<le> w" and "w + int (length (x # run)) \<le> INT_MAX"
  shows "printf_loop fmt args w s = printf_loop rest args (w + int (length (x # run))) (put_chars (x # run) s)"
proof -
  have "takeWhile (\<lambda>c. c \<noteq> 0 \<and> c \<noteq> 37) (run @ rest) = run"
    using assms(1-4) by (cases rest) (auto simp: takeWhile_append)
  then have amount: "text_amount (x # run @ rest) 1 = length (x # run)"
    by (simp add: text_amount_run)
  have fmt1: "(if at fmt 0 = of_char CHR ''%'' then drop 1 fmt else fmt) = x # run @ rest"
    and guard: "at fmt 0 \<noteq> of_char CHR ''%'' \<or> at fmt 1 = of_char CHR ''%''" and nz: "at fmt 0 \<noteq> 0"
    using assms(1,2) by auto
  have room: "\<not> nat (INT_MAX - w) < length (x # run)" using assms(5,6) by simp
  show ?thesis
    by (subst printf_loop.simps)
      (simp only: nz guard Let_def fmt1 amount room if_True if_False print_or_fail_eq, simp)
qed

text \<open>The loop on a conversion.\<close>

lemma printf_loop_conversion:
  "printf_loop (37 # 99 # ds) (Slot v # args) w s =
     (if nat (INT_MAX - w) = 0 then Panics ''Overflow Error'' 176 s
      else printf_loop ds args (w + 1) (put_chars [ucast v] s))"
  "printf_loop (37 # 115 # ds) (Str str # args) w s =
     (if nat (INT_MAX - w) < str_len str then Return (-1) s
      else printf_loop ds args (w + int (str_len str)) (put_chars (takeWhile (\<lambda>c. c \<noteq> 0) str) s))"
  "printf_loop (37 # 120 # ds) (Slot v # args) w s = add_written w (print_hex v s) (printf_loop ds args)"
  "printf_loop (37 # 100 # ds) (Slot v # args) w s = add_written w (print_decimal (sint v) s) (printf_loop ds args)"
  by (subst printf_loop.simps, simp add: Let_def take_str_len)+

text \<open>A \<open>%\<close> that introduces no conversion: the rest of the format is printed as it is.\<close>

lemma printf_loop_other:
  assumes "0 \<notin> set cs" and "cs = [] \<or> hd cs \<notin> {37, 99, 115, 120, 100}"
    and "0 \<le> w" and "w + int (Suc (length cs)) \<le> INT_MAX"
  shows "printf_loop (37 # cs) args w s = Return (w + int (Suc (length cs))) (put_chars (37 # cs) s)"
proof -
  have len: "str_len (37 # cs) = Suc (length cs)"
    using str_len_no_nul [of "37 # cs"] assms(1) by simp
  have at1: "at cs 0 \<notin> {37, 99, 115, 120, 100}" using assms(2) by (cases cs) auto
  have "\<not> nat (INT_MAX - w) < Suc (length cs)" using assms(3,4) by simp
  with at1 len show ?thesis
    by (subst printf_loop.simps) (simp add: Let_def printf_loop.simps [of "[]"])
qed

lemma add_written_Return:
  "0 \<le> n \<Longrightarrow> w + n \<le> INT_MAX \<Longrightarrow> add_written w (Return n s) cont = cont (w + n) s"
  by (simp add: add_written_def)

lemma split_run:
  obtains run rest where "cs = run @ rest" and "37 \<notin> set run" and "rest = [] \<or> hd rest = (37 :: u8)"
proof
  show "cs = takeWhile (\<lambda>c. c \<noteq> 37) cs @ dropWhile (\<lambda>c. c \<noteq> 37) cs" by simp
  show "37 \<notin> set (takeWhile (\<lambda>c. c \<noteq> 37) cs)" using set_takeWhileD by fastforce
  show "dropWhile (\<lambda>c. c \<noteq> 37) cs = [] \<or> hd (dropWhile (\<lambda>c. c \<noteq> 37) cs) = 37"
    using hd_dropWhile [of "\<lambda>c. c \<noteq> 37" cs] by auto
qed

lemma printf_loop_piece:
  assumes "fmt = 37 # d # ds" and "d \<in> {99, 115, 120, 100}" and "render fmt args = Some out"
    and "0 \<le> w" and "w + int (length out) \<le> INT_MAX"
  obtains piece args' rest_out where "out = piece @ rest_out" and "render ds args' = Some rest_out"
    and "printf_loop fmt args w s = printf_loop ds args' (w + int (length piece)) (put_chars piece s)"
proof -
  from assms(2) consider "d = 99" | "d = 115" | "d = 120" | "d = 100" by blast
  then show thesis
  proof cases
    case 1
    then obtain v args' out' where "args = Slot v # args'" "render ds args' = Some out'" "out = ucast v # out'"
      using assms(1,3) by (auto split: list.splits arg.splits)
    with 1 assms that [of "[ucast v]" out' args'] show thesis by (simp add: printf_loop_conversion(1))
  next
    case 2
    then obtain str args' out' where "args = Str str # args'" "render ds args' = Some out'"
      "out = takeWhile (\<lambda>c. c \<noteq> 0) str @ out'"
      using assms(1,3) by (auto split: list.splits arg.splits)
    moreover from this assms have "\<not> nat (INT_MAX - w) < str_len str" by (simp add: str_len_def)
    ultimately show thesis
      using 2 assms that [of "takeWhile (\<lambda>c. c \<noteq> 0) str" out' args']
      by (simp add: printf_loop_conversion(2)) (simp add: str_len_def)
  next
    case 3
    then obtain v args' out' where "args = Slot v # args'" "render ds args' = Some out'"
      "out = (cstr ''0x'' @ numeral_of 16 (unat v)) @ out'"
      using assms(1,3) by (auto split: list.splits arg.splits)
    with 3 assms that [of "cstr ''0x'' @ numeral_of 16 (unat v)" out' args'] show thesis
      by (simp add: printf_loop_conversion(3) print_hex_numeral add_written_Return cstr_def)
  next
    case 4
    then obtain v args' out' where "args = Slot v # args'" "render ds args' = Some out'"
      "out = signed_text (sint v) @ out'" "sint v \<noteq> INT64_MIN"
      using assms(1,3) by (auto split: list.splits arg.splits if_splits)
    with 4 assms that [of "signed_text (sint v)" out' args'] show thesis
      by (simp add: printf_loop_conversion(4) print_decimal_numeral [OF sint_abs] add_written_Return)
  qed
qed

text \<open>The shapes a format can have.\<close>

lemma format_cases:
  obtains (empty) "fmt = []"
  | (other) cs where "fmt = 37 # cs" and "cs = [] \<or> hd cs \<notin> {37, 99, 115, 120, 100}"
  | (plain) x run rest where "fmt = x # run @ rest \<and> x \<noteq> 37 \<or> fmt = 37 # x # run @ rest \<and> x = 37"
      and "37 \<notin> set run" and "rest = [] \<or> hd rest = (37 :: u8)"
  | (conv) d ds where "fmt = 37 # d # ds" and "d \<in> {99, 115, 120, 100}"
proof (cases fmt)
  case (Cons c cs)
  obtain run rest where split: "cs = run @ rest" "37 \<notin> set run" "rest = [] \<or> hd rest = 37"
    by (rule split_run)
  show thesis
  proof (cases "c = 37")
    case False
    with Cons split plain show thesis by blast
  next
    case c: True
    show thesis
    proof (cases "cs = [] \<or> hd cs \<notin> {37, 99, 115, 120, 100}")
      case False
      then obtain d ds where cs: "cs = d # ds" "d \<in> {37, 99, 115, 120, 100}" by (cases cs) auto
      obtain run rest where "ds = run @ rest" "37 \<notin> set run" "rest = [] \<or> hd rest = 37"
        by (rule split_run)
      with c Cons cs plain [of 37 run rest] conv [of d ds] show thesis by (cases "d = 37") auto
    qed (use c Cons other in blast)
  qed
qed (rule empty)

lemma render_plain:
  assumes "fmt = x # run @ rest \<and> x \<noteq> 37 \<or> fmt = 37 # x # run @ rest \<and> x = 37" and "37 \<notin> set run"
  shows "render fmt args = map_option ((@) (x # run)) (render rest args)"
proof -
  from assms(1) have "render fmt args = map_option ((#) x) (render (run @ rest) args)" by auto
  with render_run [OF assms(2), of rest args] show ?thesis by (cases "render rest args") auto
qed

lemma render_other:
  "cs = [] \<or> hd cs \<notin> {37, 99, 115, 120, 100} \<Longrightarrow> render (37 # cs) args = Some (37 # cs)"
  by (cases cs) auto

lemma printf_loop_render:
  assumes "0 \<notin> set fmt" and "render fmt args = Some out"
    and "0 \<le> w" and "w + int (length out) \<le> INT_MAX"
  shows "printf_loop fmt args w s = Return (w + int (length out)) (put_chars out s)"
  using assms
proof (induction "length fmt" arbitrary: fmt args out w s rule: less_induct)
  case less
  note IH = less.hyps [rule_format]
  show ?case
  proof (cases fmt rule: format_cases)
    case empty
    with less.prems show ?thesis by (simp add: printf_loop.simps [of "[]"])
  next
    case (other cs)
    with less.prems render_other [of cs args] printf_loop_other [of cs w args s] show ?thesis by auto
  next
    case (plain x run rest)
    then obtain tl_out where tl_out: "render rest args = Some tl_out" and out: "out = x # run @ tl_out"
      using less.prems(2) render_plain [OF plain(1,2), of args] by auto
    have len: "w + int (length (x # run)) \<le> INT_MAX" using less.prems(4) out by simp
    have "printf_loop fmt args w s = printf_loop rest args (w + int (length (x # run))) (put_chars (x # run) s)"
      by (rule printf_loop_text [OF plain(1) less.prems(1) plain(2,3) less.prems(3) len])
    also have "\<dots> = Return (w + int (length (x # run)) + int (length tl_out)) (put_chars tl_out (put_chars (x # run) s))"
      using less.prems tl_out out plain(1) by (intro IH) auto
    finally show ?thesis by (simp add: out put_chars_append [of "x # run" tl_out, simplified])
  next
    case (conv d ds)
    from conv less.prems(2-4) obtain piece args' rest_out where
      out: "out = piece @ rest_out" "render ds args' = Some rest_out" and
      loop: "printf_loop fmt args w s = printf_loop ds args' (w + int (length piece)) (put_chars piece s)"
      by (rule printf_loop_piece)
    have "printf_loop ds args' (w + int (length piece)) (put_chars piece s)
        = Return (w + int (length piece) + int (length rest_out)) (put_chars rest_out (put_chars piece s))"
      using conv out less.prems by (intro IH) auto
    with loop out show ?thesis by (simp add: put_chars_append)
  qed
qed

section \<open>When printf is undefined\<close>

lemma hex_text_length: "length (cstr ''0x'' @ numeral_of 16 (unat (v :: u64))) \<le> 18"
  using length_numeral_of [of 16 "unat v" 16] by (simp add: cstr_def)

lemma decimal_text_length:
  assumes "sint (v :: u64) \<noteq> INT64_MIN"
  shows "length (signed_text (sint v)) \<le> 20"
proof -
  have "nat \<bar>sint v\<bar> < 9223372036854775808" using sint_abs [OF assms] by linarith
  from length_numeral_19 [OF this] show ?thesis
    by (cases "sint v < 0") (simp_all add: signed_text_def)
qed

text \<open>A bound on the text of a call: a number prints at most 20 bytes.\<close>

fun arg_room :: "arg \<Rightarrow> nat" where
  "arg_room (Slot v) = 0"
| "arg_room (Str str) = length str"

definition print_room :: "u8 list \<Rightarrow> arg list \<Rightarrow> nat" where
  "print_room fmt args = 20 * length fmt + sum_list (map arg_room args)"

lemma print_room_simps [simp]:
  "print_room [] args = sum_list (map arg_room args)" "print_room (c # cs) args = 20 + print_room cs args"
  "print_room cs (arg # args) = arg_room arg + print_room cs args"
  "print_room (cs @ ds) args = 20 * length cs + print_room ds args"
  by (simp_all add: print_room_def)

lemma render_length: "render fmt args = Some out \<Longrightarrow> length out \<le> print_room fmt args"
proof (induction "length fmt" arbitrary: fmt args out rule: less_induct)
  case less
  note IH = less.hyps [rule_format]
  show ?case
  proof (cases fmt rule: format_cases)
    case (other cs)
    with less.prems render_other [of cs args] show ?thesis by (auto simp: print_room_def)
  next
    case (plain x run rest)
    then obtain tl_out where tl: "render rest args = Some tl_out" and out: "out = x # run @ tl_out"
      using less.prems render_plain [OF plain(1,2), of args] by auto
    have "length tl_out \<le> print_room rest args" using plain tl by (intro IH) auto
    with out plain(1) show ?thesis by (auto simp: print_room_def)
  next
    case (conv d ds)
    have str: "length (takeWhile (\<lambda>c. c \<noteq> 0) str) \<le> length str" for str :: "u8 list"
      by (rule length_takeWhile_le)
    have "length ds < length fmt" using conv by simp
    note IH' = IH [OF this]
    have hexa: "length (numeral_of 16 (unat v)) + n \<le> 38 + m" if "n \<le> m" for v :: u64 and n m
      using hex_text_length [of v] that by simp
    have strs: "length (takeWhile (\<lambda>c. c \<noteq> 0) str) + n \<le> 40 + (length str + m)" if "n \<le> m" for str :: "u8 list" and n m
      using str [of str] that by simp
    show ?thesis
      using less.prems conv
      by (auto split: list.splits arg.splits if_splits dest!: IH'
        dest: decimal_text_length intro: hexa strs simp: cstr_def)
  qed (use less.prems in simp)
qed

lemma printf_loop_bad:
  "d \<in> {99, 120, 100} \<Longrightarrow> \<nexists>v args'. args = Slot v # args' \<Longrightarrow>
    printf_loop (37 # d # ds) args w s = Undefined Bad_vararg"
  "\<nexists>str args'. args = Str str # args' \<Longrightarrow> printf_loop (37 # 115 # ds) args w s = Undefined Bad_vararg"
  by (subst printf_loop.simps, auto simp: Let_def split: list.splits arg.splits)+

lemma printf_loop_undefined:
  fixes s :: "'a tty_scheme"
  assumes "0 \<notin> set fmt" and "render fmt args = None" and "0 \<le> w" and "w + int (print_room fmt args) \<le> INT_MAX"
  shows "\<exists>e. printf_loop fmt args w s = Undefined e"
  using assms
proof (induction "length fmt" arbitrary: fmt args w s rule: less_induct)
  case less
  note IH = less.hyps [rule_format]
  show ?case
  proof (cases fmt rule: format_cases)
    case (other cs)
    with less.prems(2) render_other [of cs args] show ?thesis by simp
  next
    case (plain x run rest)
    have len: "w + int (length (x # run)) \<le> INT_MAX" "w + int (length (x # run)) + int (print_room rest args) \<le> INT_MAX"
      using less.prems(4) plain(1) by (auto simp: print_room_def)
    have "\<exists>e. printf_loop rest args (w + int (length (x # run))) (put_chars (x # run) s) = Undefined e"
      using plain less.prems len(2) render_plain [OF plain(1,2), of args] by (intro IH) auto
    then show ?thesis
      unfolding printf_loop_text [OF plain(1) less.prems(1) plain(2,3) less.prems(3) len(1)] .
  next
    case (conv d ds)
    have step: "\<exists>e. printf_loop ds args' (w + int n) t = Undefined e"
      if "render ds args' = None" "int n + int (print_room ds args') \<le> int (print_room fmt args)" for args' n and t :: "'a tty_scheme"
      using that less.prems(1,3,4) conv by (intro IH) auto
    from conv(2) consider "d \<in> {99, 120, 100}" "\<nexists>v args'. args = Slot v # args'"
      | "d = 115" "\<nexists>str args'. args = Str str # args'"
      | v args' where "d \<in> {99, 120, 100}" "args = Slot v # args'"
      | str args' where "d = 115" "args = Str str # args'" by blast
    then show ?thesis
    proof cases
      case (3 v args')
      show ?thesis
      proof (cases "d = 100 \<and> sint v = INT64_MIN")
        case True
        then show ?thesis by (simp add: conv(1) 3(2) printf_loop_conversion(4) print_decimal_def add_written_def)
      next
        case False
        then have none: "render ds args' = None"
          using less.prems(2) 3 conv(1) by (auto split: if_splits)
        have room: "w + int (40 + print_room ds args') \<le> INT_MAX" using less.prems(4) conv(1) 3(2) by simp
        from 3(1) False consider "d = 99" | "d = 120" | "d = 100" "sint v \<noteq> INT64_MIN" by blast
        then show ?thesis
        proof cases
          case 1
          then show ?thesis
            using step [OF none, of 1] room less.prems(3) by (simp add: conv(1) 3(2) printf_loop_conversion(1))
        next
          case 2
          then show ?thesis
            using step [OF none, of "length (cstr ''0x'' @ numeral_of 16 (unat v))"] room hex_text_length [of v]
            by (simp add: conv(1) 3(2) printf_loop_conversion(3) print_hex_numeral add_written_Return cstr_def)
        next
          case dec: 3
          then show ?thesis
            using step [OF none, of "length (signed_text (sint v))"] room decimal_text_length [OF dec(2)]
            by (simp add: conv(1) 3(2) printf_loop_conversion(4) print_decimal_numeral [OF sint_abs] add_written_Return)
        qed
      qed
    next
      case (4 str args')
      have len: "str_len str \<le> length str" by (simp add: str_len_def length_takeWhile_le)
      have "render ds args' = None" using less.prems(2) 4 conv(1) by auto
      moreover have "\<not> nat (INT_MAX - w) < str_len str" using less.prems(3,4) 4 conv(1) len by simp
      ultimately show ?thesis
        using step [of args' "str_len str"] 4 conv(1) len by (simp add: printf_loop_conversion(2))
    qed (use conv(1) printf_loop_bad(1) [of d args ds w s] printf_loop_bad(2) [of args ds w s] in auto)
  qed (use less.prems in simp)
qed
text \<open>\<open>str_len\<close> is what the \<open>strlen\<close> of the library computes on a stored string.\<close>

lemma strlen_str_len:
  assumes "length cs < 18446744073709551616"
  shows "strlen (\<lambda>i. at cs (unat i)) = Some (of_nat (str_len cs))"
proof (rule strlen_cstring)
  have len: "str_len cs \<le> length cs" by (simp add: str_len_def length_takeWhile_le)
  then have u: "unat (of_nat i :: u64) = i" if "i \<le> str_len cs" for i
    using that assms by simp
  show "at cs (unat (of_nat (str_len cs) :: u64)) = 0"
  proof (cases "str_len cs < length cs")
    case True
    then show ?thesis using nth_length_takeWhile [of "\<lambda>c. c \<noteq> 0" cs] u [of "str_len cs"]
      by (simp add: at_def str_len_def)
  qed (use u [of "str_len cs"] in \<open>simp add: at_def\<close>)
  show "at cs (unat (of_nat i :: u64)) \<noteq> 0" if "i < str_len cs" for i
    using that len u [of i] takeWhile_nth [of i "\<lambda>c. c \<noteq> 0" cs] set_takeWhileD nth_mem
    by (fastforce simp: at_def str_len_def)
qed

section \<open>Properties\<close>

text \<open>
  C27: \<open>printf\<close> prints what its format stands for: if the format has a text (every
  conversion has an argument of its kind, no \<open>%d\<close> of the smallest 64-bit integer) of at most
  \<open>INT_MAX\<close> bytes, then \<open>printf\<close> returns the length of the text and the terminal has
  received exactly its bytes.
\<close>

theorem printf_renders:
  assumes "0 \<notin> set fmt" and "render fmt args = Some out" and "int (length out) \<le> INT_MAX"
  shows "printf fmt args s = Return (int (length out)) (put_chars out s)"
  using printf_loop_render [of fmt args out 0 s] assms by (simp add: printf_def)

theorem printf_renders_witness:
  "printf (cstr ''%s=%x %d%%'') [Str (cstr ''rax''), Slot 0xBEEF, Slot (- 42)] example_tty
    = Return 15 (put_chars (cstr ''rax=0xBEEF -42%'') example_tty)"
proof -
  have "sint (- 42 :: u64) = - 42" by simp
  moreover have "numeral_of 16 48879 = cstr ''BEEF''" "numeral_of 10 42 = cstr ''42''"
    by (simp_all add: numeral_of.simps digits_table cstr_def)
  ultimately have "render (cstr ''%s=%x %d%%'') [Str (cstr ''rax''), Slot 0xBEEF, Slot (- 42)]
      = Some (cstr ''rax=0xBEEF -42%'')"
    by (simp add: cstr_def signed_text_def INT64_MIN_def)
  then show ?thesis
    using printf_renders [of "cstr ''%s=%x %d%%''" "[Str (cstr ''rax''), Slot 0xBEEF, Slot (- 42)]"
        "cstr ''rax=0xBEEF -42%''" example_tty]
    by (simp add: cstr_def INT_MAX_def)
qed

text \<open>
  C28: where \<open>printf\<close> is defined: for formats and arguments whose text cannot exceed
  \<open>INT_MAX\<close> bytes (20 bytes per byte of the format and the lengths of the strings bound it),
  it never panics, and its behaviour is undefined exactly when the format has no text: a
  conversion without an argument of its kind, or \<open>%d\<close> of the smallest 64-bit integer. In
  every other case it returns the length of the text and only the screen and the cursor,
  which stays on the screen, have changed.
\<close>

theorem printf_defined:
  assumes "tty_inv s" and "0 \<notin> set fmt" and "int (print_room fmt args) \<le> INT_MAX"
  shows "case printf fmt args s of
      Return n t \<Rightarrow> (\<exists>out. render fmt args = Some out \<and> n = int (length out)) \<and> tty_inv t \<and> tty_frame s t
    | Panics msg line t \<Rightarrow> False
    | Undefined e \<Rightarrow> render fmt args = None"
proof (cases "render fmt args")
  case None
  with assms printf_loop_undefined [of fmt args 0 s] show ?thesis by (auto simp: printf_def)
next
  case (Some out)
  then have "int (length out) \<le> INT_MAX" using render_length [OF Some] assms(3) by simp
  then have "printf fmt args s = Return (int (length out)) (put_chars out s)"
    using printf_loop_render [OF assms(2) Some, of 0 s] by (simp add: printf_def)
  with Some assms(1) show ?thesis by (simp add: put_chars_inv put_chars_frame)
qed

theorem printf_defined_witness:
  "(\<exists>n t. printf (cstr ''%x%s'') [Slot 7, Str (cstr ''ab'')] example_tty = Return n t
      \<and> tty_inv t \<and> tty_frame example_tty t)
    \<and> (\<exists>e. printf (cstr ''%x%s'') [Slot 7] example_tty = Undefined e)"
proof
  have fmt: "0 \<notin> set (cstr ''%x%s'')" by (simp add: cstr_def)
  show "\<exists>n t. printf (cstr ''%x%s'') [Slot 7, Str (cstr ''ab'')] example_tty = Return n t
      \<and> tty_inv t \<and> tty_frame example_tty t"
    using printf_defined [OF example_tty_inv fmt, of "[Slot 7, Str (cstr ''ab'')]"]
    by (auto simp: INT_MAX_def cstr_def split: print_result.splits)
  show "\<exists>e. printf (cstr ''%x%s'') [Slot 7] example_tty = Undefined e"
    using printf_defined [OF example_tty_inv fmt, of "[Slot 7]"]
    by (auto simp: INT_MAX_def cstr_def split: print_result.splits)
qed

text \<open>
  \<open>print_hex\<close> never leaves its 19-byte buffer, and what it prints after \<open>0x\<close> is a
  hexadecimal numeral of at most 16 digits that reads back as the number, without a leading
  zero unless the number is zero.
\<close>

theorem print_hex_reads_back:
  "\<exists>ds. print_hex hex s = Return (int (2 + length ds)) (put_chars (cstr ''0x'' @ ds) s)
     \<and> value_of 16 ds = unat hex \<and> length ds \<le> 16 \<and> (0 < unat hex \<longrightarrow> hd ds \<noteq> 48)"
  using print_hex_numeral [of hex s] value_of_numeral_of [of 16 "unat hex"]
    length_numeral_of [of 16 "unat hex" 16] hd_numeral_of [of 16 "unat hex"] by auto

theorem print_hex_reads_back_witness:
  "\<exists>ds. print_hex 0xFFFFFFFFFFFFFFFF example_tty = Return (int (2 + length ds)) (put_chars (cstr ''0x'' @ ds) example_tty)
     \<and> value_of 16 ds = 0xFFFFFFFFFFFFFFFF \<and> length ds \<le> 16 \<and> hd ds \<noteq> 48"
  using print_hex_reads_back [where hex = "0xFFFFFFFFFFFFFFFF" and s = example_tty] by fastforce

text \<open>
  C29: \<open>print_decimal\<close> of every number but the smallest one never leaves its buffers of 20 and
  21 bytes, and prints an optional minus sign and at most 19 digits that read back as the
  number's absolute value.
\<close>

theorem print_decimal_reads_back:
  assumes "\<bar>dec\<bar> < 9223372036854775808"
  shows "\<exists>ds. print_decimal dec s = Return (int (length ds) + (if dec < 0 then 1 else 0))
         (put_chars ((if dec < 0 then cstr ''-'' else []) @ ds) s)
     \<and> int (value_of 10 ds) = \<bar>dec\<bar> \<and> length ds \<le> 19"
proof -
  have "nat \<bar>dec\<bar> < 9223372036854775808" using assms by linarith
  then show ?thesis
    using print_decimal_numeral [OF assms, of s] value_of_numeral_of [of 10 "nat \<bar>dec\<bar>"]
      length_numeral_19 [of "nat \<bar>dec\<bar>"]
    by (intro exI [of _ "numeral_of 10 (nat \<bar>dec\<bar>)"]) (auto simp: signed_text_def cstr_def)
qed

theorem print_decimal_reads_back_witness:
  "\<exists>ds. print_decimal (- 9223372036854775807) example_tty = Return (int (length ds) + 1)
         (put_chars (cstr ''-'' @ ds) example_tty)
     \<and> int (value_of 10 ds) = 9223372036854775807 \<and> length ds \<le> 19"
  using print_decimal_reads_back [of "- 9223372036854775807" example_tty] by simp

text \<open>The exception: \<open>-dec\<close> overflows for the smallest 64-bit integer.\<close>

lemma printf_decimal_min:
  "printf (cstr ''%d'') [Slot 0x8000000000000000] s = Undefined Signed_overflow"
proof -
  have "sint (0x8000000000000000 :: u64) = INT64_MIN" by (simp add: INT64_MIN_def)
  then show ?thesis
    by (simp add: printf_def cstr_def printf_loop_conversion(4) print_decimal_def add_written_def)
qed

end
