(* ===== verification/Snprintf.thy ===== *)
theory Snprintf
  imports Printf
begin

text \<open>
  \<open>libc/stdio/snprintf.c\<close>: formatting into a caller's buffer of \<open>value\<close> bytes. The format
  and the string arguments are byte lists apart from the buffer; the buffer is memory at
  address \<open>buffer\<close>. A string fits in memory, so its length is a natural compared with the
  \<open>size_t\<close> values. \<open>written\<close> is an \<open>int\<close>, so sums are computed in \<open>size_t\<close> and cut
  back to 32 bits as the assignments do. The lemmas show that the buffer is never left and
  always ends up terminated.
\<close>

section \<open>The code\<close>

definition write_to_buffer :: "u8 list \<Rightarrow> u64 \<Rightarrow> int \<Rightarrow> memory \<Rightarrow> memory" where
  "write_to_buffer data buffer written m =
     fold (\<lambda>i m. m(buffer + (of_nat i + of_int written) := data ! i)) [0..<length data] m"

definition terminate :: "u64 \<Rightarrow> int \<Rightarrow> memory \<Rightarrow> memory" where
  "terminate buffer written m = m(buffer + of_int written := 0)"

text \<open>\<open>written += amount\<close> with a \<open>size_t\<close> amount.\<close>

definition add_size :: "int \<Rightarrow> nat \<Rightarrow> int" where
  "add_size written amount = sint (ucast (of_int written + of_nat amount :: u64) :: u32)"

function bounded_amount :: "u64 \<Rightarrow> u8 list \<Rightarrow> nat \<Rightarrow> nat" where
  "bounded_amount limit fmt amount =
     (if at fmt amount \<noteq> 0 \<and> at fmt amount \<noteq> of_char CHR ''%'' \<and> amount < unat limit
      then bounded_amount limit fmt (amount + 1) else amount)"
  by pat_completeness auto
termination
  by (relation "measure (\<lambda>(_, fmt, amount). length fmt - amount)") (auto simp: at_def split: if_splits)

declare bounded_amount.simps [simp del]

lemma bounded_amount_ge: "amount \<le> bounded_amount limit fmt amount"
proof (induction limit fmt amount rule: bounded_amount.induct)
  case (1 limit fmt amount)
  then show ?case by (subst bounded_amount.simps) auto
qed

lemma bounded_amount_le: "amount \<le> length fmt \<Longrightarrow> bounded_amount limit fmt amount \<le> length fmt"
proof (induction limit fmt amount rule: bounded_amount.induct)
  case (1 limit fmt amount)
  then show ?case by (subst bounded_amount.simps) (auto simp: at_def split: if_splits)
qed

function snprintf_loop :: "u64 \<Rightarrow> u64 \<Rightarrow> u8 list \<Rightarrow> arg list \<Rightarrow> int \<Rightarrow> memory \<Rightarrow> c_error + (int \<times> memory)" where
  "snprintf_loop buffer limit fmt args written m =
     (if at fmt 0 = 0 \<or> \<not> of_int written < limit then Inr (written, terminate buffer written m)
      else
        let maxrem = limit - of_int written in
        if at fmt 0 \<noteq> of_char CHR ''%'' \<or> at fmt 1 = of_char CHR ''%'' then
          let fmt1 = (if at fmt 0 = of_char CHR ''%'' then drop 1 fmt else fmt);
              amount = bounded_amount limit fmt1 1
          in if unat maxrem < amount then Inr (-1, terminate buffer written m)
             else snprintf_loop buffer limit (drop amount fmt1) args (add_size written amount)
               (write_to_buffer (take amount fmt1) buffer written m)
        else if at fmt 1 = of_char CHR ''c'' then
          (case args of
             Slot v # args' \<Rightarrow>
               if maxrem = 0 then Inr (-1, terminate buffer written m)
               else snprintf_loop buffer limit (drop 2 fmt) args' (written + 1)
                 (write_to_buffer [ucast v] buffer written m)
           | _ \<Rightarrow> Inl Bad_vararg)
        else if at fmt 1 = of_char CHR ''s'' then
          (case args of
             Str str # args' \<Rightarrow>
               if unat maxrem < str_len str then Inr (-1, terminate buffer written m)
               else snprintf_loop buffer limit (drop 2 fmt) args' (add_size written (str_len str))
                 (write_to_buffer (take (str_len str) str) buffer written m)
           | _ \<Rightarrow> Inl Bad_vararg)
        else if unat maxrem < str_len fmt then Inr (-1, terminate buffer written m)
        else snprintf_loop buffer limit (drop (str_len fmt) fmt) args (add_size written (str_len fmt))
          (write_to_buffer (take (str_len fmt) fmt) buffer written m))"
  by pat_completeness auto
termination
proof (relation "measure (\<lambda>(_, _, fmt, _). length fmt)", goal_cases)
  case (2 buffer limit fmt args written m maxrem fmt1 amount)
  then have "0 < amount" using bounded_amount_ge [of 1 limit fmt1] by simp
  with 2 at_0_length [of fmt] show ?case by auto
qed (auto dest: at_percent)

declare snprintf_loop.simps [simp del]

definition snprintf :: "u64 \<Rightarrow> u64 \<Rightarrow> u8 list \<Rightarrow> arg list \<Rightarrow> memory \<Rightarrow> c_error + (int \<times> memory)" where
  "snprintf buffer val fmt args m =
     (if val = 0 then Inr (0, m) else snprintf_loop buffer (val - 1) fmt args 0 m)"

section \<open>Writes stay in the buffer\<close>

lemma write_to_buffer_other:
  assumes "0 \<le> written" and "x \<notin> region buffer (nat written + length data)"
    and "nat written + length data \<le> 18446744073709551616"
  shows "write_to_buffer data buffer written m x = m x"
  unfolding write_to_buffer_def
proof (rule fold_upd_other)
  fix i assume "i \<in> set [0..<length data]"
  then have i: "i < length data" by simp
  have "of_nat i + of_int written = (of_nat (i + nat written) :: u64)"
    using assms(1) by (simp flip: of_nat_nat)
  moreover have "buffer + of_nat (i + nat written) \<in> region buffer (nat written + length data)"
    using i assms(3) by (intro of_nat_in_region) simp_all
  ultimately show "x \<noteq> buffer + (of_nat i + of_int written)" using assms(2) by auto
qed

lemma add_size_exact:
  assumes "0 \<le> written" and "written + int amount < 2147483648"
  shows "add_size written amount = written + int amount"
proof -
  have sum: "(of_int written + of_nat amount :: u64) = of_int (written + int amount)" by simp
  have "uint (of_int (written + int amount) :: u64) = written + int amount"
    using assms by (simp add: uint_word_of_int del: of_int_add)
  then have "add_size written amount = sint (of_int (written + int amount) :: u32)"
    unfolding add_size_def sum by (simp only: ucast_eq)
  also have "\<dots> = written + int amount"
    using assms by (simp add: signed_of_int signed_take_bit_int_eq_self del: of_int_add)
  finally show ?thesis .
qed

text \<open>
  What a call promises: only the buffer changes, the result is -1 or an index of it, and the
  buffer holds a NUL, at the returned index if the call succeeded.
\<close>

definition in_buffer :: "u64 \<Rightarrow> nat \<Rightarrow> memory \<Rightarrow> int \<times> memory \<Rightarrow> bool" where
  "in_buffer buffer sz m r \<longleftrightarrow> (case r of (n, m') \<Rightarrow>
     (\<forall>x. x \<notin> region buffer sz \<longrightarrow> m' x = m x) \<and> -1 \<le> n \<and> n < int sz
     \<and> (\<exists>k < sz. m' (buffer + of_nat k) = 0 \<and> (0 \<le> n \<longrightarrow> n = int k)))"

lemma in_buffer_trans:
  "\<forall>x. x \<notin> region buffer sz \<longrightarrow> m1 x = m x \<Longrightarrow> in_buffer buffer sz m1 r \<Longrightarrow> in_buffer buffer sz m r"
  by (auto simp: in_buffer_def split: prod.splits)

lemma in_buffer_terminate:
  assumes "0 \<le> written" and "nat written < sz" and "sz \<le> 2147483648" and "n = written \<or> n = -1"
  shows "in_buffer buffer sz m (n, terminate buffer written m)"
proof -
  have w: "(of_int written :: u64) = of_nat (nat written)" using assms(1) by simp
  have "buffer + of_nat (nat written) \<in> region buffer sz"
    using assms(2,3) by (intro of_nat_in_region) simp_all
  then show ?thesis
    using assms unfolding in_buffer_def terminate_def w by (auto intro!: exI [of _ "nat written"])
qed

lemma in_buffer_write:
  assumes "0 \<le> written" and "nat written + length data \<le> limit" and "limit < 2147483648"
    and "in_buffer buffer (Suc limit) (write_to_buffer data buffer written m) r"
  shows "in_buffer buffer (Suc limit) m r"
proof (rule in_buffer_trans [OF _ assms(4)], intro allI impI)
  fix x assume "x \<notin> region buffer (Suc limit)"
  then have "x \<notin> region buffer (nat written + length data)"
    using region_mono [of "nat written + length data" "Suc limit" buffer] assms(2) by auto
  then show "write_to_buffer data buffer written m x = m x"
    using assms by (intro write_to_buffer_other) auto
qed

definition loop_ok :: "u64 \<Rightarrow> nat \<Rightarrow> memory \<Rightarrow> c_error + (int \<times> memory) \<Rightarrow> bool" where
  "loop_ok buffer limit m r = pred_sum (\<lambda>_. True) (in_buffer buffer (Suc limit) m) r"

lemma loop_ok_simps [simp]:
  "loop_ok buffer limit m (Inl e)" "loop_ok buffer limit m (Inr r) = in_buffer buffer (Suc limit) m r"
  by (simp_all add: loop_ok_def)

lemma loop_ok_split:
  "(b \<Longrightarrow> loop_ok u l m x) \<Longrightarrow> (\<not> b \<Longrightarrow> loop_ok u l m y) \<Longrightarrow> loop_ok u l m (if b then x else y)"
  "(\<And>v args'. loop_ok u l m (f v args')) \<Longrightarrow>
    loop_ok u l m (case args of Slot v # args' \<Rightarrow> f v args' | _ \<Rightarrow> Inl Bad_vararg)"
  "(\<And>str args'. loop_ok u l m (g str args')) \<Longrightarrow>
    loop_ok u l m (case args of Str str # args' \<Rightarrow> g str args' | _ \<Rightarrow> Inl Bad_vararg)"
  by (auto split: list.split arg.split)

lemma snprintf_loop_ok:
  assumes "0 \<le> written" and "nat written \<le> unat limit" and "unat limit < 2147483648"
  shows "loop_ok buffer (unat limit) m (snprintf_loop buffer limit fmt args written m)"
  using assms(1,2)
proof (induction "length fmt" arbitrary: fmt args written m rule: less_induct)
  case less
  let ?maxrem = "limit - of_int written"
  have w: "unat (of_int written :: u64) = nat written"
    using less.prems assms(3) by (simp flip: of_nat_nat)
  then have maxrem: "unat ?maxrem = unat limit - nat written"
    using less.prems by (subst unat_minus_le) (simp_all add: word_le_nat_alt)
  have stop: "in_buffer buffer (Suc (unat limit)) m (n, terminate buffer written m)"
    if "n = written \<or> n = -1" for n
    using less.prems assms(3) that by (intro in_buffer_terminate) auto
  have next_ok: "loop_ok buffer (unat limit) m
      (snprintf_loop buffer limit fmt' args' (add_size written (length data)) (write_to_buffer data buffer written m))"
    if "length fmt' < length fmt" and fits: "\<not> unat ?maxrem < length data" for fmt' args' data
  proof -
    have le: "nat written + length data \<le> unat limit" using fits maxrem less.prems by simp
    then have "add_size written (length data) = written + int (length data)"
      using less.prems assms(3) by (intro add_size_exact) auto
    with le less.prems less.hyps [OF that(1)] have
      "loop_ok buffer (unat limit) (write_to_buffer data buffer written m)
        (snprintf_loop buffer limit fmt' args' (add_size written (length data)) (write_to_buffer data buffer written m))"
      by (simp add: nat_add_distrib)
    then show ?thesis
      using in_buffer_write [OF less.prems(1) le assms(3)]
      by (cases "snprintf_loop buffer limit fmt' args' (add_size written (length data))
        (write_to_buffer data buffer written m)") auto
  qed
  show ?case
  proof (cases "at fmt 0 = 0 \<or> \<not> of_int written < limit")
    case True
    then show ?thesis using stop by (subst snprintf_loop.simps) simp
  next
    case False
    then have nz: "at fmt 0 \<noteq> 0" and less_limit: "of_int written < limit" by auto
    have room: "1 \<le> unat ?maxrem"
      using less_limit w maxrem by (simp add: word_less_nat_alt)
    have shorter: "length (drop 2 fmt) < length fmt" "length (drop (str_len fmt) fmt) < length fmt"
      using at_0_length [OF nz] str_len_pos [OF nz] by auto
    let ?fmt1 = "if at fmt 0 = of_char CHR ''%'' then drop 1 fmt else fmt"
    let ?amount = "bounded_amount limit ?fmt1 1"
    have run: "loop_ok buffer (unat limit) m (snprintf_loop buffer limit (drop ?amount ?fmt1) args
        (add_size written ?amount) (write_to_buffer (take ?amount ?fmt1) buffer written m))"
      if guard: "at fmt 0 \<noteq> of_char CHR ''%'' \<or> at fmt 1 = of_char CHR ''%''"
        and fits: "\<not> unat ?maxrem < ?amount"
    proof -
      have ne: "1 \<le> length ?fmt1"
        using at_0_length [OF nz] guard by (cases fmt; cases "tl fmt") auto
      have "1 \<le> ?amount" "?amount \<le> length ?fmt1"
        using bounded_amount_ge [of 1 limit ?fmt1] bounded_amount_le [OF ne] by auto
      then have "length (take ?amount ?fmt1) = ?amount" "length (drop ?amount ?fmt1) < length fmt"
        using ne at_0_length [OF nz] by (auto split: if_splits)
      with fits next_ok [of "drop ?amount ?fmt1" "take ?amount ?fmt1"] show ?thesis by simp
    qed
    have str: "loop_ok buffer (unat limit) m (snprintf_loop buffer limit fmt' args'
        (add_size written (str_len str)) (write_to_buffer (take (str_len str) str) buffer written m))"
      if "length fmt' < length fmt" "\<not> unat ?maxrem < str_len str" for str fmt' args'
    proof -
      have "length (take (str_len str) str) = str_len str"
        by (simp add: str_len_def length_takeWhile_le)
      with next_ok [OF that(1), of "take (str_len str) str"] that(2) show ?thesis by simp
    qed
    have char: "loop_ok buffer (unat limit) m (snprintf_loop buffer limit (drop 2 fmt) args'
        (written + 1) (write_to_buffer [c] buffer written m))" for c args'
    proof -
      have "add_size written 1 = written + 1"
        using less.prems assms(3) less_limit w by (subst add_size_exact) (auto simp: word_less_nat_alt)
      then show ?thesis using next_ok [OF shorter(1), of "[c]" args'] room by simp
    qed
    show ?thesis
      by (subst snprintf_loop.simps, simp only: False if_False Let_def)
        (intro loop_ok_split run str char shorter; use stop less_limit in auto)
  qed
qed

section \<open>Copying plain text\<close>

lemma write_to_buffer_at:
  assumes "0 \<le> written" and "i < length data" and "nat written + length data \<le> 18446744073709551616"
  shows "write_to_buffer data buffer written m (buffer + of_nat (nat written + i)) = data ! i"
proof -
  have addr: "buffer + (of_nat j + of_int written) = buffer + of_nat (nat written + j)" for j
    using assms(1) by (simp add: add.commute flip: of_nat_nat)
  have "fold (\<lambda>j m. m(buffer + of_nat (nat written + j) := data ! j)) [0..<n] m (buffer + of_nat (nat written + i))
      = (if i < n then data ! i else m (buffer + of_nat (nat written + i)))" if "n \<le> length data" for n
    using that
  proof (induction n)
    case (Suc n)
    have "buffer + of_nat (nat written + i) = buffer + of_nat (nat written + n) \<longleftrightarrow> i = n"
      using assms(2,3) Suc.prems by (subst u64_add_of_nat_inj) auto
    with Suc show ?case by (auto simp: fold_upt_Suc simp del: upt_Suc of_nat_add)
  qed simp
  from this [of "length data"] assms(2) show ?thesis
    by (simp add: write_to_buffer_def addr del: of_nat_add)
qed

lemma bounded_amount_run:
  assumes "0 \<notin> set fmt" and "37 \<notin> set fmt" and "length fmt \<le> unat limit" and "amount \<le> length fmt"
  shows "bounded_amount limit fmt amount = length fmt"
  using assms
proof (induction limit fmt amount rule: bounded_amount.induct)
  case (1 limit fmt amount)
  show ?case
  proof (cases "amount < length fmt")
    case True
    then have "at fmt amount \<in> set fmt" by (simp add: at_def)
    with True 1 show ?thesis by (subst bounded_amount.simps) auto
  qed (use 1 in \<open>subst bounded_amount.simps, simp add: at_def\<close>)
qed

section \<open>Properties\<close>

text \<open>
  C30: whatever the format and the arguments, a call of \<open>snprintf\<close> with a buffer of at most
  2 GiB writes only to that buffer, returns -1 or an index inside it, and leaves a NUL in the
  buffer (at the returned index on success).
\<close>

theorem snprintf_stays_in_buffer:
  assumes "val \<noteq> 0" and "val \<le> 0x80000000" and "snprintf buffer val fmt args m = Inr r"
  shows "in_buffer buffer (unat val) m r"
proof -
  have one: "unat (val - 1) = unat val - 1" and pos: "0 < unat val"
    using assms(1) by (simp_all add: unat_minus_one unat_gt_0)
  moreover have "unat (val - 1) < 2147483648"
    using assms(2) one pos by (simp add: word_le_nat_alt)
  ultimately show ?thesis
    using snprintf_loop_ok [of 0 "val - 1" buffer m fmt args] assms(1,3) by (simp add: snprintf_def)
qed

theorem snprintf_stays_in_buffer_witness:
  "snprintf 0x900000 4 [] [] (\<lambda>_. 7) = Inr (0, (\<lambda>_. 7)(0x900000 := 0))
    \<and> in_buffer 0x900000 (unat (4 :: u64)) (\<lambda>_. 7) (0, (\<lambda>_. 7)(0x900000 := 0))"
proof -
  have call: "snprintf 0x900000 4 [] [] (\<lambda>_. 7) = Inr (0, (\<lambda>_. 7)(0x900000 := 0))"
    by (simp add: snprintf_def snprintf_loop.simps terminate_def)
  from snprintf_stays_in_buffer [OF _ _ call] call show ?thesis by simp
qed

text \<open>
  A format without conversions that fits is copied byte for byte, followed by a NUL, and
  its length is returned.
\<close>

theorem snprintf_copies_text:
  assumes "0 \<notin> set fmt" and "37 \<notin> set fmt" and "fmt \<noteq> []"
    and "length fmt < unat val" and "val \<le> 0x80000000"
  shows "\<exists>m'. snprintf buffer val fmt args m = Inr (int (length fmt), m')
    \<and> (\<forall>i < length fmt. m' (buffer + of_nat i) = fmt ! i) \<and> m' (buffer + of_nat (length fmt)) = 0"
proof -
  let ?m = "write_to_buffer fmt buffer 0 m"
  have "unat val \<le> 2147483648" using assms(5) by (simp add: word_le_nat_alt)
  then have len: "length fmt < 2147483648" and nz: "val \<noteq> 0" using assms(4) by auto
  then have lim: "unat (val - 1) = unat val - 1" "val \<noteq> 0" "length fmt \<le> unat (val - 1)"
    using assms(4) unat_minus_one [OF nz] by auto
  have at0: "at fmt 0 \<in> set fmt" using assms(3) by (simp add: at_def)
  have amount: "bounded_amount (val - 1) fmt 1 = length fmt"
    using assms lim by (intro bounded_amount_run) (auto simp: Suc_le_eq)
  have pos: "0 < val - 1"
    using lim assms(3,4) by (cases fmt) (auto simp: word_less_nat_alt)
  have "snprintf buffer val fmt args m
      = snprintf_loop buffer (val - 1) [] args (int (length fmt)) ?m"
    using at0 assms(1,2) amount lim pos add_size_exact [of 0 "length fmt"] len
    by (simp add: snprintf_def) (subst snprintf_loop.simps, auto simp: Let_def)
  also have "\<dots> = Inr (int (length fmt), terminate buffer (int (length fmt)) ?m)"
    by (subst snprintf_loop.simps) simp
  finally have call: "snprintf buffer val fmt args m
      = Inr (int (length fmt), terminate buffer (int (length fmt)) ?m)" .
  have "terminate buffer (int (length fmt)) ?m (buffer + of_nat i) = fmt ! i" if "i < length fmt" for i
    using that len write_to_buffer_at [of 0 i fmt buffer m] u64_add_of_nat_inj [of i "length fmt" buffer]
    by (simp add: terminate_def)
  then show ?thesis using call by (auto simp: terminate_def)
qed

theorem snprintf_copies_text_witness:
  "\<exists>m'. snprintf 0x900000 8 [104, 105] [] (\<lambda>_. 7) = Inr (2, m')
    \<and> m' 0x900000 = 104 \<and> m' 0x900001 = 105 \<and> m' 0x900002 = 0"
  using snprintf_copies_text [where fmt = "[104, 105]" and val = 8 and buffer = "0x900000" and args = "[]" and m = "\<lambda>_. 7"]
  by (auto simp: less_Suc_eq)

end
