(* ===== verification/Panic.thy ===== *)
theory Panic
  imports Printf
begin

text \<open>
  Kernel panic (\<open>libc/panic.c\<close>), the saved CPU state of an interrupt
  (\<open>kernel/include/interrupts/isr.h\<close>), and statements that print: how the rest of the
  kernel calls \<open>printf\<close>. Code that may stop the machine or reach undefined behaviour
  returns an \<open>outcome\<close>.
\<close>

section \<open>Outcomes\<close>

text \<open>
  \<open>Ok r\<close>: the code went on with result \<open>r\<close>. \<open>Halt r\<close>: the machine stopped in the
  final loop of a panic. \<open>Nested r\<close>: the code of a panic called \<open>panic_msg\<close> again.
  \<open>UB e\<close>: undefined behaviour.
\<close>

datatype 'r outcome = Ok 'r | Halt 'r | Nested 'r | UB c_error

fun bind_ok :: "'r outcome \<Rightarrow> ('r \<Rightarrow> 'r outcome) \<Rightarrow> 'r outcome" where
  "bind_ok (Ok r) f = f r"
| "bind_ok (Halt r) f = Halt r"
| "bind_ok (Nested r) f = Nested r"
| "bind_ok (UB e) f = UB e"

lemma bind_ok_eq_Ok: "bind_ok x f = Ok r \<longleftrightarrow> (\<exists>t. x = Ok t \<and> f t = Ok r)"
  by (cases x) auto

text \<open>The result of an outcome that has one.\<close>

fun outcome_state :: "'r outcome \<Rightarrow> 'r option" where
  "outcome_state (Ok r) = Some r"
| "outcome_state (Halt r) = Some r"
| "outcome_state (Nested r) = Some r"
| "outcome_state (UB e) = None"

lemma bind_ok_invariant:
  assumes "\<And>r. outcome_state x = Some r \<Longrightarrow> P r"
    and "\<And>r t. P r \<Longrightarrow> outcome_state (f r) = Some t \<Longrightarrow> P t"
  shows "outcome_state (bind_ok x f) = Some t \<Longrightarrow> P t"
  using assms by (cases x) auto

section \<open>Interrupt frames\<close>

record interrupt_frame =
  fr_r15 :: u64
  fr_r14 :: u64
  fr_r13 :: u64
  fr_r12 :: u64
  fr_r11 :: u64
  fr_r10 :: u64
  fr_r9 :: u64
  fr_r8 :: u64
  fr_rbp :: u64
  fr_rdi :: u64
  fr_rsi :: u64
  fr_rdx :: u64
  fr_rcx :: u64
  fr_rbx :: u64
  fr_rax :: u64
  fr_int_no :: u64
  fr_err_code :: u64
  fr_rip :: u64
  fr_cs :: u64
  fr_rflags :: u64
  fr_rsp :: u64
  fr_ss :: u64

section \<open>panic\<close>

text \<open>
  An \<open>int\<close> passed to \<open>printf\<close> occupies a 64-bit slot whose upper half the calling
  convention leaves open: it is the parameter \<open>upper\<close>.
\<close>

definition int_slot :: "u32 \<Rightarrow> int \<Rightarrow> arg" where
  "int_slot upper n = Slot (push_bit 32 (ucast upper) OR ucast (of_int n :: u32))"

text \<open>A \<open>printf\<close> statement inside a panic.\<close>

definition panic_say :: "string \<Rightarrow> arg list \<Rightarrow> 'a tty_scheme \<Rightarrow> 'a tty_scheme outcome" where
  "panic_say fmt args s =
     (case printf (cstr fmt) args s of
        Return n s1 \<Rightarrow> Ok s1
      | Panics msg line s1 \<Rightarrow> Nested s1
      | Undefined e \<Rightarrow> UB e)"

text \<open>The common beginning: \<open>cli\<close> and three lines.\<close>

definition panic_header ::
  "u32 \<Rightarrow> u8 list \<Rightarrow> u8 list \<Rightarrow> int \<Rightarrow> 'a tty_scheme \<Rightarrow> 'a tty_scheme outcome" where
  "panic_header upper msg file line s =
     bind_ok (bind_ok (panic_say ''*******************KERNEL PANIC*******************\<newline>'' [] (cli s))
       (panic_say ''Error: %s\<newline>'' [Str msg]))
       (panic_say ''File: %s (Line: %d)\<newline>'' [Str file, int_slot upper line])"

definition halt :: "'r outcome \<Rightarrow> 'r outcome" where
  "halt x = bind_ok x Halt"

definition panic_msg ::
  "u32 \<Rightarrow> u8 list \<Rightarrow> u8 list \<Rightarrow> int \<Rightarrow> 'a tty_scheme \<Rightarrow> 'a tty_scheme outcome" where
  "panic_msg upper msg file line s = halt (panic_header upper msg file line s)"

text \<open>The CPU part: one line per field of the frame.\<close>

definition panic_fields :: "interrupt_frame \<Rightarrow> (string \<times> u64) list" where
  "panic_fields frame =
     [(''INT NO: %d\<newline>'', fr_int_no frame), (''ERR CCODE: %x\<newline>'', fr_err_code frame),
      (''RIP: %x\<newline>'', fr_rip frame), (''CS: %x\<newline>'', fr_cs frame),
      (''RING: %d\<newline>'', fr_cs frame AND 3), (''RFLAGS: %x\<newline>'', fr_rflags frame),
      (''RSP: %x\<newline>'', fr_rsp frame), (''SS: %x\<newline>'', fr_ss frame)]"

text \<open>\<open>cr2\<close> is the CPU register of that name.\<close>

definition panic ::
  "u32 \<Rightarrow> u64 \<Rightarrow> u8 list \<Rightarrow> interrupt_frame option \<Rightarrow> u8 list \<Rightarrow> int \<Rightarrow>
    'a tty_scheme \<Rightarrow> 'a tty_scheme outcome" where
  "panic upper cr2 msg frame file line s =
     halt (case frame of
        None \<Rightarrow> panic_header upper msg file line s
      | Some f \<Rightarrow>
          let x = foldl (\<lambda>x (fmt, v). bind_ok x (panic_say fmt [Slot v]))
                (bind_ok (panic_header upper msg file line s) (panic_say ''****CPU****\<newline>'' []))
                (panic_fields f)
          in if fr_int_no f = 14 then bind_ok x (panic_say ''CR2: %x\<newline>'' [Slot cr2]) else x)"

section \<open>Print statements\<close>

text \<open>
  A \<open>printf\<close> statement of the kernel: \<open>PANIC_MSG\<close> in \<open>printf.c\<close> goes to
  \<open>panic_msg\<close>.
\<close>

definition say :: "string \<Rightarrow> arg list \<Rightarrow> 'a tty_scheme \<Rightarrow> 'a tty_scheme outcome" where
  "say fmt args s =
     (case printf (cstr fmt) args s of
        Return n s1 \<Rightarrow> Ok s1
      | Panics msg line s1 \<Rightarrow> panic_msg 0 (cstr msg) (cstr ''libc/stdio/printf.c'') line s1
      | Undefined e \<Rightarrow> UB e)"

text \<open>A statement whose text is known prints that text.\<close>

lemma printf_text:
  assumes "0 \<notin> set (cstr fmt)" and "render (cstr fmt) args = Some out" and "length out \<le> 2147483647"
  shows "printf (cstr fmt) args s = Return (int (length out)) (put_chars out s)"
  using printf_loop_render [of "cstr fmt" args out 0 s] assms by (simp add: printf_def INT_MAX_def)

lemma say_text:
  assumes "0 \<notin> set (cstr fmt)" and "render (cstr fmt) args = Some out" and "length out \<le> 2147483647"
  shows "say fmt args s = Ok (put_chars out s)"
  using printf_text [OF assms, of s] by (simp add: say_def)

lemma panic_say_text:
  assumes "0 \<notin> set (cstr fmt)" and "render (cstr fmt) args = Some out" and "length out \<le> 2147483647"
  shows "panic_say fmt args s = Ok (put_chars out s)"
  using printf_text [OF assms, of s] by (simp add: panic_say_def)

text \<open>A literal without conversions stands for itself.\<close>

lemma render_literal: "37 \<notin> set cs \<Longrightarrow> render cs args = Some cs"
  using render_run [of cs "[]" args] by simp

lemma cstr_Cons: "cstr (c # cs) = of_char c # cstr cs" "cstr [] = []"
  by (simp_all add: cstr_def)

lemma say_literal:
  assumes "0 \<notin> set (cstr fmt)" and "37 \<notin> set (cstr fmt)" and "length fmt \<le> 2147483647"
  shows "say fmt args s = Ok (put_chars (cstr fmt) s)"
  by (rule say_text) (use assms render_literal in \<open>auto simp: cstr_def\<close>)

text \<open>\<open>prints s x\<close>: from \<open>s\<close> the code only printed and went on.\<close>

definition prints :: "'a tty_scheme \<Rightarrow> 'a tty_scheme outcome \<Rightarrow> bool" where
  "prints s x \<longleftrightarrow> (\<exists>out. x = Ok (put_chars out s))"

lemma prints_refl: "prints s (Ok s)"
  unfolding prints_def by (rule exI [of _ "[]"]) simp

lemma prints_bind: "prints s x \<Longrightarrow> (\<And>t. prints t (f t)) \<Longrightarrow> prints s (bind_ok x f)"
  unfolding prints_def by (metis bind_ok.simps(1) put_chars_append)

lemma prints_say:
  assumes "0 \<notin> set (cstr fmt)" and "render (cstr fmt) args = Some out" and "length out \<le> 2147483647"
  shows "prints s (say fmt args s)" and "prints s (panic_say fmt args s)"
  using say_text [OF assms, of s] panic_say_text [OF assms, of s] by (auto simp: prints_def)

lemma prints_stays:
  assumes "prints s x" and "tty_inv s"
  obtains t where "x = Ok t" and "tty_inv t" and "tty_frame s t"
  using assms put_chars_inv put_chars_frame unfolding prints_def by blast

section \<open>Panic stops the machine\<close>

lemma sint_min_iff: "sint (v :: u64) = INT64_MIN \<longleftrightarrow> v = 0x8000000000000000"
proof -
  have "sint (0x8000000000000000 :: u64) = INT64_MIN" by (simp add: INT64_MIN_def)
  then show ?thesis by (metis signed_word_eqI)
qed

text \<open>The upper half of a slot cannot turn a positive line number into the smallest integer.\<close>

lemma int_slot_not_min:
  assumes "0 < n" and "n < 2147483648" and "int_slot upper n = Slot v"
  shows "sint v \<noteq> INT64_MIN"
proof -
  have v: "v = push_bit 32 (ucast upper) OR ucast (of_int n :: u32)"
    using assms(3) by (simp add: int_slot_def)
  have "take_bit 32 v = ucast (of_int n :: u32)"
    unfolding v by (rule bit_word_eqI) (auto simp: bit_simps)
  moreover have "(ucast (of_int n :: u32) :: u64) \<noteq> 0"
  proof -
    have "(of_int n :: u32) \<noteq> 0" using assms(1,2) by (auto simp: word_of_int_eq_0_iff dest: zdvd_imp_le)
    then show ?thesis by (force simp: bit_eq_iff bit_simps)
  qed
  moreover have "take_bit 32 (0x8000000000000000 :: u64) = 0" by simp
  ultimately show ?thesis unfolding sint_min_iff by metis
qed

text \<open>
  What a panic prints. The line number is the number its argument slot holds; the CPU part
  appears with a frame only, and its last line for page faults only.
\<close>

definition hex_text :: "u64 \<Rightarrow> u8 list" where
  "hex_text v = cstr ''0x'' @ numeral_of 16 (unat v)"

fun slot_text :: "arg \<Rightarrow> u8 list" where
  "slot_text (Slot v) = signed_text (sint v)"
| "slot_text (Str str) = []"

definition panic_header_text :: "u32 \<Rightarrow> u8 list \<Rightarrow> u8 list \<Rightarrow> int \<Rightarrow> u8 list" where
  "panic_header_text upper msg file line =
     cstr ''*******************KERNEL PANIC*******************\<newline>''
     @ cstr ''Error: '' @ takeWhile (\<lambda>c. c \<noteq> 0) msg @ cstr ''\<newline>''
     @ cstr ''File: '' @ takeWhile (\<lambda>c. c \<noteq> 0) file @ cstr '' (Line: '' @ slot_text (int_slot upper line) @ cstr '')\<newline>''"

definition cpu_text :: "u64 \<Rightarrow> interrupt_frame \<Rightarrow> u8 list" where
  "cpu_text cr2 f =
     cstr ''****CPU****\<newline>'' @ cstr ''INT NO: '' @ signed_text (sint (fr_int_no f)) @ cstr ''\<newline>''
     @ cstr ''ERR CCODE: '' @ hex_text (fr_err_code f) @ cstr ''\<newline>'' @ cstr ''RIP: '' @ hex_text (fr_rip f) @ cstr ''\<newline>''
     @ cstr ''CS: '' @ hex_text (fr_cs f) @ cstr ''\<newline>'' @ cstr ''RING: '' @ signed_text (sint (fr_cs f AND 3)) @ cstr ''\<newline>''
     @ cstr ''RFLAGS: '' @ hex_text (fr_rflags f) @ cstr ''\<newline>'' @ cstr ''RSP: '' @ hex_text (fr_rsp f) @ cstr ''\<newline>''
     @ cstr ''SS: '' @ hex_text (fr_ss f) @ cstr ''\<newline>''
     @ (if fr_int_no f = 14 then cstr ''CR2: '' @ hex_text cr2 @ cstr ''\<newline>'' else [])"

definition panic_text :: "u32 \<Rightarrow> u64 \<Rightarrow> u8 list \<Rightarrow> interrupt_frame option \<Rightarrow> u8 list \<Rightarrow> int \<Rightarrow> u8 list" where
  "panic_text upper cr2 msg frame file line =
     panic_header_text upper msg file line @ (case frame of None \<Rightarrow> [] | Some f \<Rightarrow> cpu_text cr2 f)"

lemma panic_header_says:
  assumes "length msg \<le> 2147483600" and "length file \<le> 2147483600" and "0 < line" and "line < 2147483648"
  shows "panic_header upper msg file line s = Ok (put_chars (panic_header_text upper msg file line) (cli s))"
proof -
  obtain v where v: "int_slot upper line = Slot v" by (simp add: int_slot_def)
  have min: "sint v \<noteq> INT64_MIN" by (rule int_slot_not_min [OF assms(3,4) v])
  have len: "length (takeWhile (\<lambda>c. c \<noteq> 0) msg) \<le> 2147483600" "length (takeWhile (\<lambda>c. c \<noteq> 0) file) \<le> 2147483600"
    using assms(1,2) length_takeWhile_le order_trans by blast+
  have 1: "panic_say ''*******************KERNEL PANIC*******************\<newline>'' [] t
      = Ok (put_chars (cstr ''*******************KERNEL PANIC*******************\<newline>'') t)" for t :: "'a tty_scheme"
    by (rule panic_say_text [OF _ render_literal]) (simp_all add: cstr_def)
  have 2: "panic_say ''Error: %s\<newline>'' [Str msg] t
      = Ok (put_chars (cstr ''Error: '' @ takeWhile (\<lambda>c. c \<noteq> 0) msg @ cstr ''\<newline>'') t)" for t :: "'a tty_scheme"
    by (rule panic_say_text) (use len in \<open>simp_all add: cstr_def\<close>)
  have 3: "panic_say ''File: %s (Line: %d)\<newline>'' [Str file, int_slot upper line] t
      = Ok (put_chars (cstr ''File: '' @ takeWhile (\<lambda>c. c \<noteq> 0) file @ cstr '' (Line: ''
          @ slot_text (int_slot upper line) @ cstr '')\<newline>'') t)" for t :: "'a tty_scheme"
    by (rule panic_say_text) (use min len decimal_text_length [OF min] in \<open>simp_all add: cstr_def v\<close>)
  show ?thesis
    by (simp add: panic_header_def 1 2 3 panic_header_text_def put_chars_append)
qed

text \<open>The lines of the CPU part.\<close>

lemma panic_say_hex:
  assumes "cstr fmt = cstr label @ [37, 120, 10]" and "0 \<notin> set (cstr label)" and "37 \<notin> set (cstr label)"
    and "length label \<le> 100"
  shows "panic_say fmt [Slot v] s = Ok (put_chars (cstr label @ hex_text v @ cstr ''\<newline>'') s)"
proof (rule panic_say_text)
  show "render (cstr fmt) [Slot v] = Some (cstr label @ hex_text v @ cstr ''\<newline>'')"
    unfolding assms(1) using render_run [OF assms(3), of "[37, 120, 10]" "[Slot v]"]
    by (simp add: hex_text_def cstr_def)
  show "length (cstr label @ hex_text v @ cstr ''\<newline>'') \<le> 2147483647"
    using hex_text_length [of v] assms(4) by (simp add: hex_text_def cstr_def)
qed (use assms in simp)

lemma panic_say_dec:
  assumes "cstr fmt = cstr label @ [37, 100, 10]" and "0 \<notin> set (cstr label)" and "37 \<notin> set (cstr label)"
    and "length label \<le> 100" and "v \<noteq> 0x8000000000000000"
  shows "panic_say fmt [Slot v] s = Ok (put_chars (cstr label @ signed_text (sint v) @ cstr ''\<newline>'') s)"
proof (rule panic_say_text)
  have min: "sint v \<noteq> INT64_MIN" using assms(5) by (simp add: sint_min_iff)
  then show "render (cstr fmt) [Slot v] = Some (cstr label @ signed_text (sint v) @ cstr ''\<newline>'')"
    unfolding assms(1) using render_run [OF assms(3), of "[37, 100, 10]" "[Slot v]"] by (simp add: cstr_def)
  show "length (cstr label @ signed_text (sint v) @ cstr ''\<newline>'') \<le> 2147483647"
    using decimal_text_length [OF min] assms(4) by (simp add: cstr_def)
qed (use assms in simp)

lemma cpu_lines_hex:
  "panic_say ''ERR CCODE: %x\<newline>'' [Slot v] s = Ok (put_chars (cstr ''ERR CCODE: '' @ hex_text v @ cstr ''\<newline>'') s)"
  "panic_say ''RIP: %x\<newline>'' [Slot v] s = Ok (put_chars (cstr ''RIP: '' @ hex_text v @ cstr ''\<newline>'') s)"
  "panic_say ''CS: %x\<newline>'' [Slot v] s = Ok (put_chars (cstr ''CS: '' @ hex_text v @ cstr ''\<newline>'') s)"
  "panic_say ''RFLAGS: %x\<newline>'' [Slot v] s = Ok (put_chars (cstr ''RFLAGS: '' @ hex_text v @ cstr ''\<newline>'') s)"
  "panic_say ''RSP: %x\<newline>'' [Slot v] s = Ok (put_chars (cstr ''RSP: '' @ hex_text v @ cstr ''\<newline>'') s)"
  "panic_say ''SS: %x\<newline>'' [Slot v] s = Ok (put_chars (cstr ''SS: '' @ hex_text v @ cstr ''\<newline>'') s)"
  "panic_say ''CR2: %x\<newline>'' [Slot v] s = Ok (put_chars (cstr ''CR2: '' @ hex_text v @ cstr ''\<newline>'') s)"
  by (rule panic_say_hex; simp add: cstr_def)+

lemma cpu_lines_dec:
  "v \<noteq> 0x8000000000000000 \<Longrightarrow>
    panic_say ''INT NO: %d\<newline>'' [Slot v] s = Ok (put_chars (cstr ''INT NO: '' @ signed_text (sint v) @ cstr ''\<newline>'') s)"
  "v \<noteq> 0x8000000000000000 \<Longrightarrow>
    panic_say ''RING: %d\<newline>'' [Slot v] s = Ok (put_chars (cstr ''RING: '' @ signed_text (sint v) @ cstr ''\<newline>'') s)"
  by (rule panic_say_dec; simp add: cstr_def)+

lemma cpu_title: "panic_say ''****CPU****\<newline>'' args s = Ok (put_chars (cstr ''****CPU****\<newline>'') s)"
  by (rule panic_say_text [OF _ render_literal]) (simp_all add: cstr_def)

lemmas cpu_lines = cpu_lines_hex cpu_lines_dec cpu_title

lemma panic_says:
  assumes "length msg \<le> 2147483600" and "length file \<le> 2147483600" and "0 < line" and "line < 2147483648"
    and "\<And>f. frame = Some f \<Longrightarrow> fr_int_no f \<noteq> 0x8000000000000000"
  shows "panic upper cr2 msg frame file line s = Halt (put_chars (panic_text upper cr2 msg frame file line) (cli s))"
proof (cases frame)
  case None
  then show ?thesis
    by (simp add: panic_def halt_def panic_text_def panic_header_says [OF assms(1-4)])
next
  case (Some f)
  have "bit (0x8000000000000000 :: u64) 63" and "\<not> bit (fr_cs f AND 3) 63" by (simp_all add: bit_simps)
  then have ring: "fr_cs f AND 3 \<noteq> 0x8000000000000000" by metis
  show ?thesis
    using assms(5) [OF Some] ring
    by (simp add: Some panic_def halt_def panic_text_def cpu_text_def panic_header_says [OF assms(1-4)]
        panic_fields_def cpu_lines put_chars_append)
qed

lemma panic_prints:
  assumes "length msg \<le> 1000" and "length file \<le> 1000" and "0 < line" and "line < 2147483648"
    and "\<And>f. frame = Some f \<Longrightarrow> fr_int_no f \<noteq> 0x8000000000000000"
  obtains out where "panic upper cr2 msg frame file line s = Halt (put_chars out (cli s))"
  using panic_says [of msg "file" line frame upper cr2 s] assms by simp

text \<open>
  C33: a panic reports and stops: for message and file strings of at most 2147483600 bytes, a
  positive line number and an interrupt number other than \<open>2 ^ 63\<close>, it never returns and
  never panics again. The terminal has received exactly the report (the header, the message,
  the place and, with a frame, the CPU state), and the machine is in the final halt loop with
  interrupts disabled; only the screen has changed. \<open>panic_msg\<close> does the same without a
  frame.
\<close>

theorem panic_stops_machine:
  assumes "tty_inv s" and "length msg \<le> 2147483600" and "length file \<le> 2147483600"
    and "0 < line" and "line < 2147483648"
    and "\<And>f. frame = Some f \<Longrightarrow> fr_int_no f \<noteq> 0x8000000000000000"
  shows "panic upper cr2 msg frame file line s = Halt (put_chars (panic_text upper cr2 msg frame file line) (cli s))
    \<and> panic_msg upper msg file line s = Halt (put_chars (panic_text upper cr2 msg None file line) (cli s))
    \<and> (\<forall>out. \<not> if_flag (put_chars out (cli s)) \<and> tty_frame (cli s) (put_chars out (cli s)))"
proof -
  have "tty_inv (cli s)" using assms(1) by (simp add: cli_def tty_inv_def)
  then have frame: "tty_frame (cli s) (put_chars out (cli s))" for out by (rule put_chars_frame)
  have "if_flag (put_chars out (cli s)) = if_flag (cli s)" for out
    using frame [of out] by (auto simp: tty_frame_def)
  then have "\<not> if_flag (put_chars out (cli s))" for out by (simp add: cli_def)
  moreover have "panic_msg upper msg file line s = Halt (put_chars (panic_text upper cr2 msg None file line) (cli s))"
    by (simp add: panic_msg_def halt_def panic_text_def panic_header_says [OF assms(2-5)])
  ultimately show ?thesis
    using frame panic_says [OF assms(2-6), where frame = frame] by blast
qed

definition example_frame :: interrupt_frame where
  "example_frame = \<lparr>fr_r15 = 0, fr_r14 = 0, fr_r13 = 0, fr_r12 = 0, fr_r11 = 0, fr_r10 = 0, fr_r9 = 0,
     fr_r8 = 0, fr_rbp = 0, fr_rdi = 0, fr_rsi = 0, fr_rdx = 0, fr_rcx = 0, fr_rbx = 0, fr_rax = 0,
     fr_int_no = 14, fr_err_code = 2, fr_rip = 0x401000, fr_cs = 0x23, fr_rflags = 0x202,
     fr_rsp = 0x7FFFF0, fr_ss = 0x1B\<rparr>"

text \<open>The report of a page fault.\<close>

theorem panic_stops_machine_witness:
  "panic 0 0xDEAD (cstr ''Page Fault error'') (Some example_frame) (cstr ''isr.c'') 37 example_tty
    = Halt (put_chars (cstr (
        ''*******************KERNEL PANIC*******************\<newline>Error: Page Fault error\<newline>File: isr.c (Line: 37)\<newline>'' @
        ''****CPU****\<newline>INT NO: 14\<newline>ERR CCODE: 0x2\<newline>RIP: 0x401000\<newline>CS: 0x23\<newline>RING: 3\<newline>'' @
        ''RFLAGS: 0x202\<newline>RSP: 0x7FFFF0\<newline>SS: 0x1B\<newline>CR2: 0xDEAD\<newline>'')) (cli example_tty))"
proof -
  have "panic_text 0 0xDEAD (cstr ''Page Fault error'') (Some example_frame) (cstr ''isr.c'') 37
    = cstr (''*******************KERNEL PANIC*******************\<newline>Error: Page Fault error\<newline>File: isr.c (Line: 37)\<newline>'' @
        ''****CPU****\<newline>INT NO: 14\<newline>ERR CCODE: 0x2\<newline>RIP: 0x401000\<newline>CS: 0x23\<newline>RING: 3\<newline>'' @
        ''RFLAGS: 0x202\<newline>RSP: 0x7FFFF0\<newline>SS: 0x1B\<newline>CR2: 0xDEAD\<newline>'')"
    by (simp add: panic_text_def panic_header_text_def cpu_text_def hex_text_def signed_text_def int_slot_def
        example_frame_def numeral_of.simps digits_table cstr_def)
  moreover have "panic 0 0xDEAD (cstr ''Page Fault error'') (Some example_frame) (cstr ''isr.c'') 37 example_tty
      = Halt (put_chars (panic_text 0 0xDEAD (cstr ''Page Fault error'') (Some example_frame) (cstr ''isr.c'') 37)
          (cli example_tty))"
    by (rule panic_stops_machine [THEN conjunct1, OF example_tty_inv])
      (auto simp: cstr_def example_frame_def)
  ultimately show ?thesis by simp
qed

end
