(* ===== verification/Pic.thy ===== *)
theory Pic
  imports Machine
begin

text \<open>
  The two 8259 interrupt controllers: \<open>kernel/interrupts/pic.c\<close>. Every function is the
  sequence of port accesses of its C body; the answers of the controllers are the parameter
  \<open>dev\<close>. The lemmas read the sequences back as what the controllers receive.
\<close>

definition PIC1_COMMAND :: u16 where "PIC1_COMMAND = 0x20"
definition PIC1_DATA :: u16 where "PIC1_DATA = 0x21"
definition PIC2_COMMAND :: u16 where "PIC2_COMMAND = 0xA0"
definition PIC2_DATA :: u16 where "PIC2_DATA = 0xA1"
definition PIC_EOI :: u8 where "PIC_EOI = 0x20"
definition ICW1_INIT :: u8 where "ICW1_INIT = 0x10"
definition ICW1_ICW4 :: u8 where "ICW1_ICW4 = 0x01"
definition ICW4_8086 :: u8 where "ICW4_8086 = 0x01"

lemmas pic_consts = PIC1_COMMAND_def PIC1_DATA_def PIC2_COMMAND_def PIC2_DATA_def PIC_EOI_def
  ICW1_INIT_def ICW1_ICW4_def ICW4_8086_def

definition io_wait :: "'a machine_scheme \<Rightarrow> 'a machine_scheme" where
  "io_wait s = outb 0x80 0 s"

definition outb_wait :: "u16 \<Rightarrow> u8 \<Rightarrow> 'a machine_scheme \<Rightarrow> 'a machine_scheme" where
  "outb_wait port val s = io_wait (outb port val s)"

definition pic_remap :: "device \<Rightarrow> int \<Rightarrow> int \<Rightarrow> 'a machine_scheme \<Rightarrow> 'a machine_scheme" where
  "pic_remap dev offset1 offset2 s =
     (let (mask1, s) = inb dev PIC1_DATA s;
          (mask2, s) = inb dev PIC2_DATA s;
          s = outb_wait PIC1_COMMAND (ICW1_INIT OR ICW1_ICW4) s;
          s = outb_wait PIC2_COMMAND (ICW1_INIT OR ICW1_ICW4) s;
          s = outb_wait PIC1_DATA (of_int offset1) s;
          s = outb_wait PIC2_DATA (of_int offset2) s;
          s = outb_wait PIC1_DATA 4 s;
          s = outb_wait PIC2_DATA 2 s;
          s = outb_wait PIC1_DATA ICW4_8086 s;
          s = outb_wait PIC2_DATA ICW4_8086 s;
          s = outb PIC1_DATA mask1 s
      in outb PIC2_DATA mask2 s)"

definition pic_send_eoi :: "u8 \<Rightarrow> 'a machine_scheme \<Rightarrow> 'a machine_scheme" where
  "pic_send_eoi irq s =
     (let s1 = (if irq \<ge> 8 then outb PIC2_COMMAND PIC_EOI s else s)
      in outb PIC1_COMMAND PIC_EOI s1)"

text \<open>The port and the line of an IRQ, and \<open>1 << irq_line\<close> as a 32-bit \<open>int\<close>.\<close>

definition irq_port :: "u8 \<Rightarrow> u16" where
  "irq_port irq = (if irq < 8 then PIC1_DATA else PIC2_DATA)"

definition irq_line :: "u8 \<Rightarrow> u8" where
  "irq_line irq = (if irq < 8 then irq else irq - 8)"

definition pic_set_mask :: "device \<Rightarrow> u8 \<Rightarrow> 'a machine_scheme \<Rightarrow> c_error + 'a machine_scheme" where
  "pic_set_mask dev irq s =
     (if unat (irq_line irq) \<ge> 31 then Inl Shift_overflow
      else
        let (old, s) = inb dev (irq_port irq) s;
            val = ucast (ucast old OR push_bit (unat (irq_line irq)) (1 :: u32))
        in Inr (outb (irq_port irq) val s))"

definition pic_clear_mask :: "device \<Rightarrow> u8 \<Rightarrow> 'a machine_scheme \<Rightarrow> c_error + 'a machine_scheme" where
  "pic_clear_mask dev irq s =
     (if unat (irq_line irq) \<ge> 31 then Inl Shift_overflow
      else
        let (old, s) = inb dev (irq_port irq) s;
            val = ucast (ucast old AND NOT (push_bit (unat (irq_line irq)) (1 :: u32)))
        in Inr (outb (irq_port irq) val s))"

section \<open>What the functions leave alone\<close>

lemma inb_eq: "inb dev p s = (dev (io_log s) p, s\<lparr>io_log := io_log s @ [In p (dev (io_log s) p)]\<rparr>)"
  by (simp add: inb_def Let_def)

lemma outb_update: "outb p v (s\<lparr>io_log := l\<rparr>) = s\<lparr>io_log := l @ [Out p v]\<rparr>"
  by (simp add: outb_def)

lemma outb_wait_update: "outb_wait p v (s\<lparr>io_log := l\<rparr>) = s\<lparr>io_log := l @ [Out p v, Out 0x80 0]\<rparr>"
  by (simp add: outb_wait_def io_wait_def outb_update)

text \<open>The new events of an operation that only accesses ports.\<close>

definition appends :: "'a machine_scheme \<Rightarrow> io_event list \<Rightarrow> 'a machine_scheme \<Rightarrow> bool" where
  "appends s evs t \<longleftrightarrow> t = s\<lparr>io_log := io_log s @ evs\<rparr>"

lemma pic_remap_events:
  "\<exists>evs. appends s evs (pic_remap dev offset1 offset2 s)
     \<and> writes_to PIC1_COMMAND evs = [0x11] \<and> writes_to PIC2_COMMAND evs = [0x11]
     \<and> writes_to PIC1_DATA evs = [of_int offset1, 4, 1, dev (io_log s) PIC1_DATA]
     \<and> (\<exists>mask2. writes_to PIC2_DATA evs = [of_int offset2, 2, 1, mask2]
          \<and> mask2 = dev (io_log s @ [In PIC1_DATA (dev (io_log s) PIC1_DATA)]) PIC2_DATA)"
proof -
  let ?m1 = "dev (io_log s) PIC1_DATA"
  let ?m2 = "dev (io_log s @ [In PIC1_DATA ?m1]) PIC2_DATA"
  define evs where "evs = [In PIC1_DATA ?m1, In PIC2_DATA ?m2, Out 0x20 0x11, Out 0x80 0, Out 0xA0 0x11, Out 0x80 0,
    Out 0x21 (of_int offset1), Out 0x80 0, Out 0xA1 (of_int offset2), Out 0x80 0, Out 0x21 4, Out 0x80 0,
    Out 0xA1 2, Out 0x80 0, Out 0x21 1, Out 0x80 0, Out 0xA1 1, Out 0x80 0, Out 0x21 ?m1, Out 0xA1 ?m2]"
  have "pic_remap dev offset1 offset2 s = s\<lparr>io_log := io_log s @ evs\<rparr>"
    unfolding pic_remap_def
    by (simp add: inb_eq outb_wait_update outb_update Let_def evs_def pic_consts)
  then show ?thesis
    by (intro exI [of _ evs]) (simp add: appends_def evs_def pic_consts)
qed

lemma pic_send_eoi_events:
  "appends s ((if irq \<ge> 8 then [Out 0xA0 0x20] else []) @ [Out 0x20 0x20]) (pic_send_eoi irq s)"
  by (simp add: appends_def pic_send_eoi_def outb_def pic_consts Let_def)

section \<open>The controllers\<close>

text \<open>
  What a controller makes of the accesses to its two ports: a command with bit 4 starts the
  initialisation and clears the mask; the next three bytes of the data port are the vector
  offset (whose low three bits the controller fills in), the wiring and the mode; every other
  byte of the data port is the mask. (The commands of this kernel ask for all three; before
  them the BIOS has put IRQ 0 to 7 on vectors 8 to 15.) Interrupts in service and their end
  are not part of this state.
\<close>

record controller =
  vector_offset :: u8
  line_mask :: u8
  init_words :: nat

definition bios_controller :: controller where
  "bios_controller = \<lparr>vector_offset = 8, line_mask = 0xFF, init_words = 0\<rparr>"

fun controller_step :: "u16 \<Rightarrow> u16 \<Rightarrow> io_event \<Rightarrow> controller \<Rightarrow> controller" where
  "controller_step command data (In port v) c = c"
| "controller_step command data (Out port v) c =
     (if port = command then (if bit v 4 then c\<lparr>line_mask := 0, init_words := 3\<rparr> else c)
      else if port = data then
        (if init_words c = 0 then c\<lparr>line_mask := v\<rparr>
         else if init_words c = 3 then c\<lparr>vector_offset := v AND 0xF8, init_words := 2\<rparr>
         else c\<lparr>init_words := init_words c - 1\<rparr>)
      else c)"

definition master :: "io_event list \<Rightarrow> controller" where
  "master log = fold (controller_step PIC1_COMMAND PIC1_DATA) log bios_controller"

definition slave :: "io_event list \<Rightarrow> controller" where
  "slave log = fold (controller_step PIC2_COMMAND PIC2_DATA) log bios_controller"

text \<open>The vector that a request on line \<open>n\<close> reaches the CPU with; none if it is masked.\<close>

definition request_vector :: "io_event list \<Rightarrow> nat \<Rightarrow> nat option" where
  "request_vector log n =
     (if n < 8 then (if bit (line_mask (master log)) n then None else Some (unat (vector_offset (master log)) + n))
      else if bit (line_mask (slave log)) (n - 8) \<or> bit (line_mask (master log)) 2 then None
      else Some (unat (vector_offset (slave log)) + (n - 8)))"

text \<open>The master controller after \<open>pic_remap\<close>: in operation, IRQ 0 to 7 on vectors 32 to 39.\<close>

definition remapped :: "io_event list \<Rightarrow> bool" where
  "remapped log \<longleftrightarrow> init_words (master log) = 0 \<and> vector_offset (master log) = 0x20"

lemma master_append: "master (log @ evs) = fold (controller_step 0x20 0x21) evs (master log)"
  by (simp add: master_def pic_consts)

lemma pic_remap_remaps: "remapped (io_log (pic_remap dev 0x20 0x28 s))"
  by (simp add: pic_remap_def remapped_def inb_eq outb_wait_def io_wait_def outb_def Let_def master_append pic_consts)

text \<open>Port accesses that do not concern the master controller, and the ones that set its mask.\<close>

definition other_ports :: "io_event list \<Rightarrow> bool" where
  "other_ports evs \<longleftrightarrow> (\<forall>port v. Out port v \<in> set evs \<longrightarrow> port \<noteq> 0x21 \<and> (port = 0x20 \<longrightarrow> v = 0x20))"

lemma other_ports_master: "other_ports evs \<Longrightarrow> master (log @ evs) = master log"
proof (induction evs arbitrary: log)
  case (Cons ev evs)
  have "other_ports evs" using Cons.prems by (auto simp: other_ports_def)
  moreover have "master (log @ [ev]) = master log"
  proof (cases ev)
    case (Out port v)
    then have "port \<noteq> 0x21" "port = 0x20 \<Longrightarrow> v = 0x20" using Cons.prems by (auto simp: other_ports_def)
    then show ?thesis by (auto simp: Out master_append)
  qed (simp add: master_append)
  ultimately show ?case using Cons.IH [of "log @ [ev]"] by simp
qed simp

lemma remapped_mask:
  assumes "remapped log" and "other_ports evs" and "n < 8" and "\<not> bit v n"
  shows "remapped (log @ evs @ [In 0x21 w, Out 0x21 v])"
    and "request_vector (log @ evs @ [In 0x21 w, Out 0x21 v]) n = Some (32 + n)"
proof -
  have "master (log @ evs @ [In 0x21 w, Out 0x21 v]) = (master log)\<lparr>line_mask := v\<rparr>"
    using assms(1) other_ports_master [OF assms(2), of log] master_append [of "log @ evs" "[In 0x21 w, Out 0x21 v]"]
    by (simp add: remapped_def)
  then show "remapped (log @ evs @ [In 0x21 w, Out 0x21 v])"
    "request_vector (log @ evs @ [In 0x21 w, Out 0x21 v]) n = Some (32 + n)"
    using assms by (simp_all add: remapped_def request_vector_def)
qed

section \<open>Masks\<close>

lemma irq_line_small: "irq < 16 \<Longrightarrow> unat (irq_line irq) = unat irq mod 8"
proof -
  assume irq: "irq < 16"
  then have "unat irq < 16" by (simp add: word_less_nat_alt)
  moreover have "unat (irq - 8) = unat irq - 8" if "\<not> irq < 8"
    using that by (simp add: unat_sub word_less_nat_alt word_le_nat_alt)
  ultimately show ?thesis
    by (auto simp: irq_line_def word_less_nat_alt mod_if)
qed

lemma mask_bits:
  fixes old :: u8
  assumes "n < 8" and "j < 8"
  shows "bit (ucast (ucast old OR push_bit n (1 :: u32)) :: u8) j \<longleftrightarrow> bit old j \<or> j = n"
    and "bit (ucast (ucast old AND NOT (push_bit n (1 :: u32))) :: u8) j \<longleftrightarrow> bit old j \<and> j \<noteq> n"
  using assms by (auto simp: bit_simps)

section \<open>Properties\<close>

text \<open>
  C34: masking or unmasking an IRQ reads and writes the mask register of the right controller
  only, and the value written differs from the value read in that IRQ's bit alone.
\<close>

theorem pic_masks_one_line:
  assumes "irq < 16" and "j < 8"
  defines "port \<equiv> (if irq < 8 then 0x21 else 0xA1)"
  shows "\<exists>set clear. let old = dev (io_log s) port in
    pic_set_mask dev irq s = Inr (s\<lparr>io_log := io_log s @ [In port old, Out port set]\<rparr>)
    \<and> pic_clear_mask dev irq s = Inr (s\<lparr>io_log := io_log s @ [In port old, Out port clear]\<rparr>)
    \<and> bit set j = (bit old j \<or> j = unat irq mod 8)
    \<and> bit clear j = (bit old j \<and> j \<noteq> unat irq mod 8)"
proof -
  have line: "unat (irq_line irq) = unat irq mod 8" by (rule irq_line_small [OF assms(1)])
  then have small: "\<not> unat (irq_line irq) \<ge> 31" by simp
  have port: "irq_port irq = port" by (simp add: irq_port_def port_def pic_consts)
  let ?old = "dev (io_log s) port" and ?n = "unat irq mod 8"
  let ?set = "ucast (ucast ?old OR push_bit ?n (1 :: u32)) :: u8"
  let ?clear = "ucast (ucast ?old AND NOT (push_bit ?n (1 :: u32))) :: u8"
  have "pic_set_mask dev irq s = Inr (s\<lparr>io_log := io_log s @ [In port ?old, Out port ?set]\<rparr>)"
    "pic_clear_mask dev irq s = Inr (s\<lparr>io_log := io_log s @ [In port ?old, Out port ?clear]\<rparr>)"
    using small by (simp_all add: pic_set_mask_def pic_clear_mask_def inb_eq port line outb_def)
  moreover have "bit ?set j = (bit ?old j \<or> j = ?n)" "bit ?clear j = (bit ?old j \<and> j \<noteq> ?n)"
    using mask_bits [of ?n j ?old] assms(2) by simp_all
  ultimately show ?thesis unfolding Let_def by blast
qed

theorem pic_masks_one_line_witness:
  "\<exists>set clear.
    pic_set_mask (\<lambda>_ _. 0xF9) 10 \<lparr>mem = \<lambda>_. 0, io_log = [], if_flag = False\<rparr>
      = Inr \<lparr>mem = \<lambda>_. 0, io_log = [In 0xA1 0xF9, Out 0xA1 set], if_flag = False\<rparr>
    \<and> pic_clear_mask (\<lambda>_ _. 0xF9) 10 \<lparr>mem = \<lambda>_. 0, io_log = [], if_flag = False\<rparr>
      = Inr \<lparr>mem = \<lambda>_. 0, io_log = [In 0xA1 0xF9, Out 0xA1 clear], if_flag = False\<rparr>
    \<and> bit set 2 \<and> \<not> bit clear 2"
  using pic_masks_one_line [of 10 2 "\<lambda>_ _. 0xF9" "\<lparr>mem = \<lambda>_. 0, io_log = [], if_flag = False\<rparr>"]
  by simp

text \<open>
  \<open>pic_remap\<close> runs the initialisation protocol of the 8259: each controller receives
  ICW1, then its vector offset, its cascade wiring, 8086 mode, and finally the very mask that
  was read from it before, in this order, and nothing but ports is touched.
\<close>

theorem pic_remap_protocol:
  "\<exists>evs mask1 mask2. pic_remap dev offset1 offset2 s = s\<lparr>io_log := io_log s @ evs\<rparr>
     \<and> writes_to 0x20 evs = [0x11] \<and> writes_to 0xA0 evs = [0x11]
     \<and> writes_to 0x21 evs = [of_int offset1, 4, 1, mask1] \<and> writes_to 0xA1 evs = [of_int offset2, 2, 1, mask2]
     \<and> mask1 = dev (io_log s) 0x21 \<and> mask2 = dev (io_log s @ [In 0x21 mask1]) 0xA1"
  using pic_remap_events [of s dev offset1 offset2] unfolding appends_def by (auto simp: pic_consts)

end
