(* ===== verification/Isr.thy ===== *)
theory Isr
  imports Heap Panic Pic
begin

text \<open>
  Interrupt dispatch: \<open>kernel/interrupts/isr.c\<close>. The table of C function pointers is a
  list of handler names; what a name does is the parameter \<open>call\<close>, instantiated with the
  kernel's handlers in \<open>Kernel\<close>. A handler receives the saved frame by reference and may
  change it, so it returns the frame beside the state. The locale \<open>interrupt_system\<close>
  carries an invariant of the handlers through the dispatchers.
\<close>

section \<open>The code\<close>

datatype handler = Breakpoint_handler | Keyboard_handler | Pit_handler | Syscall_handler

record isr = heap +
  interrupt_handlers :: "handler option list"

type_synonym 's handler_call = "handler \<Rightarrow> interrupt_frame \<Rightarrow> 's \<Rightarrow> (interrupt_frame \<times> 's) outcome"

definition register_interrupt_handler :: "u8 \<Rightarrow> handler \<Rightarrow> 'a isr_scheme \<Rightarrow> 'a isr_scheme" where
  "register_interrupt_handler vector handler s =
     s\<lparr>interrupt_handlers := (interrupt_handlers s)[unat vector := Some handler]\<rparr>"

text \<open>\<open>PANIC(msg, frame)\<close> in this file.\<close>

definition isr_panic ::
  "u32 \<Rightarrow> u64 \<Rightarrow> string \<Rightarrow> int \<Rightarrow> interrupt_frame \<Rightarrow> 'a isr_scheme \<Rightarrow> (interrupt_frame \<times> 'a isr_scheme) outcome" where
  "isr_panic upper cr2 msg line frame s =
     map_outcome (Pair frame) (panic upper cr2 (cstr msg) (Some frame) (cstr ''kernel/interrupts/isr.c'') line s)"

definition isr_handler ::
  "'a isr_scheme handler_call \<Rightarrow> u32 \<Rightarrow> u64 \<Rightarrow> interrupt_frame \<Rightarrow> 'a isr_scheme \<Rightarrow>
    (interrupt_frame \<times> 'a isr_scheme) outcome" where
  "isr_handler call upper cr2 frame s =
     (if fr_int_no frame = 8 then isr_panic upper cr2 ''Double Fault Error'' 19 frame s
      else if fr_int_no frame = 13 then isr_panic upper cr2 ''General Protection Fault'' 24 frame s
      else if fr_int_no frame = 14 then
        (case interrupt_handlers s ! 14 of
           Some h \<Rightarrow> call h frame s
         | None \<Rightarrow> isr_panic upper cr2 ''Page Fault error'' 37 frame s)
      else if unat (fr_int_no frame) \<ge> 256 then UB Out_of_bounds
      else
        (case interrupt_handlers s ! unat (fr_int_no frame) of
           Some h \<Rightarrow> call h frame s
         | None \<Rightarrow> isr_panic upper cr2 ''Unhandled exception'' 47 frame s))"

definition irq_handler ::
  "'a isr_scheme handler_call \<Rightarrow> interrupt_frame \<Rightarrow> 'a isr_scheme \<Rightarrow>
    (interrupt_frame \<times> 'a isr_scheme) outcome" where
  "irq_handler call frame s =
     (if unat (fr_int_no frame) \<ge> 256 then UB Out_of_bounds
      else
        bind_ok
          (case interrupt_handlers s ! unat (fr_int_no frame) of
             Some h \<Rightarrow> call h frame s
           | None \<Rightarrow> Ok (frame, s))
          (\<lambda>(frame, s). Ok (frame, pic_send_eoi (ucast (fr_int_no frame - 32)) s)))"

section \<open>Registration\<close>

lemma registered:
  assumes "length (interrupt_handlers s) = 256"
  shows "interrupt_handlers (register_interrupt_handler v h s) ! unat w
      = (if v = w then Some h else interrupt_handlers s ! unat w)"
    and "length (interrupt_handlers (register_interrupt_handler v h s)) = 256"
proof -
  have "unat v < 256" using unsigned_less [of v] by simp
  with assms show "interrupt_handlers (register_interrupt_handler v h s) ! unat w
      = (if v = w then Some h else interrupt_handlers s ! unat w)"
    by (auto simp: register_interrupt_handler_def nth_list_update word_unat_eq_iff)
qed (use assms in \<open>simp add: register_interrupt_handler_def\<close>)

section \<open>Panics of the dispatcher\<close>

lemma isr_panic_halts:
  assumes "fr_int_no frame \<noteq> 0x8000000000000000" and "length msg \<le> 1000" and "0 < line" and "line < 2147483648"
  obtains out where "isr_panic upper cr2 msg line frame s = Halt (frame, put_chars out (cli s))"
proof -
  have "length (cstr msg) \<le> 1000" "length (cstr ''kernel/interrupts/isr.c'') \<le> 1000"
    using assms(2) by (simp_all add: cstr_def)
  then obtain out where "panic upper cr2 (cstr msg) (Some frame) (cstr ''kernel/interrupts/isr.c'') line s
      = Halt (put_chars out (cli s))"
    by (rule panic_prints [where frame = "Some frame"]) (use assms in auto)
  then show thesis by (intro that) (simp add: isr_panic_def)
qed

section \<open>Invariants through dispatch\<close>

text \<open>
  \<open>inv\<close> holds of a kernel state whatever the screen shows, whatever was sent to the ports
  and whether or not interrupts are enabled, and every handler keeps it.
\<close>

locale interrupt_system =
  fixes call :: "'a isr_scheme handler_call"
    and inv :: "'a isr_scheme \<Rightarrow> bool"
  assumes inv_tty: "inv s \<Longrightarrow> tty_inv s"
    and inv_screen: "inv s \<Longrightarrow> tty_inv t \<Longrightarrow> tty_frame s t \<Longrightarrow> inv t"
    and inv_ports: "inv s \<Longrightarrow> inv (s\<lparr>io_log := l\<rparr>)"
    and inv_if: "inv s \<Longrightarrow> inv (s\<lparr>if_flag := b\<rparr>)"
    and inv_call: "inv s \<Longrightarrow> outcome_state (call h frame s) = Some (frame', t) \<Longrightarrow> inv t"
begin

lemma inv_put_chars: "inv s \<Longrightarrow> inv (put_chars out s)"
  using inv_screen inv_tty put_chars_inv put_chars_frame by blast

lemma inv_panic:
  assumes "inv s" and "fr_int_no frame \<noteq> 0x8000000000000000" and "length msg \<le> 1000"
    and "0 < line" and "line < 2147483648"
    and "outcome_state (isr_panic upper cr2 msg line frame s) = Some (frame', t)"
  shows "inv t"
proof -
  obtain out where "isr_panic upper cr2 msg line frame s = Halt (frame, put_chars out (cli s))"
    by (rule isr_panic_halts [OF assms(2-5)])
  moreover have "inv (cli s)" unfolding cli_def by (rule inv_if [OF assms(1)])
  ultimately show ?thesis using assms(6) inv_put_chars by auto
qed

lemma isr_handler_inv:
  assumes "inv s" and "fr_int_no frame < 256"
    and "outcome_state (isr_handler call upper cr2 frame s) = Some (frame', t)"
  shows "inv t"
proof -
  have no: "fr_int_no frame \<noteq> 0x8000000000000000" using assms(2) by auto
  show ?thesis
    using assms(3) unfolding isr_handler_def
    by (auto split: if_splits option.splits intro: inv_call [OF assms(1)]
        inv_panic [OF assms(1) no, rotated 3])
qed

lemma irq_handler_inv:
  assumes "inv s" and "outcome_state (irq_handler call frame s) = Some (frame', t)"
  shows "inv t"
proof -
  let ?x = "case interrupt_handlers s ! unat (fr_int_no frame) of
      Some h \<Rightarrow> call h frame s | None \<Rightarrow> Ok (frame, s)"
  have x: "inv (snd r)" if "outcome_state ?x = Some r" for r
    using that assms(1) inv_call [OF assms(1)] by (cases r) (auto split: option.splits)
  have "inv (snd (frame', t))"
  proof (rule bind_ok_invariant [where P = "\<lambda>r. inv (snd r)", OF x])
    show "outcome_state (bind_ok ?x (\<lambda>(frame, s). Ok (frame, pic_send_eoi (ucast (fr_int_no frame - 32)) s)))
        = Some (frame', t)"
      using assms(2) by (auto simp: irq_handler_def split: if_splits)
    fix r r' :: "interrupt_frame \<times> 'a isr_scheme" assume "inv (snd r)"
      and "outcome_state ((\<lambda>(frame, s). Ok (frame, pic_send_eoi (ucast (fr_int_no frame - 32)) s)) r) = Some r'"
    then show "inv (snd r')"
      by (cases r) (auto simp: pic_send_eoi_events [unfolded appends_def] intro: inv_ports)
  qed
  then show ?thesis by simp
qed

end

lemma isr_fatal:
  assumes "tty_inv s"
    and "fr_int_no frame \<in> {8, 13} \<or> fr_int_no frame < 256 \<and> interrupt_handlers s ! unat (fr_int_no frame) = None"
  shows "\<exists>t. isr_handler call upper cr2 frame s = Halt (frame, t) \<and> \<not> if_flag t \<and> tty_frame (cli s) t"
proof -
  have no: "fr_int_no frame \<noteq> 0x8000000000000000" "unat (fr_int_no frame) < 256"
    using assms(2) by (auto simp: word_less_nat_alt)
  define panics where "panics = (\<lambda>x. \<exists>msg line. x = isr_panic upper cr2 msg line frame s
      \<and> length msg \<le> 1000 \<and> 0 < line \<and> line < 2147483648)"
  have panicsI: "panics (isr_panic upper cr2 msg line frame s)"
    if "length msg \<le> 1000" "0 < line" "line < 2147483648" for msg line
    using that unfolding panics_def by blast
  have "panics (isr_handler call upper cr2 frame s)"
    using assms(2) no(2) by (auto simp: isr_handler_def intro!: panicsI)
  then obtain msg line where eq: "isr_handler call upper cr2 frame s = isr_panic upper cr2 msg line frame s"
    and msg: "length msg \<le> 1000" "0 < line" "line < 2147483648" unfolding panics_def by blast
  obtain out where out: "isr_panic upper cr2 msg line frame s = Halt (frame, put_chars out (cli s))"
    by (rule isr_panic_halts [OF no(1) msg])
  have "tty_inv (cli s)" using assms(1) by (simp add: cli_def tty_inv_def)
  then have "tty_frame (cli s) (put_chars out (cli s))" by (rule put_chars_frame)
  moreover from this have "if_flag (put_chars out (cli s)) = if_flag (cli s)" by (auto simp: tty_frame_def)
  ultimately show ?thesis using eq out by (simp add: cli_def)
qed

text \<open>
  The line to acknowledge is read from the frame after the handler: when a handler has put
  the frame of a fresh task there, the slave controller is acknowledged too, whatever the line.
\<close>

lemma irq_eoi_of_swapped_frame:
  assumes "fr_int_no frame < 256" and "interrupt_handlers s ! unat (fr_int_no frame) = Some h"
    and "call h frame s = Ok (frame', t)" and "fr_int_no frame' = 0"
  shows "irq_handler call frame s = Ok (frame', t\<lparr>io_log := io_log t @ [Out 0xA0 0x20, Out 0x20 0x20]\<rparr>)"
proof -
  have "\<not> unat (fr_int_no frame) \<ge> 256" using assms(1) by (simp add: word_less_nat_alt)
  with assms(2-4) show ?thesis
    using pic_send_eoi_events [of t "ucast (fr_int_no frame' - 32)"] by (simp add: irq_handler_def appends_def)
qed

section \<open>Properties\<close>

text \<open>
  C31: faults that the kernel treats as fatal stop the machine whatever handlers are
  registered: double fault and general protection fault always, any other exception when its
  slot in the table is empty. The machine halts with interrupts disabled, only the screen
  has changed.
\<close>

theorem isr_fatal_halts:
  assumes "tty_inv s"
    and "fr_int_no frame \<in> {8, 13} \<or> fr_int_no frame < 256 \<and> interrupt_handlers s ! unat (fr_int_no frame) = None"
  shows "\<exists>t. isr_handler call upper cr2 frame s = Halt (frame, t) \<and> \<not> if_flag t \<and> tty_frame (cli s) t"
  using assms by (rule isr_fatal)

definition example_isr :: isr where
  "example_isr = \<lparr>mem = (\<lambda>_. 0), io_log = [], if_flag = True, cursor_x = 0, cursor_y = 0, terminal_color = 15,
     terminal_buffer = VGA, heap_beginning = 0, heap_end = 0, last_alloc = 0, memory_used = 0,
     interrupt_handlers = (replicate 256 None)[33 := Some Keyboard_handler]\<rparr>"

theorem isr_fatal_halts_witness:
  "\<exists>t. isr_handler (\<lambda>h f s. Ok (f, s)) 0 0xDEAD example_frame example_isr = Halt (example_frame, t)
    \<and> \<not> if_flag t \<and> tty_frame (cli example_isr) t"
  by (rule isr_fatal_halts)
    (simp_all add: example_isr_def example_frame_def tty_inv_def VGA_WIDTH_def VGA_HEIGHT_def)

text \<open>
  C32: a hardware interrupt is acknowledged exactly once, after the handler (if any) has
  returned: the master controller receives one end-of-interrupt command, preceded by one to
  the slave controller if the interrupt number found in the frame then, less 32 and cut to a
  byte, is a line of the slave or beyond. If the handler left that number alone, the slave is
  acknowledged exactly for IRQ 8 to 15. If it put the frame of a fresh task there (number 0,
  as a task switch does), the slave is acknowledged too, whatever the line was.
\<close>

theorem irq_acknowledged:
  assumes "32 \<le> fr_int_no frame" and "fr_int_no frame < 48"
    and "interrupt_handlers s ! unat (fr_int_no frame) = None \<and> (frame', t) = (frame, s)
      \<or> (\<exists>h. interrupt_handlers s ! unat (fr_int_no frame) = Some h \<and> call h frame s = Ok (frame', t))"
  shows "\<exists>slave. irq_handler call frame s = Ok (frame', t\<lparr>io_log := io_log t @ slave @ [Out 0x20 0x20]\<rparr>)
    \<and> slave = (if unat (ucast (fr_int_no frame' - 32) :: u8) < 8 then [] else [Out 0xA0 0x20])
    \<and> (fr_int_no frame' = fr_int_no frame \<longrightarrow> slave = (if fr_int_no frame < 40 then [] else [Out 0xA0 0x20]))
    \<and> (fr_int_no frame' = 0 \<longrightarrow> slave = [Out 0xA0 0x20])"
proof -
  have small: "\<not> unat (fr_int_no frame) \<ge> 256" using assms(2) by (simp add: word_less_nat_alt)
  have run: "(case interrupt_handlers s ! unat (fr_int_no frame) of
      Some h \<Rightarrow> call h frame s | None \<Rightarrow> Ok (frame, s)) = Ok (frame', t)"
    using assms(3) by auto
  have "unat (fr_int_no frame - 32) = unat (fr_int_no frame) - 32"
    using assms(1) by (simp add: unat_minus_le)
  then have "unat (ucast (fr_int_no frame - 32) :: u8) = unat (fr_int_no frame) - 32"
    using assms(2) by (simp add: unsigned_ucast_eq take_bit_nat_eq_self word_less_nat_alt)
  then have own: "unat (ucast (fr_int_no frame' - 32) :: u8) < 8 \<longleftrightarrow> fr_int_no frame < 40"
    if "fr_int_no frame' = fr_int_no frame"
    using assms(1) that by (auto simp: word_le_nat_alt word_less_nat_alt)
  let ?slave = "if unat (ucast (fr_int_no frame' - 32) :: u8) < 8 then [] else [Out 0xA0 0x20]"
  have "irq_handler call frame s = Ok (frame', t\<lparr>io_log := io_log t @ ?slave @ [Out 0x20 0x20]\<rparr>)"
    using small run pic_send_eoi_events [of t "ucast (fr_int_no frame' - 32)"]
    by (simp add: irq_handler_def appends_def word_le_nat_alt not_less)
  moreover have "unat (ucast (0 - 32 :: u64) :: u8) = 224" by simp
  ultimately show ?thesis
    using own by (intro exI [of _ ?slave]) simp
qed

text \<open>A key press, and a timer tick whose handler loads the frame of a fresh task.\<close>

theorem irq_acknowledged_witness:
  "irq_handler (\<lambda>h f s. Ok (f, s)) (example_frame\<lparr>fr_int_no := 33\<rparr>) example_isr
      = Ok (example_frame\<lparr>fr_int_no := 33\<rparr>, example_isr\<lparr>io_log := [Out 0x20 0x20]\<rparr>)
    \<and> irq_handler (\<lambda>h f s. Ok (f\<lparr>fr_int_no := 0\<rparr>, s)) (example_frame\<lparr>fr_int_no := 33\<rparr>) example_isr
      = Ok (example_frame\<lparr>fr_int_no := 0\<rparr>, example_isr\<lparr>io_log := [Out 0xA0 0x20, Out 0x20 0x20]\<rparr>)"
proof
  let ?f = "example_frame\<lparr>fr_int_no := 33\<rparr>" and ?g = "example_frame\<lparr>fr_int_no := 0\<rparr>"
  have h: "interrupt_handlers example_isr ! unat (fr_int_no ?f) = Some Keyboard_handler"
    by (simp add: example_isr_def)
  have log: "io_log example_isr = []" by (simp add: example_isr_def)
  have no: "32 \<le> fr_int_no ?f" "fr_int_no ?f < 48" "fr_int_no ?f < 40" by simp_all
  show "irq_handler (\<lambda>h f s. Ok (f, s)) ?f example_isr = Ok (?f, example_isr\<lparr>io_log := [Out 0x20 0x20]\<rparr>)"
    using irq_acknowledged [of ?f example_isr ?f example_isr "\<lambda>h f s. Ok (f, s)", OF no(1,2)] h no(3) log by auto
  show "irq_handler (\<lambda>h f s. Ok (f\<lparr>fr_int_no := 0\<rparr>, s)) ?f example_isr
      = Ok (?g, example_isr\<lparr>io_log := [Out 0xA0 0x20, Out 0x20 0x20]\<rparr>)"
    using irq_acknowledged [of ?f example_isr ?g example_isr "\<lambda>h f s. Ok (f\<lparr>fr_int_no := 0\<rparr>, s)", OF no(1,2)] h log
    by auto
qed

end
