(* ===== verification/Keyboard.thy ===== *)
theory Keyboard
  imports Isr
begin

text \<open>
  The keyboard driver: \<open>kernel/drivers/keyboard.c\<close>. Keys go from the interrupt handler to
  \<open>keyboard_get_key\<close> through a ring buffer of 256 bytes. The ring is shown to implement a
  queue that keeps the last 255 keys; the locale \<open>bounded_queue\<close> states that contract. The
  controller behind port 0x60 is the parameter \<open>dev\<close>.
\<close>

section \<open>State and tables\<close>

record kbd = isr +
  keycache :: "u8 list"
  kbd_head :: u16
  kbd_tail :: u16
  kbd_shift :: u8
  kbd_caps :: u8
  kbd_enabled :: u8

definition KBD_BUFFER_SIZE :: nat where
  "KBD_BUFFER_SIZE = 256"

definition scancode_ascii :: "u8 list" where
  "scancode_ascii =
     [0, 27] @ cstr ''1234567890-='' @ [8] @
     [9] @ cstr ''qwertzuiop[]'' @ [10] @
     [0] @ cstr ''asdfghjkl;'' @ [39, 96] @
     [0, 92] @ cstr ''yxcvbnm,./'' @ [0] @
     cstr ''*'' @ [0] @ cstr '' ''"

definition scancode_ascii_shift :: "u8 list" where
  "scancode_ascii_shift =
     [0, 27] @ cstr ''!@#$%^&*()_+'' @ [8] @
     [9] @ cstr ''QWERTZUIOP{}'' @ [10] @
     [0] @ cstr ''ASDFGHJKL:'' @ [34] @ cstr ''~'' @
     [0] @ cstr ''|YXCVBNM<>?'' @ [0] @
     cstr ''*'' @ [0] @ cstr '' ''"

lemma table_lengths [simp]: "length scancode_ascii = 58" "length scancode_ascii_shift = 58"
  by (simp_all add: scancode_ascii_def scancode_ascii_shift_def cstr_def)

section \<open>The code\<close>

text \<open>Head and tail always stay below the buffer size, see \<open>kbd_inv\<close>.\<close>

definition kbd_buffer_push :: "u8 \<Rightarrow> 'a kbd_scheme \<Rightarrow> 'a kbd_scheme" where
  "kbd_buffer_push character s =
     (let s1 = s\<lparr>keycache := (keycache s)[unat (kbd_head s) := character]\<rparr>;
          s2 = s1\<lparr>kbd_head := (kbd_head s1 + 1) AND (of_nat KBD_BUFFER_SIZE - 1)\<rparr>
      in if kbd_head s2 = kbd_tail s2
         then s2\<lparr>kbd_tail := (kbd_tail s2 + 1) AND (of_nat KBD_BUFFER_SIZE - 1)\<rparr>
         else s2)"

text \<open>Caps lock swaps the case of letters.\<close>

definition caps_swap :: "u8 \<Rightarrow> u8" where
  "caps_swap key =
     (if of_char CHR ''a'' \<le> key \<and> key \<le> of_char CHR ''z'' then key - 32
      else if of_char CHR ''A'' \<le> key \<and> key \<le> of_char CHR ''Z'' then key + 32 else key)"

text \<open>The handler after the scancode has been read.\<close>

definition kbd_scancode :: "u8 \<Rightarrow> 'a kbd_scheme \<Rightarrow> 'a kbd_scheme" where
  "kbd_scancode scancode s =
     (if scancode AND 0x80 \<noteq> 0 then
        let released = scancode AND NOT 0x80
        in if released = 0x2A \<or> released = 0x36 then s\<lparr>kbd_shift := 0\<rparr> else s
      else if scancode = 0x2A \<or> scancode = 0x36 then s\<lparr>kbd_shift := 1\<rparr>
      else if scancode = 0x3A then s\<lparr>kbd_caps := kbd_caps s XOR 1\<rparr>
      else if unat scancode \<ge> length scancode_ascii then s
      else
        let key = (if kbd_shift s \<noteq> 0 then scancode_ascii_shift ! unat scancode
                   else scancode_ascii ! unat scancode)
        in if key = 0 then s
           else kbd_buffer_push (if kbd_caps s \<noteq> 0 then caps_swap key else key) s)"

definition keyboard_handler :: "device \<Rightarrow> interrupt_frame \<Rightarrow> 'a kbd_scheme \<Rightarrow> 'a kbd_scheme" where
  "keyboard_handler dev frame s = (let (scancode, s1) = inb dev 0x60 s in kbd_scancode scancode s1)"

definition keyboard_init :: "device \<Rightarrow> 'a kbd_scheme \<Rightarrow> c_error + 'a kbd_scheme" where
  "keyboard_init dev s =
     (let s1 = s\<lparr>kbd_head := 0, kbd_tail := 0, kbd_caps := 0, kbd_shift := 0\<rparr>;
          s2 = register_interrupt_handler 33 Keyboard_handler s1
      in case pic_clear_mask dev 1 s2 of
           Inl e \<Rightarrow> Inl e
         | Inr s3 \<Rightarrow> Inr (s3\<lparr>kbd_enabled := 1\<rparr>))"

text \<open>
  Waiting for a key: \<open>irqs\<close> are the effects of the interrupt requests that reach the CPU in
  \<open>hlt\<close>, in order; the rest of them is returned. An effect is \<open>None\<close> if the CPU does not
  come back to the waiting code. The result is \<open>None\<close> in that case, and if the code is
  still waiting.
\<close>

fun keyboard_get_key ::
  "('a kbd_scheme \<Rightarrow> 'a kbd_scheme option) list \<Rightarrow> 'a kbd_scheme \<Rightarrow>
    (u8 \<times> 'a kbd_scheme \<times> ('a kbd_scheme \<Rightarrow> 'a kbd_scheme option) list) option" where
  "keyboard_get_key irqs s =
     (if kbd_head s = kbd_tail s then
        (case irqs of
           [] \<Rightarrow> None
         | irq # rest \<Rightarrow> (case irq s of None \<Rightarrow> None | Some s1 \<Rightarrow> keyboard_get_key rest s1))
      else Some (keycache s ! unat (kbd_tail s),
        s\<lparr>kbd_tail := (kbd_tail s + 1) AND (of_nat KBD_BUFFER_SIZE - 1)\<rparr>, irqs))"

declare keyboard_get_key.simps [simp del]

definition keyboard_has_key :: "'a kbd_scheme \<Rightarrow> bool" where
  "keyboard_has_key s \<longleftrightarrow> kbd_tail s \<noteq> kbd_head s"

section \<open>The ring as a queue\<close>

definition kbd_inv :: "'a kbd_scheme \<Rightarrow> bool" where
  "kbd_inv s \<longleftrightarrow> length (keycache s) = 256 \<and> unat (kbd_head s) < 256 \<and> unat (kbd_tail s) < 256
     \<and> kbd_caps s \<le> 1"

definition pending :: "'a kbd_scheme \<Rightarrow> nat" where
  "pending s = (if kbd_tail s \<le> kbd_head s then unat (kbd_head s) - unat (kbd_tail s)
     else unat (kbd_head s) + 256 - unat (kbd_tail s))"

definition kbd_queue :: "'a kbd_scheme \<Rightarrow> u8 list" where
  "kbd_queue s = map (\<lambda>i. keycache s ! ((unat (kbd_tail s) + i) mod 256)) [0..<pending s]"

text \<open>Advancing an index modulo the buffer size.\<close>

lemma advance:
  fixes x :: u16
  assumes "unat x < 256"
  shows "unat ((x + 1) AND (of_nat KBD_BUFFER_SIZE - 1)) = (unat x + 1) mod 256"
proof -
  have "(of_nat KBD_BUFFER_SIZE - 1 :: u16) = mask 8"
    by (simp add: KBD_BUFFER_SIZE_def mask_eq_exp_minus_1)
  then have "(x + 1) AND (of_nat KBD_BUFFER_SIZE - 1) = take_bit 8 (x + 1)"
    by (simp add: take_bit_eq_mask)
  moreover have "unat (x + 1) = unat x + 1"
    using assms by (simp add: unat_word_ariths)
  ultimately show ?thesis
    by (simp add: unsigned_take_bit_eq take_bit_eq_mod [where 'a = nat])
qed

lemma length_kbd_queue [simp]: "length (kbd_queue s) = pending s"
  by (simp add: kbd_queue_def)

lemma nth_kbd_queue: "i < pending s \<Longrightarrow> kbd_queue s ! i = keycache s ! ((unat (kbd_tail s) + i) mod 256)"
  by (simp add: kbd_queue_def)

lemma wrap_if: "i < 256 \<Longrightarrow> j < 256 \<Longrightarrow> (i + j) mod 256 = (if i + j < 256 then i + j else i + j - 256 :: nat)"
  by (simp add: mod_if)

lemma pending_less: "kbd_inv s \<Longrightarrow> pending s < 256"
  by (auto simp: pending_def kbd_inv_def word_le_nat_alt)

lemma queue_empty_iff: "kbd_inv s \<Longrightarrow> kbd_queue s = [] \<longleftrightarrow> kbd_head s = kbd_tail s"
  by (auto simp: kbd_queue_def pending_def kbd_inv_def word_unat_eq_iff word_le_nat_alt)

text \<open>The cell the head points at is the one after the last pending key.\<close>

lemma queue_cell:
  assumes "kbd_inv s" and "i < 256"
  shows "(unat (kbd_tail s) + i) mod 256 = unat (kbd_head s) \<longleftrightarrow> i = pending s"
  using assms by (auto simp: wrap_if kbd_inv_def pending_def word_le_nat_alt)

text \<open>Dropping the oldest keys of a list that is too long.\<close>

definition keep_last :: "nat \<Rightarrow> 'a list \<Rightarrow> 'a list" where
  "keep_last n xs = drop (length xs - n) xs"

lemma push_inv: "kbd_inv s \<Longrightarrow> kbd_inv (kbd_buffer_push c s)"
  by (auto simp: kbd_inv_def kbd_buffer_push_def Let_def advance)

text \<open>Distance between two ring indices, and what a push does to it.\<close>

lemma ring_distance_step:
  fixes h b :: nat
  assumes "h < 256" and "b < 256" and "p = (if b \<le> h then h - b else h + 256 - b)"
    and "h' = (h + 1) mod 256" and "b' = (if p = 255 then (b + 1) mod 256 else b)"
  shows "(if b' \<le> h' then h' - b' else h' + 256 - b') = min (p + 1) 255"
  using assms wrap_if [of h 1] wrap_if [of b 1]
  by (cases "h = 255"; cases "b = 255"; cases "b \<le> h"; cases "p = 255") auto

lemma push_fields:
  fixes s :: "'a kbd_scheme" and c :: u8
  assumes "kbd_inv s"
  defines "t \<equiv> kbd_buffer_push c s"
  shows "keycache t = (keycache s)[unat (kbd_head s) := c]"
    and "unat (kbd_head t) = (unat (kbd_head s) + 1) mod 256"
    and "unat (kbd_tail t) = (if pending s = 255 then (unat (kbd_tail s) + 1) mod 256 else unat (kbd_tail s))"
    and "pending t = min (pending s + 1) 255"
proof -
  have b: "unat (kbd_head s) < 256" "unat (kbd_tail s) < 256" using assms(1) by (auto simp: kbd_inv_def)
  show cache: "keycache t = (keycache s)[unat (kbd_head s) := c]"
    by (simp add: t_def kbd_buffer_push_def Let_def)
  have "kbd_head t = (kbd_head s + 1) AND (of_nat KBD_BUFFER_SIZE - 1)"
    by (simp add: t_def kbd_buffer_push_def Let_def)
  then show head: "unat (kbd_head t) = (unat (kbd_head s) + 1) mod 256"
    by (simp only: advance [OF b(1)])
  have full: "(unat (kbd_head s) + 1) mod 256 = unat (kbd_tail s) \<longleftrightarrow> pending s = 255"
    using b wrap_if [of "unat (kbd_head s)" 1] by (auto simp: pending_def word_le_nat_alt)
  show tail: "unat (kbd_tail t) = (if pending s = 255 then (unat (kbd_tail s) + 1) mod 256 else unat (kbd_tail s))"
    using b full by (auto simp: t_def kbd_buffer_push_def Let_def advance word_unat_eq_iff)
  have "pending t = (if unat (kbd_tail t) \<le> unat (kbd_head t) then unat (kbd_head t) - unat (kbd_tail t)
      else unat (kbd_head t) + 256 - unat (kbd_tail t))"
    by (simp only: pending_def word_le_nat_alt)
  also have "\<dots> = min (pending s + 1) 255"
    by (rule ring_distance_step [OF b _ head tail]) (simp only: pending_def word_le_nat_alt)
  finally show "pending t = min (pending s + 1) 255" .
qed

lemma push_queue:
  assumes "kbd_inv s"
  shows "kbd_queue (kbd_buffer_push c s) = keep_last 255 (kbd_queue s @ [c])"
proof (rule nth_equalityI)
  let ?t = "kbd_buffer_push c s" and ?full = "pending s = 255"
  note f = push_fields [OF assms, of c]
  have less: "pending s < 256" by (rule pending_less [OF assms])
  show len: "length (kbd_queue ?t) = length (keep_last 255 (kbd_queue s @ [c]))"
    using less by (simp add: f keep_last_def min_def)
  fix i assume "i < length (kbd_queue ?t)"
  then have i: "i < min (pending s + 1) 255" by (simp add: f)
  define k where "k = (if ?full then i + 1 else i)"
  have k: "k \<le> pending s" "k < 256" using i less by (auto simp: k_def)
  have cell: "(unat (kbd_tail ?t) + i) mod 256 = (unat (kbd_tail s) + k) mod 256"
    by (simp add: f k_def mod_simps add.assoc)
  have "kbd_queue ?t ! i = ((keycache s)[unat (kbd_head s) := c]) ! ((unat (kbd_tail s) + k) mod 256)"
    using i cell by (simp only: nth_kbd_queue f)
  also have "\<dots> = (if k = pending s then c else kbd_queue s ! k)"
    using queue_cell [OF assms k(2)] k assms by (auto simp: nth_kbd_queue kbd_inv_def nth_list_update)
  also have "\<dots> = keep_last 255 (kbd_queue s @ [c]) ! i"
    using i k less by (auto simp: keep_last_def nth_append k_def)
  finally show "kbd_queue ?t ! i = keep_last 255 (kbd_queue s @ [c]) ! i" .
qed

text \<open>Taking a key.\<close>

definition kbd_pop :: "'a kbd_scheme \<Rightarrow> u8 \<times> 'a kbd_scheme" where
  "kbd_pop s = (keycache s ! unat (kbd_tail s),
     s\<lparr>kbd_tail := (kbd_tail s + 1) AND (of_nat KBD_BUFFER_SIZE - 1)\<rparr>)"

lemma pop_queue:
  assumes "kbd_inv s" and "kbd_queue s \<noteq> []"
  shows "fst (kbd_pop s) = hd (kbd_queue s)" and "kbd_queue (snd (kbd_pop s)) = tl (kbd_queue s)"
    and "kbd_inv (snd (kbd_pop s))"
proof -
  let ?t = "snd (kbd_pop s)"
  have b: "unat (kbd_head s) < 256" "unat (kbd_tail s) < 256" using assms(1) by (auto simp: kbd_inv_def)
  have pos: "0 < pending s" using assms(2) by (simp add: kbd_queue_def)
  then have up: "[0..<pending s] = 0 # [1..<pending s]" by (simp add: upt_conv_Cons)
  show "fst (kbd_pop s) = hd (kbd_queue s)"
    using b by (simp add: kbd_pop_def kbd_queue_def up)
  show "kbd_inv ?t"
    using assms(1) b by (simp add: kbd_pop_def kbd_inv_def advance)
  have tail: "unat (kbd_tail ?t) = (unat (kbd_tail s) + 1) mod 256"
    using b by (simp add: kbd_pop_def advance)
  have pend: "pending ?t = pending s - 1"
    using tail b pos wrap_if [of "unat (kbd_tail s)" 1]
    by (auto simp: pending_def kbd_pop_def word_le_nat_alt split: if_splits)
  have cell: "(unat (kbd_tail ?t) + i) mod 256 = (unat (kbd_tail s) + (i + 1)) mod 256" for i
    by (simp add: tail mod_simps)
  show "kbd_queue ?t = tl (kbd_queue s)"
    by (rule nth_equalityI) (simp_all add: kbd_queue_def pend cell nth_tl, simp add: kbd_pop_def)
qed

section \<open>The contract of a bounded queue\<close>

fun pop_many :: "('s \<Rightarrow> 'k \<times> 's) \<Rightarrow> nat \<Rightarrow> 's \<Rightarrow> 'k list \<times> 's" where
  "pop_many pop 0 s = ([], s)"
| "pop_many pop (Suc n) s =
     (let (k, s1) = pop s; (ks, s2) = pop_many pop n s1 in (k # ks, s2))"

lemma keep_last_all: "length xs \<le> n \<Longrightarrow> keep_last n xs = xs"
  by (simp add: keep_last_def)

lemma keep_last_keep_last: "keep_last n (keep_last n xs @ ys) = keep_last n (xs @ ys)"
  by (cases "length xs \<le> n") (auto simp: keep_last_def add.commute)

locale bounded_queue =
  fixes push :: "'k \<Rightarrow> 's \<Rightarrow> 's" and pop :: "'s \<Rightarrow> 'k \<times> 's"
    and inv :: "'s \<Rightarrow> bool" and queue :: "'s \<Rightarrow> 'k list" and cap :: nat
  assumes inv_push: "inv s \<Longrightarrow> inv (push c s)"
    and queue_push: "inv s \<Longrightarrow> queue (push c s) = keep_last cap (queue s @ [c])"
    and queue_cap: "inv s \<Longrightarrow> length (queue s) \<le> cap"
    and pop_hd: "inv s \<Longrightarrow> queue s \<noteq> [] \<Longrightarrow> fst (pop s) = hd (queue s)"
    and queue_pop: "inv s \<Longrightarrow> queue s \<noteq> [] \<Longrightarrow> queue (snd (pop s)) = tl (queue s)"
    and inv_pop: "inv s \<Longrightarrow> queue s \<noteq> [] \<Longrightarrow> inv (snd (pop s))"
begin

lemma push_many:
  assumes "inv s"
  shows "inv (fold push cs s)" and "queue (fold push cs s) = keep_last cap (queue s @ cs)"
proof -
  have "inv (fold push cs s) \<and> queue (fold push cs s) = keep_last cap (queue s @ cs)" using assms
  proof (induction cs arbitrary: s)
    case (Cons c cs)
    then show ?case
      using keep_last_keep_last [of cap "queue s @ [c]" cs] by (simp add: inv_push queue_push)
  qed (simp add: keep_last_all queue_cap)
  then show "inv (fold push cs s)" and "queue (fold push cs s) = keep_last cap (queue s @ cs)" by auto
qed

lemma pop_many_take:
  assumes "inv s" and "n \<le> length (queue s)"
  shows "fst (pop_many pop n s) = take n (queue s)" and "queue (snd (pop_many pop n s)) = drop n (queue s)"
proof -
  have "fst (pop_many pop n s) = take n (queue s) \<and> queue (snd (pop_many pop n s)) = drop n (queue s)"
    using assms
  proof (induction n arbitrary: s)
    case (Suc n)
    obtain k s1 where pop: "pop s = (k, s1)" by force
    have ne: "queue s \<noteq> []" using Suc.prems(2) by auto
    have "k = hd (queue s)" "queue s1 = tl (queue s)" "inv s1"
      using pop_hd queue_pop inv_pop Suc.prems(1) ne pop by fastforce+
    with Suc.IH [of s1] Suc.prems(2) ne show ?case
      by (cases "queue s") (auto simp: pop split_beta)
  qed simp
  then show "fst (pop_many pop n s) = take n (queue s)"
    and "queue (snd (pop_many pop n s)) = drop n (queue s)" by auto
qed

lemma fifo:
  assumes "inv s" and "queue s = []" and "length cs \<le> cap"
  shows "fst (pop_many pop (length cs) (fold push cs s)) = cs"
  using pop_many_take(1) [OF push_many(1) [OF assms(1)], of "length cs" cs] push_many(2) [OF assms(1)] assms
  by (simp add: keep_last_all)

end

interpretation ring: bounded_queue kbd_buffer_push kbd_pop "kbd_inv :: 'a kbd_scheme \<Rightarrow> bool" kbd_queue 255
proof
  fix s :: "'a kbd_scheme" assume "kbd_inv s"
  then show "length (kbd_queue s) \<le> 255" using pending_less [of s] by simp
qed (simp_all add: push_inv push_queue pop_queue)

section \<open>What the keys mean\<close>

text \<open>
  The intended keyboard: its state is whether shift is held and caps lock is on; a letter is
  upper case when exactly one of them is; other keys only look at shift. Scancodes from 0x80
  on are releases.
\<close>

definition letter :: "u8 \<Rightarrow> bool" where
  "letter k \<longleftrightarrow> 97 \<le> k \<and> k \<le> 122"

definition glyph :: "bool \<Rightarrow> bool \<Rightarrow> u8 \<Rightarrow> u8 \<Rightarrow> u8" where
  "glyph shift caps k shifted =
     (if letter k then (if shift \<noteq> caps then k - 32 else k) else if shift then shifted else k)"

fun press :: "u8 \<Rightarrow> bool \<times> bool \<Rightarrow> (bool \<times> bool) \<times> u8 list" where
  "press sc (shift, caps) =
     (if sc = 0x2A \<or> sc = 0x36 then ((True, caps), [])
      else if sc = 0xAA \<or> sc = 0xB6 then ((False, caps), [])
      else if sc = 0x3A then ((shift, \<not> caps), [])
      else if unat sc < 58 \<and> scancode_ascii ! unat sc \<noteq> 0
        then ((shift, caps), [glyph shift caps (scancode_ascii ! unat sc) (scancode_ascii_shift ! unat sc)])
      else ((shift, caps), []))"

fun typed_keys :: "u8 list \<Rightarrow> bool \<times> bool \<Rightarrow> (bool \<times> bool) \<times> u8 list" where
  "typed_keys [] mods = (mods, [])"
| "typed_keys (sc # scs) mods =
     (let (mods1, ks) = press sc mods; (mods2, ks') = typed_keys scs mods1 in (mods2, ks @ ks'))"

definition kbd_mods :: "'a kbd_scheme \<Rightarrow> bool \<times> bool" where
  "kbd_mods s = (kbd_shift s \<noteq> 0, kbd_caps s \<noteq> 0)"

text \<open>Key by key, the two tables and the caps lock rule of the code fit the intended keyboard.\<close>

definition table_pair_ok :: "u8 \<times> u8 \<Rightarrow> bool" where
  "table_pair_ok = (\<lambda>(k, shifted). (k = 0 \<longleftrightarrow> shifted = 0)
     \<and> glyph True False k shifted = shifted
     \<and> glyph False True k shifted = caps_swap k \<and> glyph True True k shifted = caps_swap shifted)"

lemma tables_agree:
  assumes "i < 58"
  shows "table_pair_ok (scancode_ascii ! i, scancode_ascii_shift ! i)"
proof -
  have "list_all table_pair_ok (zip scancode_ascii scancode_ascii_shift)"
    unfolding scancode_ascii_def scancode_ascii_shift_def cstr_def
    by (simp add: table_pair_ok_def glyph_def letter_def caps_swap_def)
  then show ?thesis using assms by (simp add: list_all_length)
qed

lemma glyph_plain: "glyph False False k shifted = k"
  by (simp add: glyph_def)

text \<open>Bit 7 marks a release.\<close>

lemma release_bit: "(sc :: u8) AND 0x80 \<noteq> 0 \<longleftrightarrow> 128 \<le> unat sc"
proof -
  have "(sc AND 2 ^ 7 = 0) = (\<not> bit sc 7)" by (rule and_exp_eq_0_iff_not_bit)
  moreover have "bit sc 7 \<longleftrightarrow> bit (unat sc) 7" by (simp add: bit_unsigned_iff)
  moreover have "bit (unat sc) 7 \<longleftrightarrow> 128 \<le> unat sc"
  proof (cases "128 \<le> unat sc")
    case True
    then have "unat sc div 128 = 1" using unsigned_less [of sc] by (intro div_nat_eqI) simp_all
    with True show ?thesis by (simp add: bit_iff_odd)
  qed (simp add: bit_iff_odd)
  ultimately show ?thesis by simp
qed

lemma released_code: "128 \<le> unat sc \<Longrightarrow> unat ((sc :: u8) AND NOT 0x80) = unat sc - 128"
proof -
  assume "128 \<le> unat sc"
  then have less: "unat sc mod 128 = unat sc - 128" using unsigned_less [of sc, where 'a = nat] by (simp add: le_mod_geq)
  have "sc AND NOT 0x80 = take_bit 7 sc"
    by (rule bit_word_eqI) (auto simp: bit_simps numeral_eq_Suc less_Suc_eq)
  then show ?thesis using less by (simp add: unsigned_take_bit_eq take_bit_eq_mod [where 'a = nat])
qed

text \<open>The handler is a step of the intended keyboard, followed by a push if there is a key.\<close>

lemma kbd_scancode_press:
  "kbd_scancode sc s = (case press sc (kbd_mods s) of ((shift, caps), ks) \<Rightarrow>
     fold kbd_buffer_push ks
       (if shift \<noteq> (kbd_shift s \<noteq> 0) \<or> sc \<in> {0x2A, 0x36, 0xAA, 0xB6} then s\<lparr>kbd_shift := of_bool shift\<rparr>
        else if sc = 0x3A then s\<lparr>kbd_caps := kbd_caps s XOR 1\<rparr> else s))"
proof (cases "128 \<le> unat sc")
  case True
  then have key: "\<not> unat sc < 58" by simp
  have codes: "sc AND NOT 0x80 = 0x2A \<longleftrightarrow> sc = 0xAA" "sc AND NOT 0x80 = 0x36 \<longleftrightarrow> sc = 0xB6"
    using released_code [OF True] True by (auto simp: word_unat_eq_iff)
  have "sc \<noteq> 0x2A" "sc \<noteq> 0x36" "sc \<noteq> 0x3A" using True by auto
  with True key show ?thesis
    unfolding kbd_scancode_def release_bit Let_def codes by (simp add: kbd_mods_def)
next
  case False
  have rel: "sc \<noteq> 0xAA" "sc \<noteq> 0xB6" using False by auto
  show ?thesis
  proof (cases "unat sc < 58")
    case True
    note ok = tables_agree [OF True, unfolded table_pair_ok_def, simplified]
    show ?thesis
      using False rel True ok unfolding kbd_scancode_def release_bit Let_def
      by (simp add: kbd_mods_def glyph_plain)
  next
    case big: False
    then show ?thesis
      using False rel unfolding kbd_scancode_def release_bit Let_def by (simp add: kbd_mods_def)
  qed
qed

lemma kbd_queue_update [simp]:
  "kbd_queue (s\<lparr>kbd_shift := b\<rparr>) = kbd_queue s" "kbd_queue (s\<lparr>kbd_caps := b\<rparr>) = kbd_queue s"
  "kbd_queue (s\<lparr>io_log := l\<rparr>) = kbd_queue s" "kbd_inv (s\<lparr>io_log := l\<rparr>) = kbd_inv s"
  "kbd_inv (s\<lparr>kbd_shift := b\<rparr>) = kbd_inv s" "kbd_mods (s\<lparr>io_log := l\<rparr>) = kbd_mods s"
  by (simp_all add: kbd_queue_def pending_def kbd_inv_def kbd_mods_def)

lemma caps_toggle: "(c :: u8) \<le> 1 \<Longrightarrow> c XOR 1 \<le> 1 \<and> (c XOR 1 \<noteq> 0 \<longleftrightarrow> c = 0)"
proof -
  assume "c \<le> 1"
  then have "c = 0 \<or> c = 1" by (auto simp: word_le_nat_alt le_Suc_eq word_unat_eq_iff)
  then show ?thesis by auto
qed

lemma mods_push [simp]: "kbd_mods (fold kbd_buffer_push ks s) = kbd_mods s"
  by (induction ks arbitrary: s) (simp_all add: kbd_mods_def kbd_buffer_push_def Let_def)

lemma scancode_step:
  assumes "kbd_inv s" and "press sc (kbd_mods s) = (mods, ks)"
  shows "kbd_mods (kbd_scancode sc s) = mods" and "kbd_inv (kbd_scancode sc s)"
    and "kbd_queue (kbd_scancode sc s) = keep_last 255 (kbd_queue s @ ks)"
proof -
  define u where "u = (if fst mods \<noteq> (kbd_shift s \<noteq> 0) \<or> sc \<in> {0x2A, 0x36, 0xAA, 0xB6}
    then s\<lparr>kbd_shift := of_bool (fst mods)\<rparr>
    else if sc = 0x3A then s\<lparr>kbd_caps := kbd_caps s XOR 1\<rparr> else s)"
  have step: "kbd_scancode sc s = fold kbd_buffer_push ks u"
    unfolding kbd_scancode_press u_def using assms(2) by (cases mods) simp
  have caps: "kbd_caps s \<le> 1" using assms(1) by (simp add: kbd_inv_def)
  have u: "kbd_inv u" "kbd_queue u = kbd_queue s"
    using assms(1) caps_toggle [OF caps] by (auto simp: u_def kbd_inv_def)
  have "kbd_mods u = mods"
    using assms(2) caps_toggle [OF caps] by (auto simp: u_def kbd_mods_def split: if_splits)
  then show "kbd_mods (kbd_scancode sc s) = mods" by (simp add: step)
  show "kbd_inv (kbd_scancode sc s)" "kbd_queue (kbd_scancode sc s) = keep_last 255 (kbd_queue s @ ks)"
    using ring.push_many [OF u(1)] u(2) by (simp_all add: step)
qed

lemma scancodes_step:
  assumes "kbd_inv s" and "typed_keys scs (kbd_mods s) = (mods, ks)"
  shows "kbd_mods (fold kbd_scancode scs s) = mods \<and> kbd_inv (fold kbd_scancode scs s)
    \<and> kbd_queue (fold kbd_scancode scs s) = keep_last 255 (kbd_queue s @ ks)"
  using assms
proof (induction scs arbitrary: s ks)
  case Nil
  then show ?case using ring.queue_cap [of s] by (simp add: keep_last_all)
next
  case (Cons sc scs)
  obtain m1 k1 where 1: "press sc (kbd_mods s) = (m1, k1)" by (cases "press sc (kbd_mods s)")
  obtain k2 where 2: "typed_keys scs m1 = (mods, k2)" and ks: "ks = k1 @ k2"
    using Cons.prems(2) 1 by (auto split: prod.splits)
  note st = scancode_step [OF Cons.prems(1) 1]
  show ?case
    using Cons.IH [OF st(2)] 2 keep_last_keep_last [of 255 "kbd_queue s @ k1" k2] by (simp add: st ks)
qed

lemma handler_scancode:
  "keyboard_handler dev frame s
    = kbd_scancode (dev (io_log s) 0x60) (s\<lparr>io_log := io_log s @ [In 0x60 (dev (io_log s) 0x60)]\<rparr>)"
  by (simp add: keyboard_handler_def inb_def Let_def)

section \<open>Properties\<close>

text \<open>
  C22: for any sequence of scancodes the handler keeps the ring well formed, tracks shift and
  caps lock, and leaves in the ring the last 255 of the keys that were waiting and of those
  typed since, in order, each with the glyph of the intended keyboard.
\<close>

theorem keyboard_types_keys:
  assumes "kbd_inv s" and "typed_keys scs (kbd_mods s) = (mods, ks)"
  shows "kbd_inv (fold kbd_scancode scs s) \<and> kbd_mods (fold kbd_scancode scs s) = mods
    \<and> kbd_queue (fold kbd_scancode scs s) = keep_last 255 (kbd_queue s @ ks)"
  using scancodes_step [OF assms] by blast

definition example_kbd :: kbd where
  "example_kbd = \<lparr>mem = (\<lambda>_. 0), io_log = [], if_flag = True, cursor_x = 0, cursor_y = 0, terminal_color = 15,
     terminal_buffer = VGA, heap_beginning = 0, heap_end = 0, last_alloc = 0, memory_used = 0,
     interrupt_handlers = replicate 256 None, keycache = replicate 256 0, kbd_head = 255, kbd_tail = 255,
     kbd_shift = 0, kbd_caps = 0, kbd_enabled = 1\<rparr>"

lemma example_kbd_ok: "kbd_inv example_kbd" "kbd_queue example_kbd = []" "kbd_mods example_kbd = (False, False)"
  by (simp_all add: example_kbd_def kbd_inv_def kbd_queue_def pending_def kbd_mods_def)

theorem keyboard_types_keys_witness:
  "kbd_queue (fold kbd_scancode [0x2A, 0x20, 0xAA, 0x18, 0x3A, 0x18, 0x32, 0x02] example_kbd) = cstr ''DoOM1''"
proof -
  have "typed_keys [0x2A, 0x20, 0xAA, 0x18, 0x3A, 0x18, 0x32, 0x02] (kbd_mods example_kbd)
      = ((False, True), cstr ''DoOM1'')"
    by (simp add: example_kbd_ok glyph_def letter_def scancode_ascii_def scancode_ascii_shift_def cstr_def)
  from keyboard_types_keys [OF example_kbd_ok(1) this] show ?thesis
    by (simp add: example_kbd_ok keep_last_def cstr_def)
qed

text \<open>
  \<open>keyboard_get_key\<close> waits as long as the ring is empty and returns with the oldest key
  as soon as interrupts have put one there, after exactly as many interrupts as were needed;
  the key is removed from the ring and no other key is lost.
\<close>

theorem keyboard_get_key_waits:
  fixes s :: "'a kbd_scheme"
  assumes "kbd_inv s" and "\<And>irq u. irq \<in> set irqs \<Longrightarrow> kbd_inv u \<Longrightarrow> kbd_inv (irq u)"
    and "n \<le> length irqs" and "kbd_queue (fold (\<lambda>irq. irq) (take n irqs) s) = k # ks"
    and "\<And>m. m < n \<Longrightarrow> kbd_queue (fold (\<lambda>irq. irq) (take m irqs) s) = []"
  shows "\<exists>t. keyboard_get_key (map (\<lambda>irq u. Some (irq u)) irqs) s = Some (k, t, map (\<lambda>irq u. Some (irq u)) (drop n irqs))
    \<and> kbd_inv t \<and> kbd_queue t = ks"
  using assms
proof (induction n arbitrary: s irqs)
  case 0
  then have ne: "kbd_queue s \<noteq> []" and q: "kbd_queue s = k # ks" by simp_all
  then have "kbd_head s \<noteq> kbd_tail s" using queue_empty_iff [OF 0(1)] by simp
  then have "keyboard_get_key (map (\<lambda>irq u. Some (irq u)) irqs) s = Some (fst (kbd_pop s), snd (kbd_pop s), map (\<lambda>irq u. Some (irq u)) irqs)"
    by (subst keyboard_get_key.simps) (simp add: kbd_pop_def)
  with pop_queue [OF 0(1) ne] q show ?case by simp
next
  case (Suc n)
  obtain irq rest where irqs: "irqs = irq # rest" using Suc.prems(3) by (cases irqs) auto
  have "kbd_queue s = []" using Suc.prems(5) [of 0] by simp
  then have "kbd_head s = kbd_tail s" using queue_empty_iff [OF Suc.prems(1)] by simp
  then have "keyboard_get_key (map (\<lambda>irq u. Some (irq u)) irqs) s = keyboard_get_key (map (\<lambda>irq u. Some (irq u)) rest) (irq s)"
    by (subst keyboard_get_key.simps) (simp add: irqs)
  moreover have "\<exists>t. keyboard_get_key (map (\<lambda>irq u. Some (irq u)) rest) (irq s) = Some (k, t, map (\<lambda>irq u. Some (irq u)) (drop n rest))
      \<and> kbd_inv t \<and> kbd_queue t = ks"
  proof (rule Suc.IH)
    show "kbd_queue (fold (\<lambda>irq. irq) (take m rest) (irq s)) = []" if "m < n" for m
      using Suc.prems(5) [of "Suc m"] that by (simp add: irqs)
  qed (use Suc.prems in \<open>auto simp: irqs\<close>)
  ultimately show ?case by (simp add: irqs)
qed

theorem keyboard_get_key_waits_witness:
  "\<exists>t rest. keyboard_get_key (map (\<lambda>irq u. Some (irq u)) [kbd_scancode 0x2A, kbd_scancode 0x1E, kbd_scancode 0x1E]) example_kbd
     = Some (of_char CHR ''A'', t, rest) \<and> length rest = 1 \<and> kbd_inv t \<and> kbd_queue t = []"
proof -
  let ?irqs = "[kbd_scancode 0x2A, kbd_scancode 0x1E, kbd_scancode 0x1E] :: (kbd \<Rightarrow> kbd) list"
  have inv: "kbd_inv (irq u)" if "irq \<in> set ?irqs" "kbd_inv u" for irq and u :: kbd
    using that scancode_step(2) [OF that(2)] by (metis empty_iff empty_set set_ConsD surj_pair)
  have key: "typed_keys [0x2A, 0x1E] (kbd_mods example_kbd) = ((True, False), [65])"
    and none: "typed_keys [0x2A] (kbd_mods example_kbd) = ((True, False), [])"
    by (simp_all add: example_kbd_ok glyph_def letter_def scancode_ascii_def scancode_ascii_shift_def cstr_def)
  have 2: "kbd_queue (fold (\<lambda>irq. irq) (take 2 ?irqs) example_kbd) = [65]"
    using scancodes_step [OF example_kbd_ok(1) key] by (simp add: example_kbd_ok keep_last_def)
  have "kbd_queue (fold (\<lambda>irq. irq) (take m ?irqs) example_kbd) = []" if "m < 2" for m
    using that scancodes_step [OF example_kbd_ok(1) none]
    by (auto simp: less_Suc_eq numeral_2_eq_2 example_kbd_ok keep_last_def)
  then show ?thesis
    using keyboard_get_key_waits [where s = example_kbd and irqs = ?irqs and n = 2 and k = 65 and ks = "[]"]
      example_kbd_ok(1) inv 2 by fastforce
qed

end
