(* ===== verification/Keyboard_Race.thy ===== *)
theory Keyboard_Race
  imports Keyboard
begin

text \<open>
  \<open>keyboard_get_key\<close> (\<open>drivers/keyboard.c\<close>) one access to a shared variable at a time, with
  interrupts between any two of them. As long as the ring does not overflow, the reader is
  atomic for all purposes; when it does, the two race for the tail.
\<close>

section \<open>The reader step by step\<close>

text \<open>Where the reader is, with the values it holds in registers.\<close>

datatype reader = Check_head | Check_tail u16 | Sleep | Read_tail | Read_cell u16 | Load_tail u8
  | Store_tail u8 u16 | Returned u8

fun get_key_step :: "reader \<Rightarrow> 'a kbd_scheme \<Rightarrow> reader \<times> 'a kbd_scheme" where
  "get_key_step Check_head s = (Check_tail (kbd_head s), s)"
| "get_key_step (Check_tail h) s = (if h = kbd_tail s then Sleep else Read_tail, s)"
| "get_key_step Sleep s = (Sleep, s)"
| "get_key_step Read_tail s = (Read_cell (kbd_tail s), s)"
| "get_key_step (Read_cell i) s = (Load_tail (keycache s ! unat i), s)"
| "get_key_step (Load_tail c) s = (Store_tail c (kbd_tail s), s)"
| "get_key_step (Store_tail c i) s = (Returned c, s\<lparr>kbd_tail := (i + 1) AND (of_nat KBD_BUFFER_SIZE - 1)\<rparr>)"
| "get_key_step (Returned c) s = (Returned c, s)"

text \<open>An interrupt ends \<open>hlt\<close>.\<close>

fun wake :: "reader \<Rightarrow> reader" where
  "wake Sleep = Check_head"
| "wake p = p"

text \<open>
  \<open>race dev r ks r'\<close>: from \<open>r\<close>, steps of the reader and interrupts in any order lead to \<open>r'\<close>,
  and the keyboard interrupts among them delivered the keys \<open>ks\<close>.
\<close>

inductive race :: "device \<Rightarrow> reader \<times> 'a kbd_scheme \<Rightarrow> u8 list \<Rightarrow> reader \<times> 'a kbd_scheme \<Rightarrow> bool" for dev r where
  race_start: "race dev r [] r"
| race_code: "race dev r ks (p, s) \<Longrightarrow> race dev r ks (get_key_step p s)"
| race_key: "race dev r ks (p, s) \<Longrightarrow>
    race dev r (ks @ snd (press (dev (io_log s) 0x60) (kbd_mods s))) (wake p, keyboard_handler dev frame s)"
| race_other: "race dev r ks (p, s) \<Longrightarrow> keycache t = keycache s \<Longrightarrow> kbd_head t = kbd_head s \<Longrightarrow> kbd_tail t = kbd_tail s \<Longrightarrow>
    kbd_caps t = kbd_caps s \<Longrightarrow> race dev r ks (wake p, t)"

text \<open>Undisturbed, the steps are the function.\<close>

lemma undisturbed:
  assumes "kbd_head s \<noteq> kbd_tail s"
  shows "((\<lambda>(p, s). get_key_step p s) ^^ 6) (Check_head, s) = (Returned (fst (kbd_pop s)), snd (kbd_pop s))"
  using assms by (simp add: numeral_eq_Suc kbd_pop_def)

section \<open>No overflow, no loss\<close>

text \<open>What the reader may rely on at each point; \<open>q\<close> are the keys to be read.\<close>

fun reader_ok :: "u8 list \<Rightarrow> reader \<Rightarrow> 'a kbd_scheme \<Rightarrow> bool" where
  "reader_ok q Check_head s \<longleftrightarrow> kbd_queue s = q"
| "reader_ok q (Check_tail h) s \<longleftrightarrow> kbd_queue s = q \<and> (h = kbd_tail s \<or> q \<noteq> [])"
| "reader_ok q Sleep s \<longleftrightarrow> kbd_queue s = q"
| "reader_ok q Read_tail s \<longleftrightarrow> kbd_queue s = q \<and> q \<noteq> []"
| "reader_ok q (Read_cell i) s \<longleftrightarrow> kbd_queue s = q \<and> q \<noteq> [] \<and> i = kbd_tail s"
| "reader_ok q (Load_tail c) s \<longleftrightarrow> kbd_queue s = q \<and> q \<noteq> [] \<and> c = hd q"
| "reader_ok q (Store_tail c i) s \<longleftrightarrow> kbd_queue s = q \<and> q \<noteq> [] \<and> c = hd q \<and> i = kbd_tail s"
| "reader_ok q (Returned c) s \<longleftrightarrow> c # kbd_queue s = q"

lemma reader_step_ok:
  assumes "kbd_inv s" and "reader_ok q p s" and "get_key_step p s = (p', s')"
  shows "reader_ok q p' s' \<and> kbd_inv s'"
proof -
  note empty = queue_empty_iff [OF assms(1)]
  have pop: "kbd_queue s \<noteq> [] \<Longrightarrow> keycache s ! unat (kbd_tail s) = hd (kbd_queue s)"
    "kbd_queue s \<noteq> [] \<Longrightarrow> kbd_queue (s\<lparr>kbd_tail := (kbd_tail s + 1) AND (of_nat KBD_BUFFER_SIZE - 1)\<rparr>) = tl (kbd_queue s)"
    "kbd_queue s \<noteq> [] \<Longrightarrow> kbd_inv (s\<lparr>kbd_tail := (kbd_tail s + 1) AND (of_nat KBD_BUFFER_SIZE - 1)\<rparr>)"
    using pop_queue [OF assms(1)] by (simp_all add: kbd_pop_def)
  show ?thesis using assms empty pop by (cases p) (auto split: if_splits)
qed

lemma same_ring:
  assumes "keycache t = keycache s" and "kbd_head t = kbd_head s" and "kbd_tail t = kbd_tail s" and "kbd_caps t = kbd_caps s"
  shows "kbd_queue t = kbd_queue s" and "kbd_inv t = kbd_inv s"
  using assms by (simp_all add: kbd_queue_def pending_def kbd_inv_def)

lemma reader_wake:
  assumes "reader_ok q p s" and "kbd_queue t = kbd_queue s @ ks" and "kbd_tail t = kbd_tail s"
  shows "reader_ok (q @ ks) (wake p) t"
  using assms by (cases p) auto

lemma scancode_tail:
  assumes "kbd_inv s" and "press sc (kbd_mods s) = (mods, ks)" and "length (kbd_queue s) + length ks \<le> 255"
  shows "kbd_tail (kbd_scancode sc s) = kbd_tail s"
proof -
  have "ks = [] \<or> (\<exists>k. ks = [k] \<and> kbd_scancode sc s = kbd_buffer_push k s)"
    using assms(2) by (auto simp: kbd_scancode_press kbd_mods_def split: if_splits)
  then show ?thesis
  proof
    assume "ks = []"
    then show ?thesis using assms(2) by (auto simp: kbd_scancode_press split: prod.splits)
  next
    assume "\<exists>k. ks = [k] \<and> kbd_scancode sc s = kbd_buffer_push k s"
    then obtain k where k: "ks = [k]" "kbd_scancode sc s = kbd_buffer_push k s" by blast
    have "pending s \<noteq> 255" using assms(3) k(1) by simp
    then have "unat (kbd_tail (kbd_buffer_push k s)) = unat (kbd_tail s)" using push_fields(3) [OF assms(1)] by simp
    then show ?thesis by (simp add: k(2) word_unat_eq_iff)
  qed
qed

lemma handler_ok:
  assumes "kbd_inv s" and "length (kbd_queue s @ ks) \<le> 255" and "ks = snd (press (dev (io_log s) 0x60) (kbd_mods s))"
  shows "kbd_queue (keyboard_handler dev frame s) = kbd_queue s @ ks"
    and "kbd_tail (keyboard_handler dev frame s) = kbd_tail s" and "kbd_inv (keyboard_handler dev frame s)"
proof -
  let ?c = "dev (io_log s) 0x60"
  let ?s = "s\<lparr>io_log := io_log s @ [In 0x60 ?c]\<rparr>"
  obtain mods where p: "press ?c (kbd_mods ?s) = (mods, ks)" using assms(3) by (cases "press ?c (kbd_mods s)") simp
  have inv: "kbd_inv ?s" using assms(1) by simp
  have len: "length (kbd_queue ?s) + length ks \<le> 255" using assms(2) by simp
  show "kbd_queue (keyboard_handler dev frame s) = kbd_queue s @ ks"
    using scancode_step(3) [OF inv p] len by (simp add: handler_scancode keep_last_all)
  show "kbd_tail (keyboard_handler dev frame s) = kbd_tail s"
    using scancode_tail [OF inv p len] by (simp add: handler_scancode)
  show "kbd_inv (keyboard_handler dev frame s)" using scancode_step(2) [OF inv p] by (simp add: handler_scancode)
qed

text \<open>Keys that the reader has not returned yet are in the ring.\<close>

lemma reader_ok_length: "reader_ok q p s \<Longrightarrow> length (kbd_queue s) \<le> length q"
  by (cases p) auto

lemma race_ok:
  assumes "race dev (Check_head, s0) ks (p, s)" and "kbd_inv s0" and "length (kbd_queue s0 @ ks) \<le> 255"
  shows "reader_ok (kbd_queue s0 @ ks) p s \<and> kbd_inv s"
  using assms
proof (induction ks "(p, s)" arbitrary: p s rule: race.induct)
  case race_start
  then show ?case by simp
next
  case (race_code ks p s)
  from reader_step_ok [OF _ _ race_code(3)] race_code(2,4,5) show ?case by blast
next
  case (race_key ks p s)
  let ?k = "snd (press (dev (io_log s) 0x60) (kbd_mods s))"
  from race_key have ok: "reader_ok (kbd_queue s0 @ ks) p s" and inv: "kbd_inv s" by simp_all
  have "length (kbd_queue s @ ?k) \<le> 255" using reader_ok_length [OF ok] race_key(4) by simp
  note h = handler_ok [where dev = dev, OF inv this refl]
  from reader_wake [OF ok h(1,2)] h(3) show ?case by simp
next
  case (race_other ks p s t)
  note same = same_ring [OF race_other(3-6)]
  from race_other have "reader_ok (kbd_queue s0 @ ks) p s" and "kbd_inv s" by simp_all
  with reader_wake [of _ p s t "[]"] same race_other(5) show ?case by simp
qed

section \<open>Properties\<close>

text \<open>
  C11: interrupts may come between any two accesses of \<open>keyboard_get_key\<close> to the ring: as long
  as no more than 255 keys are waiting and arriving, the key it returns is the oldest one, and the
  ring then holds all the others, those that arrived during the call included, in order; nothing
  is lost or read twice.
\<close>

theorem get_key_interleaved:
  assumes "kbd_inv s" and "race dev (Check_head, s) ks (Returned c, t)" and "length (kbd_queue s) + length ks \<le> 255"
  shows "c # kbd_queue t = kbd_queue s @ ks \<and> kbd_inv t"
  using race_ok [OF assms(2,1)] assms(3) by simp

text \<open>Runs of a reader, with the number of its own steps.\<close>

lemma race_steps: "race dev r ks (p, s) \<Longrightarrow> race dev r ks (((\<lambda>(p, s). get_key_step p s) ^^ n) (p, s))"
proof (induction n)
  case (Suc n)
  then show ?case
    using race_code [of dev r ks] by (cases "((\<lambda>(p, s). get_key_step p s) ^^ n) (p, s)") simp
qed simp

lemma race_to_store:
  assumes "race dev r ks (Check_head, s)" and "kbd_head s \<noteq> kbd_tail s"
  shows "race dev r ks (Store_tail (keycache s ! unat (kbd_tail s)) (kbd_tail s), s)"
  using race_steps [OF assms(1), of 5] assms(2) by (simp add: numeral_eq_Suc)

text \<open>The interrupt of key A on a keyboard that has nothing else to report.\<close>

abbreviation only_a :: device where
  "only_a \<equiv> \<lambda>_ _. 0x1E"

definition press_a :: "'a kbd_scheme \<Rightarrow> 'a kbd_scheme" where
  "press_a s = kbd_buffer_push 97 (s\<lparr>io_log := io_log s @ [In 0x60 0x1E]\<rparr>)"

lemma race_key_a:
  assumes "race only_a r ks (p, s)" and "kbd_mods s = (False, False)"
  shows "race only_a r (ks @ [97]) (wake p, press_a s)"
proof -
  have p: "press 0x1E (False, False) = ((False, False), [97])"
    by (simp add: glyph_def letter_def scancode_ascii_def scancode_ascii_shift_def cstr_def)
  have "keyboard_handler only_a f s = press_a s" for f
    using assms(2) p by (auto simp: handler_scancode kbd_scancode_press kbd_mods_def press_a_def)
  with race_key [OF assms(1)] show ?thesis using assms(2) p by simp
qed

lemma press_a_fields:
  "kbd_mods (press_a s) = kbd_mods s" "kbd_head (press_a s) = (kbd_head s + 1) AND 255"
  "kbd_tail (press_a s) = (if (kbd_head s + 1) AND 255 = kbd_tail s then (kbd_tail s + 1) AND 255 else kbd_tail s)"
  by (simp_all add: press_a_def kbd_buffer_push_def KBD_BUFFER_SIZE_def kbd_mods_def Let_def)

theorem get_key_interleaved_witness:
  "\<exists>t. race only_a (Check_head, example_kbd) [97, 97] (Returned 97, t) \<and> kbd_queue t = [97]"
proof -
  let ?s = "press_a example_kbd"
  have mods: "kbd_mods ?s = (False, False)" by (simp add: press_a_fields example_kbd_ok)
  have ne: "kbd_head ?s \<noteq> kbd_tail ?s" by (simp add: press_a_fields) (simp add: example_kbd_def)
  have "race only_a (Check_head, example_kbd) [97] (Check_head, ?s)"
    using race_key_a [OF race_start example_kbd_ok(3), of Check_head] by simp
  from race_steps [OF this, of 3] ne have "race only_a (Check_head, example_kbd) [97] (Read_cell (kbd_tail ?s), ?s)"
    by (simp add: numeral_eq_Suc)
  from race_steps [OF race_key_a [OF this mods], of 3]
  obtain c t where run: "race only_a (Check_head, example_kbd) [97, 97] (Returned c, t)" by (simp add: numeral_eq_Suc)
  from get_key_interleaved [OF example_kbd_ok(1) this] have "c = 97 \<and> kbd_queue t = [97]" by (simp add: example_kbd_ok)
  with run show ?thesis by blast
qed

text \<open>
  C39: where reader and handler race. With a full ring, two keys that arrive after the reader has
  loaded the tail and before it stores the new one move the tail past it; the store moves it
  back onto the head, and a ring of 255 keys is empty. With an empty ring, a key that arrives
  after the reader has loaded the head lets it go to sleep although the key is there; it wakes
  at the next interrupt only.
\<close>

theorem get_key_races:
  "(\<exists>(s :: kbd) c t. kbd_inv s \<and> length (kbd_queue s) = 255
      \<and> race only_a (Check_head, s) [97, 97] (Returned c, t) \<and> kbd_inv t \<and> kbd_queue t = [])
   \<and> (\<exists>(s :: kbd) t. kbd_inv s \<and> kbd_queue s = [] \<and> race only_a (Check_head, s) [97] (Sleep, t) \<and> kbd_queue t = [97])"
proof (rule conjI)
  let ?s = "example_kbd\<lparr>kbd_tail := 0\<rparr>"
  let ?p = "Store_tail (keycache ?s ! 0) 0" and ?t = "(press_a (press_a ?s))\<lparr>kbd_tail := 1\<rparr>"
  have s: "kbd_inv ?s" "pending ?s = 255" "kbd_mods ?s = (False, False)" "kbd_head ?s = 255" "kbd_tail ?s = 0"
    by (simp_all add: example_kbd_def kbd_inv_def pending_def kbd_mods_def)
  have inv: "kbd_inv (press_a u)" if "kbd_inv u" for u :: kbd using that by (simp add: press_a_def push_inv)
  have "race only_a (Check_head, ?s) [] (?p, ?s)"
    using race_to_store [OF race_start, of ?s only_a] s(4,5) by simp
  from race_key_a [OF race_key_a [OF this s(3)]] s(3)
  have "race only_a (Check_head, ?s) [97, 97] (?p, press_a (press_a ?s))" by (simp add: press_a_fields)
  from race_code [OF this] have "race only_a (Check_head, ?s) [97, 97] (Returned (keycache ?s ! 0), ?t)"
    by (simp add: KBD_BUFFER_SIZE_def)
  moreover have "kbd_inv ?t" using inv [OF inv [OF s(1)]] by (simp add: kbd_inv_def)
  moreover from this have "kbd_queue ?t = []"
    using s(4,5) by (simp add: queue_empty_iff) (simp add: press_a_fields)
  ultimately show "\<exists>(s :: kbd) c t. kbd_inv s \<and> length (kbd_queue s) = 255
      \<and> race only_a (Check_head, s) [97, 97] (Returned c, t) \<and> kbd_inv t \<and> kbd_queue t = []"
    using s(1,2) by (metis length_kbd_queue)
next
  let ?s = example_kbd
  have eq: "kbd_head ?s = kbd_tail (press_a ?s)" by (simp add: press_a_fields) (simp add: example_kbd_def)
  have "race only_a (Check_head, ?s) [] (Check_tail (kbd_head ?s), ?s)"
    using race_code [OF race_start, of only_a Check_head ?s] by simp
  from race_key_a [OF this example_kbd_ok(3)]
  have "race only_a (Check_head, ?s) [97] (Check_tail (kbd_head ?s), press_a ?s)" by simp
  from race_code [OF this] have "race only_a (Check_head, ?s) [97] (Sleep, press_a ?s)" using eq by simp
  moreover have "kbd_queue (press_a ?s) = [97]"
    using push_queue [of "?s\<lparr>io_log := io_log ?s @ [In 0x60 0x1E]\<rparr>" 97] example_kbd_ok
    by (simp add: press_a_def keep_last_def)
  ultimately show "\<exists>(s :: kbd) t. kbd_inv s \<and> kbd_queue s = [] \<and> race only_a (Check_head, s) [97] (Sleep, t)
      \<and> kbd_queue t = [97]"
    using example_kbd_ok(1,2) by blast
qed

end
