(* ===== verification/Memory_Init.thy ===== *)
theory Memory_Init
  imports Heap_Interface Panic
begin

text \<open>
  \<open>memory_init\<close> of \<open>libc/stdlib/malloc.c\<close>: choosing the heap from the memory map that the
  boot loader left. The entries are read from memory, the debugging output goes to the
  terminal. The lemmas show which region is chosen and that the allocator starts from the
  empty, well-formed heap the other theorems assume.
\<close>

section \<open>The code\<close>

record mmap_entry =
  base_addr :: u64
  mm_length :: u64
  mm_type :: u32

text \<open>\<open>mmap[i]\<close>: packed entries of 24 bytes (the field \<open>acpi_ext\<close> is never read).\<close>

definition mmap_at :: "memory \<Rightarrow> u64 \<Rightarrow> nat \<Rightarrow> mmap_entry" where
  "mmap_at m mmap i =
     (let a = mmap + of_nat (24 * i)
      in \<lparr>base_addr = load64 m a, mm_length = load64 m (a + 8), mm_type = load32 m (a + 16)\<rparr>)"

definition MMAP_USABLE :: u32 where
  "MMAP_USABLE = 1"

definition MAPPED_LIMIT :: u64 where
  "MAPPED_LIMIT = 0x40000000"

definition HEAP_MIN :: u64 where
  "HEAP_MIN = 0x800000"

type_synonym 'a init_state = "u64 \<times> u64 \<times> 'a heap_scheme"

text \<open>The body of the loop over the map, with \<open>best_base\<close> and \<open>best_len\<close>.\<close>

definition init_entry :: "u64 \<Rightarrow> nat \<Rightarrow> 'a init_state \<Rightarrow> 'a init_state outcome" where
  "init_entry mmap i x =
     (case x of (best_base, best_len, s) \<Rightarrow>
        let entry = mmap_at (mem s) mmap i in
        if mm_type entry \<noteq> MMAP_USABLE then Ok x
        else
          let entry_start = base_addr entry;
              entry_end = entry_start + mm_length entry
          in if entry_start \<ge> MAPPED_LIMIT then Ok x
             else
               let entry_end = (if entry_end > MAPPED_LIMIT then MAPPED_LIMIT else entry_end) in
               if entry_end \<le> heap_beginning s then Ok x
               else
                 let entry_start = (if entry_start < heap_beginning s then heap_beginning s else entry_start);
                     new_length = entry_end - entry_start
                 in map_outcome (\<lambda>s1. if new_length > best_len then (entry_start, new_length, s1)
                                       else (best_base, best_len, s1))
                      (say ''[memory] found usable region with length %x\<newline>'' [Slot new_length] s))"

fun init_loop :: "u64 \<Rightarrow> nat list \<Rightarrow> 'a init_state \<Rightarrow> 'a init_state outcome" where
  "init_loop mmap [] x = Ok x"
| "init_loop mmap (i # is) x = bind_ok (init_entry mmap i x) (init_loop mmap is)"

text \<open>The first part: the lower bound of the heap.\<close>

definition heap_floor :: "u64 \<Rightarrow> u64" where
  "heap_floor kernel_end =
     (let b = ALIGN_UP (kernel_end + 0x1000) in if b < HEAP_MIN then HEAP_MIN else b)"

text \<open>The last part: the fallback, the final bounds and the counters.\<close>

definition init_finish :: "'a init_state \<Rightarrow> 'a heap_scheme outcome" where
  "init_finish x =
     (case x of (best_base, best_len, s) \<Rightarrow>
        let s1 = (if best_len = 0 then s\<lparr>heap_end := heap_beginning s + 0x100000\<rparr>
                  else s\<lparr>heap_beginning := ALIGN_UP best_base, heap_end := best_base + best_len\<rparr>);
            s2 = (if heap_end s1 > MAPPED_LIMIT then s1\<lparr>heap_end := MAPPED_LIMIT\<rparr> else s1);
            s3 = s2\<lparr>last_alloc := heap_beginning s2, memory_used := 0\<rparr>
        in say ''[memory] heap set to beginning=%x and end=%x\<newline>'' [Slot (heap_beginning s3), Slot (heap_end s3)] s3)"

definition memory_init :: "u64 \<Rightarrow> u64 \<Rightarrow> u16 \<Rightarrow> 'a heap_scheme \<Rightarrow> 'a heap_scheme outcome" where
  "memory_init kernel_end mmap mmap_count s =
     (let s1 = s\<lparr>heap_beginning := heap_floor kernel_end\<rparr>;
          x = bind_ok (say ''[memory] kernel end at %x\<newline>'' [Slot kernel_end] s1)
                (say ''[memory] heap beginning padded to %x\<newline>'' [Slot (heap_beginning s1)]);
          y = bind_ok (map_outcome (\<lambda>s2. (0, 0, s2)) x) (init_loop mmap [0..<unat mmap_count])
      in case y of
           Ok z \<Rightarrow> init_finish z
         | Halt (_, _, s) \<Rightarrow> Halt s
         | Nested (_, _, s) \<Rightarrow> Nested s
         | UB e \<Rightarrow> UB e)"

section \<open>The choice as a pure function\<close>

text \<open>
  The part of an entry the heap may use, as start and length in bytes, above \<open>hb\<close> and
  below the mapped limit.
\<close>

definition clip :: "u64 \<Rightarrow> mmap_entry \<Rightarrow> nat \<times> nat" where
  "clip hb e =
     (let lo = max (unat (base_addr e)) (unat hb);
          hi = min (unat (base_addr e) + unat (mm_length e)) 0x40000000
      in if mm_type e = MMAP_USABLE \<and> lo < hi then (lo, hi - lo) else (0, 0))"

text \<open>The largest part, the first one among equals.\<close>

definition pick :: "u64 \<Rightarrow> mmap_entry \<Rightarrow> nat \<times> nat \<Rightarrow> nat \<times> nat" where
  "pick hb e best = (if snd (clip hb e) > snd best then clip hb e else best)"

lemma fold_pick:
  "let b = fold (pick hb) es best in
     (b = best \<or> (\<exists>e \<in> set es. b = clip hb e)) \<and> snd best \<le> snd b
     \<and> (\<forall>e \<in> set es. snd (clip hb e) \<le> snd b)"
proof (induction es arbitrary: best)
  case (Cons e es)
  have "snd best \<le> snd (pick hb e best)" "snd (clip hb e) \<le> snd (pick hb e best)"
    "pick hb e best = best \<or> pick hb e best = clip hb e"
    by (simp_all add: pick_def)
  with Cons [of "pick hb e best"] show ?case
    by (auto simp: Let_def)
qed simp

text \<open>An entry of the map that does not wrap around the address space.\<close>

definition no_wrap :: "mmap_entry \<Rightarrow> bool" where
  "no_wrap e \<longleftrightarrow> unat (base_addr e) + unat (mm_length e) < 18446744073709551616"

lemma clip_pos: "snd (clip hb e) > 0 \<Longrightarrow> unat hb \<le> fst (clip hb e) \<and> fst (clip hb e) + snd (clip hb e) \<le> 0x40000000"
  by (auto simp: clip_def Let_def split: if_splits)

lemma clip_cases:
  "snd (clip hb e) = 0 \<Longrightarrow> clip hb e = (0, 0)"
  by (auto simp: clip_def Let_def split: if_splits)

section \<open>The loop computes the choice\<close>

lemma say_hex_line:
  assumes "tty_inv s"
  obtains t where "say ''[memory] found usable region with length %x\<newline>'' [Slot v] s = Ok t"
    and "tty_inv t" and "tty_frame s t"
proof -
  have "prints s (say ''[memory] found usable region with length %x\<newline>'' [Slot v] s)"
    by (rule prints_say(1), simp add: cstr_def, simp add: cstr_def,
        use hex_text_length [of v] in \<open>simp add: cstr_def\<close>)
  then show thesis by (rule prints_stays [OF _ assms]) (rule that)
qed

lemma init_entry_pick:
  fixes s :: "'a heap_scheme"
  assumes inv: "tty_inv s" and e: "e = mmap_at (mem s) mmap i" and nw: "no_wrap e"
  obtains t bb' bl' where "init_entry mmap i (bb, bl, s) = Ok (bb', bl', t)"
    and "tty_inv t" and "tty_frame s t"
    and "(unat bb', unat bl') = pick (heap_beginning s) e (unat bb, unat bl)"
proof -
  define st where "st = base_addr e"
  define en where "en = (if st + mm_length e > MAPPED_LIMIT then MAPPED_LIMIT else st + mm_length e)"
  define st' where "st' = (if st < heap_beginning s then heap_beginning s else st)"
  have sum: "unat (st + mm_length e) = unat st + unat (mm_length e)"
    using nw by (simp add: st_def no_wrap_def unat_plus_no_wrap)
  have en: "unat en = min (unat st + unat (mm_length e)) 0x40000000"
    using sum by (simp add: en_def MAPPED_LIMIT_def word_less_nat_alt min_def)
  have st': "unat st' = max (unat st) (unat (heap_beginning s))"
    by (simp add: st'_def word_less_nat_alt max_def)
  show thesis
  proof (cases "mm_type e = MMAP_USABLE \<and> st < MAPPED_LIMIT \<and> heap_beginning s < en")
    case True
    then have cond: "mm_type e = MMAP_USABLE" "\<not> MAPPED_LIMIT \<le> st" "\<not> en \<le> heap_beginning s"
      by (simp_all add: not_le)
    from True have le: "unat st' \<le> unat en"
      using en st' by (auto simp: word_less_nat_alt MAPPED_LIMIT_def)
    then have len: "unat (en - st') = unat en - unat st'"
      by (intro unat_minus_le) (simp add: word_le_nat_alt)
    have clip: "clip (heap_beginning s) e = (if unat (en - st') = 0 then (0, 0) else (unat st', unat (en - st')))"
      using True le len en st' by (auto simp: clip_def Let_def st_def)
    obtain t where "say ''[memory] found usable region with length %x\<newline>'' [Slot (en - st')] s = Ok t"
      and t: "tty_inv t" "tty_frame s t"
      by (rule say_hex_line [OF inv])
    then have "init_entry mmap i (bb, bl, s)
        = Ok (if en - st' > bl then (st', en - st', t) else (bb, bl, t))"
      using cond unfolding init_entry_def prod.case e [symmetric] Let_def st_def [symmetric] en_def [symmetric]
        st'_def [symmetric] by simp
    then show thesis
      using t clip by (intro that [of "if en - st' > bl then st' else bb" "if en - st' > bl then en - st' else bl" t])
        (auto simp: pick_def word_less_nat_alt)
  next
    case False
    then have "init_entry mmap i (bb, bl, s) = Ok (bb, bl, s)"
      unfolding init_entry_def prod.case e [symmetric] Let_def st_def [symmetric] en_def [symmetric]
      by (auto simp: not_le not_less)
    moreover have "snd (clip (heap_beginning s) e) = 0"
      using False en st' by (auto simp: clip_def Let_def st_def word_less_nat_alt MAPPED_LIMIT_def)
    ultimately show thesis using inv by (intro that) (auto simp: pick_def)
  qed
qed

text \<open>The table of entries lies apart from the screen, so printing does not change it.\<close>

definition table_apart :: "u64 \<Rightarrow> nat \<Rightarrow> bool" where
  "table_apart mmap n \<longleftrightarrow> unat mmap + 24 * n < 18446744073709551616 \<and> region mmap (24 * n) \<inter> vga_region = {}"

lemma load32_cong:
  "(\<And>x. x \<in> region a 4 \<Longrightarrow> m x = m' x) \<Longrightarrow> load32 m a = load32 m' a"
  unfolding load32_def by (rule load_le_cong) simp

lemma mmap_at_frame:
  assumes "table_apart mmap n" and "tty_frame s t" and "i < n"
  shows "mmap_at (mem t) mmap i = mmap_at (mem s) mmap i"
proof -
  define a where "a = mmap + of_nat (24 * i)"
  have bound: "unat mmap + 24 * i + 24 \<le> unat mmap + 24 * n" and top: "unat mmap + 24 * n < 18446744073709551616"
    using assms(1,3) by (auto simp: table_apart_def)
  have a: "unat a = unat mmap + 24 * i"
    using bound top by (simp add: a_def unat_plus_no_wrap del: of_nat_mult)
  have at: "unat (a + 8) = unat a + 8" "unat (a + 16) = unat a + 16"
    using a bound top by (simp_all add: unat_word_ariths)
  have same: "mem t x = mem s x" if "unat a \<le> unat x" "unat x < unat a + 24" for x
  proof -
    have "x \<in> region mmap (24 * n)" using that a bound top by (simp add: region_interval)
    then have "x \<notin> vga_region" using assms(1) by (auto simp: table_apart_def)
    then show ?thesis using tty_frame_fields(4) [OF assms(2)] by simp
  qed
  have "load64 (mem t) a = load64 (mem s) a" "load64 (mem t) (a + 8) = load64 (mem s) (a + 8)"
    "load32 (mem t) (a + 16) = load32 (mem s) (a + 16)"
    using a at bound top by (auto intro!: load64_cong load32_cong same simp: region_interval)
  then show ?thesis by (simp add: mmap_at_def a_def Let_def)
qed

lemma tty_frame_heap:
  assumes "tty_frame s t"
  shows "heap_beginning t = heap_beginning s" "heap_end t = heap_end s" "last_alloc t = last_alloc s"
    "memory_used t = memory_used s"
  using assms by (auto simp: tty_frame_def)

lemma init_loop_pick:
  fixes s :: "'a heap_scheme"
  assumes "tty_inv s" and "table_apart mmap n" and "set js \<subseteq> {0..<n}"
    and "\<And>i. i < n \<Longrightarrow> no_wrap (mmap_at (mem s) mmap i)"
  obtains t bb' bl' where "init_loop mmap js (bb, bl, s) = Ok (bb', bl', t)"
    and "tty_inv t" and "tty_frame s t"
    and "(unat bb', unat bl')
      = fold (pick (heap_beginning s)) (map (mmap_at (mem s) mmap) js) (unat bb, unat bl)"
proof -
  have "\<exists>t bb' bl'. init_loop mmap js (bb, bl, s) = Ok (bb', bl', t) \<and> tty_inv t \<and> tty_frame s t
      \<and> (unat bb', unat bl')
        = fold (pick (heap_beginning s)) (map (mmap_at (mem s) mmap) js) (unat bb, unat bl)"
    using assms(1,3,4)
  proof (induction js arbitrary: bb bl s)
    case (Cons i js)
    then have i: "i < n" by simp
    obtain t bb1 bl1 where 1: "init_entry mmap i (bb, bl, s) = Ok (bb1, bl1, t)" "tty_inv t" "tty_frame s t"
      "(unat bb1, unat bl1) = pick (heap_beginning s) (mmap_at (mem s) mmap i) (unat bb, unat bl)"
      by (rule init_entry_pick [OF Cons.prems(1) refl Cons.prems(3) [OF i]])
    have same: "mmap_at (mem t) mmap j = mmap_at (mem s) mmap j" if "j < n" for j
      by (rule mmap_at_frame [OF assms(2) 1(3) that])
    have map_eq: "map (mmap_at (mem t) mmap) js = map (mmap_at (mem s) mmap) js"
      using same Cons.prems(2) by auto
    obtain t' bb' bl' where "init_loop mmap js (bb1, bl1, t) = Ok (bb', bl', t')"
      "tty_inv t'" "tty_frame t t'"
      "(unat bb', unat bl')
        = fold (pick (heap_beginning t)) (map (mmap_at (mem t) mmap) js) (unat bb1, unat bl1)"
      using Cons.IH [of t bb1 bl1] 1(2) Cons.prems(2,3) same by auto
    then show ?case
      using 1 tty_frame_heap(1) [OF 1(3)] tty_frame_trans [OF 1(3)] by (auto simp: map_eq)
  qed auto
  then show thesis using that by blast
qed

section \<open>The whole initialisation\<close>

lemma ALIGN_UP_limit:
  assumes "unat x \<le> 0x40000000"
  shows "unat x \<le> unat (ALIGN_UP x)" and "unat (ALIGN_UP x) \<le> 0x40000000" and "16 dvd unat (ALIGN_UP x)"
proof -
  have eq: "unat (ALIGN_UP x) = (unat x + 15) div 16 * 16"
    using assms by (intro ALIGN_UP_unat) simp
  show "unat x \<le> unat (ALIGN_UP x)" "unat (ALIGN_UP x) \<le> 0x40000000" "16 dvd unat (ALIGN_UP x)"
    unfolding eq using assms by presburger+
qed

lemma heap_floor_bounds:
  assumes "unat kernel_end + 0x1000 \<le> 0x40000000"
  shows "HEAP_LOW \<le> unat (heap_floor kernel_end)" and "unat (heap_floor kernel_end) \<le> HEAP_LIMIT"
    and "16 dvd unat (heap_floor kernel_end)" and "unat kernel_end + 0x1000 \<le> unat (heap_floor kernel_end)"
proof -
  have "unat (kernel_end + 0x1000) = unat kernel_end + 0x1000"
    using assms by (simp add: unat_plus_no_wrap)
  note b = ALIGN_UP_limit [of "kernel_end + 0x1000", unfolded this, OF assms]
  show "HEAP_LOW \<le> unat (heap_floor kernel_end)" "unat (heap_floor kernel_end) \<le> HEAP_LIMIT"
    "16 dvd unat (heap_floor kernel_end)" "unat kernel_end + 0x1000 \<le> unat (heap_floor kernel_end)"
    using b by (auto simp: heap_floor_def Let_def HEAP_MIN_def HEAP_LOW_def HEAP_LIMIT_def word_less_nat_alt)
qed

lemma tty_frame_more: "tty_frame s t \<Longrightarrow> heap.more t = heap.more s"
  by (auto simp: tty_frame_def)

lemma init_finish_effect:
  fixes s :: "'a heap_scheme"
  assumes inv: "tty_inv s" and hb: "HEAP_LOW \<le> unat (heap_beginning s)" "unat (heap_beginning s) \<le> HEAP_LIMIT"
      "16 dvd unat (heap_beginning s)"
    and best: "unat bl = 0 \<or> unat (heap_beginning s) \<le> unat bb \<and> unat bb + unat bl \<le> 0x40000000"
  obtains t where "init_finish (bb, bl, s) = Ok t" and "tty_inv t" and "heap_rel t []"
    and "\<And>x. x \<notin> vga_region \<Longrightarrow> mem t x = mem s x"
    and "heap_beginning t = (if unat bl = 0 then heap_beginning s else ALIGN_UP bb)"
    and "unat (heap_end t) = (if unat bl = 0 then min (unat (heap_beginning s) + 0x100000) 0x40000000
       else unat bb + unat bl)"
    and "heap.more t = heap.more s"
proof -
  define s1 where "s1 = (if bl = 0 then s\<lparr>heap_end := heap_beginning s + 0x100000\<rparr>
    else s\<lparr>heap_beginning := ALIGN_UP bb, heap_end := bb + bl\<rparr>)"
  define s2 where "s2 = (if heap_end s1 > MAPPED_LIMIT then s1\<lparr>heap_end := MAPPED_LIMIT\<rparr> else s1)"
  define s3 where "s3 = s2\<lparr>last_alloc := heap_beginning s2, memory_used := 0\<rparr>"
  have bl0: "unat bl = 0 \<longleftrightarrow> bl = 0" by (simp add: unsigned_eq_0_iff)
  have fallback: "unat (heap_beginning s + 0x100000) = unat (heap_beginning s) + 0x100000"
    using hb(2) by (simp add: unat_plus_no_wrap HEAP_LIMIT_def)
  have sum: "bl \<noteq> 0 \<Longrightarrow> unat (bb + bl) = unat bb + unat bl"
    using best bl0 by (simp add: unat_plus_no_wrap)
  have eqs: "heap_beginning s3 = (if unat bl = 0 then heap_beginning s else ALIGN_UP bb)" "mem s3 = mem s"
    "last_alloc s3 = heap_beginning s3" "memory_used s3 = 0" "tty_inv s3" "heap.more s3 = heap.more s"
    using inv by (simp_all add: s3_def s2_def s1_def bl0 tty_inv_def)
  have end3: "unat (heap_end s3) = (if unat bl = 0 then min (unat (heap_beginning s) + 0x100000) 0x40000000
      else unat bb + unat bl)"
    using best fallback sum by (auto simp: s3_def s2_def s1_def bl0 MAPPED_LIMIT_def word_less_nat_alt)
  have base: "HEAP_LOW \<le> unat (heap_beginning s3)" "unat (heap_beginning s3) \<le> HEAP_LIMIT"
    "16 dvd unat (heap_beginning s3)"
    using hb best ALIGN_UP_limit [of bb] by (auto simp: eqs(1) HEAP_LIMIT_def)
  have rel3: "heap_rel s3 []"
    using base end3 best eqs by (auto simp: heap_rel_def HEAP_LIMIT_def)
  have "prints s3 (say ''[memory] heap set to beginning=%x and end=%x\<newline>''
      [Slot (heap_beginning s3), Slot (heap_end s3)] s3)"
    by (rule prints_say(1), simp add: cstr_def, simp add: cstr_def,
        use hex_text_length [of "heap_beginning s3"] hex_text_length [of "heap_end s3"] in \<open>simp add: cstr_def\<close>)
  then obtain t where t: "say ''[memory] heap set to beginning=%x and end=%x\<newline>''
      [Slot (heap_beginning s3), Slot (heap_end s3)] s3 = Ok t" "tty_inv t" "tty_frame s3 t"
    by (rule prints_stays [OF _ eqs(5)])
  have "heap_rel t []" using rel3 tty_frame_heap [OF t(3)] by (simp add: heap_rel_def)
  moreover have "init_finish (bb, bl, s) = Ok t"
    using t(1) unfolding init_finish_def prod.case Let_def s1_def [symmetric] s2_def [symmetric] s3_def [symmetric] .
  ultimately show thesis
    using that t tty_frame_heap [OF t(3)] tty_frame_fields(4) [OF t(3)] tty_frame_more [OF t(3)] eqs end3 by simp
qed

lemma memory_init_effect:
  fixes s :: "'a heap_scheme"
  assumes inv: "tty_inv s" and ke: "unat kernel_end + 0x1000 \<le> 0x40000000"
    and apart: "table_apart mmap (unat mmap_count)"
    and nw: "\<And>i. i < unat mmap_count \<Longrightarrow> no_wrap (mmap_at (mem s) mmap i)"
  defines "hb \<equiv> heap_floor kernel_end"
    and "best \<equiv> fold (pick (heap_floor kernel_end)) (map (mmap_at (mem s) mmap) [0..<unat mmap_count]) (0, 0)"
  obtains t bb where "memory_init kernel_end mmap mmap_count s = Ok t" and "tty_inv t" and "heap_rel t []"
    and "\<And>x. x \<notin> vga_region \<Longrightarrow> mem t x = mem s x" and "unat bb = fst best"
    and "heap_beginning t = (if snd best = 0 then hb else ALIGN_UP bb)"
    and "unat (heap_end t) = (if snd best = 0 then min (unat hb + 0x100000) 0x40000000 else fst best + snd best)"
    and "heap.more t = heap.more s"
proof -
  define s1 where "s1 = s\<lparr>heap_beginning := hb\<rparr>"
  have inv1: "tty_inv s1" using inv by (simp add: s1_def tty_inv_def)
  have "prints s1 (bind_ok (say ''[memory] kernel end at %x\<newline>'' [Slot kernel_end] s1)
      (say ''[memory] heap beginning padded to %x\<newline>'' [Slot (heap_beginning s1)]))"
    by (rule prints_bind; rule prints_say(1), simp add: cstr_def, simp add: cstr_def,
        use hex_text_length [of kernel_end] hex_text_length [of "heap_beginning s1"] in \<open>simp add: cstr_def\<close>)
  then obtain s2 where s2: "bind_ok (say ''[memory] kernel end at %x\<newline>'' [Slot kernel_end] s1)
      (say ''[memory] heap beginning padded to %x\<newline>'' [Slot (heap_beginning s1)]) = Ok s2"
    "tty_inv s2" "tty_frame s1 s2"
    by (rule prints_stays [OF _ inv1])
  have hb2: "heap_beginning s2 = hb" using tty_frame_heap(1) [OF s2(3)] by (simp add: s1_def)
  have same: "mmap_at (mem s2) mmap i = mmap_at (mem s) mmap i" if "i < unat mmap_count" for i
    using mmap_at_frame [OF apart s2(3) that] by (simp add: s1_def)
  have map_eq: "map (mmap_at (mem s2) mmap) [0..<unat mmap_count] = map (mmap_at (mem s) mmap) [0..<unat mmap_count]"
    using same by simp
  obtain t2 bb bl where loop: "init_loop mmap [0..<unat mmap_count] (0, 0, s2) = Ok (bb, bl, t2)"
    and t2: "tty_inv t2" "tty_frame s2 t2" and b: "(unat bb, unat bl) = best"
    by (rule init_loop_pick [OF s2(2) apart, of "[0..<unat mmap_count]" 0 0])
      (use nw same map_eq hb2 in \<open>auto simp: best_def hb_def\<close>)
  note floor = heap_floor_bounds [OF ke, folded hb_def]
  have hbt: "heap_beginning t2 = hb" using tty_frame_heap(1) [OF t2(2)] hb2 by simp
  have "unat bl = 0 \<or> unat hb \<le> unat bb \<and> unat bb + unat bl \<le> 0x40000000"
  proof (cases "unat bl = 0")
    case False
    with fold_pick [of hb "map (mmap_at (mem s) mmap) [0..<unat mmap_count]" "(0, 0)"] b
    obtain e where "best = clip hb e" by (auto simp: Let_def best_def hb_def)
    with False b clip_pos [of hb e] show ?thesis by (metis fst_conv gr0I snd_conv)
  qed simp
  then obtain t where t: "init_finish (bb, bl, t2) = Ok t" "tty_inv t" "heap_rel t []"
    "\<And>x. x \<notin> vga_region \<Longrightarrow> mem t x = mem t2 x"
    "heap_beginning t = (if unat bl = 0 then hb else ALIGN_UP bb)"
    "unat (heap_end t) = (if unat bl = 0 then min (unat hb + 0x100000) 0x40000000 else unat bb + unat bl)"
    "heap.more t = heap.more t2"
    using init_finish_effect [of t2 bl bb, OF t2(1)] floor(1-3) unfolding hbt by metis
  have "mem t x = mem s x" if "x \<notin> vga_region" for x
    using t(4) [OF that] tty_frame_fields(4) [OF t2(2) that] tty_frame_fields(4) [OF s2(3) that]
    by (simp add: s1_def)
  moreover have "memory_init kernel_end mmap mmap_count s = Ok t"
    using s2(1) loop t(1) unfolding memory_init_def Let_def hb_def [symmetric] s1_def [symmetric] by simp
  moreover have "heap.more t = heap.more s"
    using t(7) tty_frame_more [OF t2(2)] tty_frame_more [OF s2(3)] by (simp add: s1_def)
  ultimately show thesis
    using that t(1-6) b by (metis fst_conv snd_conv)
qed

section \<open>Properties\<close>

text \<open>
  \<open>memory_init\<close> returns and establishes the allocator's starting point: for any memory
  map whose entries do not wrap and whose table is apart from the screen, and a kernel that
  ends below the mapped limit, the heap is empty and well formed (aligned, above user space,
  inside the mapped memory), and no memory but the screen has changed.
\<close>

theorem memory_init_establishes_heap:
  fixes s :: "'a heap_scheme"
  assumes "tty_inv s" and "unat kernel_end + 0x1000 \<le> 0x40000000"
    and "table_apart mmap (unat mmap_count)"
    and "\<And>i. i < unat mmap_count \<Longrightarrow> no_wrap (mmap_at (mem s) mmap i)"
  shows "\<exists>t. memory_init kernel_end mmap mmap_count s = Ok t \<and> heap_rel t [] \<and> tty_inv t
    \<and> (\<forall>x. x \<notin> vga_region \<longrightarrow> mem t x = mem s x)"
proof (rule memory_init_effect [OF assms])
  fix t bb
  assume "memory_init kernel_end mmap mmap_count s = Ok t" "tty_inv t" "heap_rel t []"
    "\<And>x. x \<notin> vga_region \<Longrightarrow> mem t x = mem s x"
  then show ?thesis by blast
qed

lemma no_table_apart: "table_apart 0x500 (unat (0 :: u16))"
  by (simp add: table_apart_def)

lemma fresh_heap_tty: "tty_inv fresh_heap"
  by (simp add: tty_inv_def fresh_heap_def VGA_WIDTH_def VGA_HEIGHT_def)

theorem memory_init_establishes_heap_witness:
  "\<exists>t. memory_init 0x20000 0x500 0 fresh_heap = Ok t \<and> heap_rel t [] \<and> tty_inv t"
proof -
  have ke: "unat (0x20000 :: u64) + 0x1000 \<le> 0x40000000" by simp
  show ?thesis
    using memory_init_establishes_heap [OF fresh_heap_tty ke no_table_apart] by auto
qed

text \<open>
  C26: if some usable entry of the memory map reaches above the kernel and below the mapped
  limit, the heap is all of one usable entry \<open>j\<close> that lies there, and no usable entry
  offers more bytes: the heap starts at the entry's base or at the kernel's padded end,
  whichever is higher (rounded up to 16), and ends where the entry ends or at the limit.
\<close>

theorem memory_init_takes_largest:
  fixes s :: "'a heap_scheme"
  assumes "tty_inv s" and "unat kernel_end + 0x1000 \<le> 0x40000000"
    and "table_apart mmap (unat mmap_count)"
    and "\<And>i. i < unat mmap_count \<Longrightarrow> no_wrap (mmap_at (mem s) mmap i)"
    and "k < unat mmap_count" and "0 < snd (clip (heap_floor kernel_end) (mmap_at (mem s) mmap k))"
  shows "\<exists>t j. memory_init kernel_end mmap mmap_count s = Ok t \<and> j < unat mmap_count
    \<and> mm_type (mmap_at (mem s) mmap j) = MMAP_USABLE
    \<and> unat (heap_beginning t) = (max (unat (base_addr (mmap_at (mem s) mmap j)))
         (unat (heap_floor kernel_end)) + 15) div 16 * 16
    \<and> unat kernel_end + 0x1000 \<le> unat (heap_beginning t)
    \<and> unat (heap_end t) = min (unat (base_addr (mmap_at (mem s) mmap j))
         + unat (mm_length (mmap_at (mem s) mmap j))) 0x40000000
    \<and> heap_rel t []
    \<and> (\<forall>i < unat mmap_count. snd (clip (heap_floor kernel_end) (mmap_at (mem s) mmap i))
         \<le> snd (clip (heap_floor kernel_end) (mmap_at (mem s) mmap j)))"
proof (rule memory_init_effect [OF assms(1-4)])
  let ?hb = "heap_floor kernel_end"
  let ?es = "map (mmap_at (mem s) mmap) [0..<unat mmap_count]"
  fix t bb
  assume res: "memory_init kernel_end mmap mmap_count s = Ok t" and rel: "heap_rel t []"
    and bb: "unat bb = fst (fold (pick ?hb) ?es (0, 0))"
    and beg: "heap_beginning t = (if snd (fold (pick ?hb) ?es (0, 0)) = 0 then ?hb else ALIGN_UP bb)"
    and fin: "unat (heap_end t) = (if snd (fold (pick ?hb) ?es (0, 0)) = 0
      then min (unat ?hb + 0x100000) 0x40000000
      else fst (fold (pick ?hb) ?es (0, 0)) + snd (fold (pick ?hb) ?es (0, 0)))"
  have all: "\<forall>i < unat mmap_count. snd (clip ?hb (mmap_at (mem s) mmap i)) \<le> snd (fold (pick ?hb) ?es (0, 0))"
    using fold_pick [of ?hb ?es "(0, 0)"] by (auto simp: Let_def)
  with assms(5,6) have pos: "0 < snd (fold (pick ?hb) ?es (0, 0))" by (metis order_less_le_trans)
  with fold_pick [of ?hb ?es "(0, 0)"] obtain j where j: "j < unat mmap_count"
    and best: "fold (pick ?hb) ?es (0, 0) = clip ?hb (mmap_at (mem s) mmap j)"
    by (auto simp: Let_def)
  let ?e = "mmap_at (mem s) mmap j"
  have clip: "mm_type ?e = MMAP_USABLE" "fst (clip ?hb ?e) = max (unat (base_addr ?e)) (unat ?hb)"
    "fst (clip ?hb ?e) + snd (clip ?hb ?e) = min (unat (base_addr ?e) + unat (mm_length ?e)) 0x40000000"
    "fst (clip ?hb ?e) \<le> 0x40000000"
    using pos best by (auto simp: clip_def Let_def split: if_splits)
  have bb': "unat bb = max (unat (base_addr ?e)) (unat ?hb)" using bb best clip(2) by simp
  have beg': "unat (heap_beginning t) = (unat bb + 15) div 16 * 16"
    using beg pos bb best clip(4) by (simp add: ALIGN_UP_unat)
  have "unat kernel_end + 0x1000 \<le> unat bb"
    using heap_floor_bounds(4) [OF assms(2)] bb' by simp
  also have "\<dots> \<le> unat (heap_beginning t)"
    using beg pos bb best clip(4) ALIGN_UP_limit(1) [of bb] by simp
  finally have "unat kernel_end + 0x1000 \<le> unat (heap_beginning t)" .
  then show ?thesis
    using res rel j clip all fin pos best beg' bb' by (intro exI [of _ t] exI [of _ j]) simp
qed

text \<open>A map with one usable entry from 1 MiB to 16 MiB.\<close>

definition one_entry_map :: memory where
  "one_entry_map = (\<lambda>_. 0)(0x502 := 0x10, 0x50A := 0xF0, 0x510 := 1)"

lemma one_entry_mmap:
  "mmap_at one_entry_map 0x500 0 = \<lparr>base_addr = 0x100000, mm_length = 0xF00000, mm_type = 1\<rparr>"
  by (simp add: mmap_at_def one_entry_map_def load64_def load32_def Let_def load_le_numeral)

theorem memory_init_takes_largest_witness:
  "\<exists>t. memory_init 0x20000 0x500 1 (fresh_heap\<lparr>mem := one_entry_map\<rparr>) = Ok t
    \<and> unat (heap_beginning t) = 0x800000 \<and> unat (heap_end t) = 0x1000000"
proof -
  let ?s = "fresh_heap\<lparr>mem := one_entry_map\<rparr>"
  have inv: "tty_inv ?s" using fresh_heap_tty by (simp add: tty_inv_def)
  have ke: "unat (0x20000 :: u64) + 0x1000 \<le> 0x40000000" by simp
  have apart: "table_apart 0x500 (unat (1 :: u16))"
    by (auto simp: table_apart_def vga_region_def VGA_def region_interval)
  have nw: "no_wrap (mmap_at (mem ?s) 0x500 i)" if "i < unat (1 :: u16)" for i
    using that by (simp add: one_entry_mmap no_wrap_def)
  have floor: "unat (heap_floor 0x20000) = 0x800000"
    by (simp add: heap_floor_def HEAP_MIN_def ALIGN_UP_def ALLOC_ALIGN_def Let_def)
  then have k: "0 < snd (clip (heap_floor 0x20000) (mmap_at (mem ?s) 0x500 0))"
    by (simp add: one_entry_mmap clip_def MMAP_USABLE_def Let_def)
  show ?thesis
    using memory_init_takes_largest [OF inv ke apart nw _ k] by (auto simp: one_entry_mmap floor)
qed

end
