(* ===== verification/Idt.thy ===== *)
theory Idt
  imports Prelude
begin

text \<open>
  The interrupt descriptor table: \<open>kernel/include/interrupts/idt.h\<close> and
  \<open>kernel/interrupts/idt.c\<close>. The addresses of the assembly stubs \<open>isr0 .. isr31\<close>,
  \<open>irq0 .. irq15\<close> and \<open>isr128\<close> are parameters, as is the address of the table. The
  property reads the finished table the way the CPU does.
\<close>

section \<open>The code\<close>

record interrupter_descriptor =
  offset_1 :: u16
  segment_selector :: u16
  idt_ist :: u8
  gate_type :: u8
  offset_2 :: u16
  offset_3 :: u32
  idt_zero :: u32

record idtr =
  idtr_limit :: u16
  idtr_base :: u64

type_synonym idt = "interrupter_descriptor list"

text \<open>The table before initialisation: static storage, all zero.\<close>

definition idt_zeroed :: idt where
  "idt_zeroed = replicate 256 \<lparr>offset_1 = 0, segment_selector = 0, idt_ist = 0, gate_type = 0,
     offset_2 = 0, offset_3 = 0, idt_zero = 0\<rparr>"

definition idt_set_item :: "nat \<Rightarrow> u64 \<Rightarrow> u16 \<Rightarrow> u8 \<Rightarrow> idt \<Rightarrow> idt" where
  "idt_set_item vector handler_addr selector kind idt =
     idt[vector := \<lparr>offset_1 = ucast (handler_addr AND 0xFFFF), segment_selector = selector,
       idt_ist = 0, gate_type = kind,
       offset_2 = ucast (drop_bit 16 handler_addr AND 0xFFFF),
       offset_3 = ucast (drop_bit 32 handler_addr AND 0xFFFFFFFF), idt_zero = 0\<rparr>]"

definition idt_set_items :: "(nat \<Rightarrow> u64) \<Rightarrow> (nat \<Rightarrow> u64) \<Rightarrow> u64 \<Rightarrow> idt \<Rightarrow> idt" where
  "idt_set_items isr irq isr128 idt =
     (let idt = fold (\<lambda>v. idt_set_item v (isr v) 0x08 0x8E) [0..<32] idt;
          idt = fold (\<lambda>n. idt_set_item (32 + n) (irq n) 0x08 0x8E) [0..<16] idt
      in idt_set_item 0x80 isr128 0x08 0xEE idt)"

text \<open>\<open>sizeof(interrupter_descriptor_t)\<close>, a packed struct.\<close>

definition sizeof_descriptor :: nat where
  "sizeof_descriptor = 16"

definition idt_init :: "u64 \<Rightarrow> (nat \<Rightarrow> u64) \<Rightarrow> (nat \<Rightarrow> u64) \<Rightarrow> u64 \<Rightarrow> idt \<Rightarrow> idt \<times> idtr" where
  "idt_init idt_addr isr irq isr128 idt =
     (idt_set_items isr irq isr128 idt,
      \<lparr>idtr_limit = of_nat (sizeof_descriptor * 256 - 1), idtr_base = idt_addr\<rparr>)"

section \<open>The table as the CPU reads it\<close>

definition handler_of :: "interrupter_descriptor \<Rightarrow> u64" where
  "handler_of d = ucast (offset_1 d) OR push_bit 16 (ucast (offset_2 d)) OR push_bit 32 (ucast (offset_3 d))"

text \<open>A present gate: handler address, code selector, and the least privileged ring that may
  raise it with an \<open>int\<close> instruction.\<close>

definition gate :: "interrupter_descriptor \<Rightarrow> (u64 \<times> u16 \<times> u8) option" where
  "gate d = (if bit (gate_type d) 7
     then Some (handler_of d, segment_selector d, take_bit 2 (drop_bit 5 (gate_type d))) else None)"

lemma split_address:
  fixes a :: u64
  shows "ucast (ucast (a AND 0xFFFF) :: u16) OR push_bit 16 (ucast (ucast (drop_bit 16 a AND 0xFFFF) :: u16))
    OR push_bit 32 (ucast (ucast (drop_bit 32 a AND 0xFFFFFFFF) :: u32)) = a"
proof -
  have m: "(0xFFFF :: u64) = mask 16" "(0xFFFFFFFF :: u64) = mask 32"
    by (simp_all add: mask_eq_exp_minus_1)
  show ?thesis
    unfolding m
  proof (rule bit_word_eqI)
    fix n assume "n < LENGTH(64)"
    then consider "n < 16" | "16 \<le> n" "n < 32" | "32 \<le> n" "n < 64" by force
    then show "bit (ucast (ucast (a AND mask 16) :: u16) OR push_bit 16 (ucast (ucast (drop_bit 16 a AND mask 16) :: u16))
        OR push_bit 32 (ucast (ucast (drop_bit 32 a AND mask 32) :: u32)) :: u64) n = bit a n"
      by cases (auto simp: bit_simps)
  qed
qed

lemma gate_set_item:
  assumes "w < length idt" and "bit kind 7"
  shows "gate (idt_set_item w a sel kind idt ! v)
    = (if v = w then Some (a, sel, take_bit 2 (drop_bit 5 kind)) else gate (idt ! v))"
  using assms by (simp add: idt_set_item_def gate_def handler_of_def split_address)

lemma length_set_item [simp]: "length (idt_set_item w a sel kind idt) = length idt"
  by (simp add: idt_set_item_def)

lemma length_fold_items [simp]:
  "length (fold (\<lambda>i. idt_set_item (g i) (f i) sel kind) js idt) = length idt"
  by (rule fold_preserves [where P = "\<lambda>t. length t = length idt"]) simp_all

lemma gate_fold_items:
  assumes "base + n \<le> length idt" and "bit kind 7"
  shows "gate (fold (\<lambda>i. idt_set_item (base + i) (f i) sel kind) [0..<n] idt ! v)
    = (if base \<le> v \<and> v < base + n then Some (f (v - base), sel, take_bit 2 (drop_bit 5 kind)) else gate (idt ! v))"
  using assms(1)
proof (induction n)
  case (Suc n)
  then show ?case by (auto simp: gate_set_item [OF _ assms(2)])
qed auto

lemma idt_gates:
  assumes "v < 256"
  shows "gate (fst (idt_init idt_addr isr irq stub idt_zeroed) ! v)
    = (if v < 32 then Some (isr v, 0x08, 0)
       else if v < 48 then Some (irq (v - 32), 0x08, 0)
       else if v = 0x80 then Some (stub, 0x08, 3) else None)"
proof -
  have len: "length idt_zeroed = 256" and zero: "gate (idt_zeroed ! v) = None"
    using assms by (simp_all add: idt_zeroed_def gate_def)
  have bits: "bit (0x8E :: u8) 7" "bit (0xEE :: u8) 7" by simp_all
  let ?t1 = "fold (\<lambda>v. idt_set_item v (isr v) 0x08 0x8E) [0..<32] idt_zeroed"
  let ?t2 = "fold (\<lambda>n. idt_set_item (32 + n) (irq n) 0x08 0x8E) [0..<16] ?t1"
  have 1: "gate (?t1 ! v) = (if v < 32 then Some (isr v, 0x08, 0) else None)" "length ?t1 = 256"
    using gate_fold_items [where base = 0 and n = 32 and idt = idt_zeroed and kind = "0x8E" and f = isr and sel = 8 and v = v] len zero bits
    by simp_all
  have 2: "gate (?t2 ! v) = (if 32 \<le> v \<and> v < 48 then Some (irq (v - 32), 0x08, 0) else gate (?t1 ! v))"
    "length ?t2 = 256"
    using gate_fold_items [where base = 32 and n = 16 and idt = "?t1" and kind = "0x8E" and f = irq and sel = 8 and v = v]
      1(2) bits by simp_all
  have "gate (idt_set_item 0x80 stub 0x08 0xEE ?t2 ! v)
      = (if v = 0x80 then Some (stub, 0x08, 3) else gate (?t2 ! v))"
    using gate_set_item [where w = 128 and idt = "?t2" and kind = "0xEE" and a = stub and sel = 8 and v = v] 2(2) bits
    by simp
  then show ?thesis
    using 1 2 by (simp add: idt_init_def idt_set_items_def Let_def)
qed

lemma idt_init_parts:
  "length (fst (idt_init idt_addr isr irq stub idt)) = length idt"
  "snd (idt_init idt_addr isr irq stub idt) = \<lparr>idtr_limit = 4095, idtr_base = idt_addr\<rparr>"
  by (simp_all add: idt_init_def idt_set_items_def Let_def sizeof_descriptor_def)

section \<open>Properties\<close>

text \<open>
  C36: after \<open>idt_init\<close> every exception vector, every remapped IRQ and the system call
  vector leads to its own stub at its exact 64-bit address, in the kernel code segment; only
  vector 0x80 can be raised from ring 3; all other vectors are absent.
\<close>

theorem idt_routes_vectors:
  assumes "v < 256"
  shows "gate (fst (idt_init idt_addr isr irq stub idt_zeroed) ! v)
    = (if v < 32 then Some (isr v, 0x08, 0)
       else if v < 48 then Some (irq (v - 32), 0x08, 0)
       else if v = 0x80 then Some (stub, 0x08, 3) else None)
    \<and> idtr_limit (snd (idt_init idt_addr isr irq stub idt_zeroed)) = 4095"
  using idt_gates [OF assms] by (simp add: idt_init_def sizeof_descriptor_def)

theorem idt_routes_vectors_witness:
  "gate (fst (idt_init 0x30000 (\<lambda>n. of_nat n) (\<lambda>n. 0x123456789ABCDEF0 + of_nat n) 7 idt_zeroed) ! 33)
    = Some (0x123456789ABCDEF1, 0x08, 0)"
  using idt_routes_vectors [where v = 33 and idt_addr = "0x30000" and isr = "\<lambda>n. of_nat n"
      and irq = "\<lambda>n. 0x123456789ABCDEF0 + of_nat n" and stub = 7] by simp

end
