(* ===== verification/Gdt.thy ===== *)
theory Gdt
  imports Prelude
begin

text \<open>
  Segment descriptors and the task state segment: \<open>kernel/include/gdt/gdt.h\<close> and
  \<open>kernel/gdt/gdt.c\<close>. The table has seven 8-byte slots; slots 5 and 6 together hold the
  16-byte descriptor of the TSS, which the code writes through a cast pointer. The addresses
  of the table and of the TSS are parameters; loading them into the CPU is assembly code.
\<close>

section \<open>The code\<close>

record gdt_entry =
  limit_low :: u16
  base_low :: u16
  base_middle :: u8
  access_flag :: u8
  granularity :: u8
  base_high :: u8

record tss_gdt_entry = gdt_entry +
  base_upper :: u32
  tss_reserved :: u32

record tss_entry =
  rsp0 :: u64
  rsp1 :: u64
  rsp2 :: u64
  tss_ist :: "u64 list"
  iomap_base :: u16

record gdt_pointer =
  gdtp_limit :: u16
  gdtp_base :: u64

datatype gdt_slot = Seg gdt_entry | Tss tss_gdt_entry | Tss_second_half

record gdt_state =
  gdt :: "gdt_slot list"
  system_tss :: tss_entry
  gdtp :: gdt_pointer

definition set_gdt_entry :: "u8 \<Rightarrow> u8 \<Rightarrow> gdt_entry" where
  "set_gdt_entry access flags =
     \<lparr>limit_low = 0xFFFF, base_low = 0, base_middle = 0, access_flag = access,
      granularity = (flags AND 0xF0) OR 0x0F, base_high = 0\<rparr>"

definition setup_tss_descriptor :: "u64 \<Rightarrow> u32 \<Rightarrow> tss_gdt_entry" where
  "setup_tss_descriptor tss_base tss_limit =
     \<lparr>limit_low = ucast tss_limit AND 0xFFFF,
      base_low = ucast tss_base AND 0xFFFF,
      base_middle = ucast (drop_bit 16 tss_base) AND 0xFF,
      access_flag = 0x89,
      granularity = ucast (drop_bit 16 tss_limit) AND 0xF,
      base_high = ucast (drop_bit 24 tss_base) AND 0xFF,
      base_upper = ucast (drop_bit 32 tss_base),
      tss_reserved = 0\<rparr>"

definition null_entry :: gdt_entry where
  "null_entry = \<lparr>limit_low = 0, base_low = 0, base_middle = 0, access_flag = 0, granularity = 0, base_high = 0\<rparr>"

text \<open>\<open>sizeof(tss_entry)\<close>: 4 + 3 * 8 + 8 + 7 * 8 + 8 + 2 + 2 bytes, packed.\<close>

definition sizeof_tss_entry :: nat where
  "sizeof_tss_entry = 104"

definition init_gdt :: "u64 \<Rightarrow> u64 \<Rightarrow> u64 \<Rightarrow> gdt_state" where
  "init_gdt gdt_addr tss_addr kernel_top =
     \<lparr>gdt = [Seg null_entry, Seg (set_gdt_entry 0x9A 0xA0), Seg (set_gdt_entry 0x92 0x00),
        Seg (set_gdt_entry 0xF2 0x00), Seg (set_gdt_entry 0xFA 0xA0),
        Tss (setup_tss_descriptor tss_addr (of_nat (sizeof_tss_entry - 1))), Tss_second_half],
      system_tss = \<lparr>rsp0 = kernel_top, rsp1 = 0, rsp2 = 0, tss_ist = replicate 7 0,
        iomap_base = of_nat sizeof_tss_entry\<rparr>,
      gdtp = \<lparr>gdtp_limit = 7 * 8 - 1, gdtp_base = gdt_addr\<rparr>\<rparr>"

section \<open>The table as the CPU reads it\<close>

text \<open>A selector: index of a slot and requested privilege level.\<close>

definition selected :: "gdt_state \<Rightarrow> u16 \<Rightarrow> gdt_slot" where
  "selected g sel = gdt g ! unat (drop_bit 3 sel)"

definition rpl :: "u16 \<Rightarrow> u8" where
  "rpl sel = ucast (take_bit 2 sel)"

text \<open>Present code or data segment with its ring; code segments run 64-bit code.\<close>

definition code_segment :: "u8 \<Rightarrow> gdt_slot \<Rightarrow> bool" where
  "code_segment ring slot = (case slot of
     Seg d \<Rightarrow> bit (access_flag d) 7 \<and> bit (access_flag d) 4 \<and> bit (access_flag d) 3
       \<and> take_bit 2 (drop_bit 5 (access_flag d)) = ring \<and> bit (granularity d) 5
   | _ \<Rightarrow> False)"

definition data_segment :: "u8 \<Rightarrow> gdt_slot \<Rightarrow> bool" where
  "data_segment ring slot = (case slot of
     Seg d \<Rightarrow> bit (access_flag d) 7 \<and> bit (access_flag d) 4 \<and> \<not> bit (access_flag d) 3
       \<and> bit (access_flag d) 1 \<and> take_bit 2 (drop_bit 5 (access_flag d)) = ring
   | _ \<Rightarrow> False)"

definition tss_base_of :: "tss_gdt_entry \<Rightarrow> u64" where
  "tss_base_of d = ucast (base_low d) OR push_bit 16 (ucast (base_middle d))
     OR push_bit 24 (ucast (base_high d)) OR push_bit 32 (ucast (base_upper d))"

definition tss_limit_of :: "tss_gdt_entry \<Rightarrow> nat" where
  "tss_limit_of d = unat (limit_low d) + 65536 * unat (take_bit 4 (granularity d))"

lemma tss_base_split: "tss_base_of (setup_tss_descriptor b l) = b"
proof (rule bit_word_eqI)
  have m: "(0xFFFF :: u16) = mask 16" "(0xFF :: u8) = mask 8" by (simp_all add: mask_eq_exp_minus_1)
  fix n assume "n < LENGTH(64)"
  then consider "n < 16" | "16 \<le> n" "n < 24" | "24 \<le> n" "n < 32" | "32 \<le> n" "n < 64" by force
  then show "bit (tss_base_of (setup_tss_descriptor b l)) n = bit b n"
    unfolding tss_base_of_def setup_tss_descriptor_def m by cases (auto simp: bit_simps)
qed

section \<open>Properties\<close>

text \<open>
  C38: the selectors that the rest of the kernel uses fit the table: 0x08 and 0x10 are 64-bit
  ring 0 code and ring 0 data, 0x23 and 0x1B are 64-bit ring 3 code and ring 3 data with a
  matching requested level, and 0x28 is the TSS descriptor, whose base and limit read back as
  the address and size of the TSS, whose ring 0 stack is the kernel stack.
\<close>

theorem gdt_selectors_fit:
  "let g = init_gdt gdt_addr tss_addr kernel_top in
     code_segment 0 (selected g 0x08) \<and> data_segment 0 (selected g 0x10)
     \<and> code_segment 3 (selected g 0x23) \<and> rpl 0x23 = 3 \<and> data_segment 3 (selected g 0x1B) \<and> rpl 0x1B = 3
     \<and> (\<exists>d. selected g 0x28 = Tss d \<and> tss_base_of d = tss_addr \<and> tss_limit_of d + 1 = sizeof_tss_entry
          \<and> bit (access_flag d) 7)
     \<and> rsp0 (system_tss g) = kernel_top \<and> length (gdt g) * 8 = unat (gdtp_limit (gdtp g)) + 1"
proof -
  define d where "d = setup_tss_descriptor tss_addr (of_nat (sizeof_tss_entry - 1))"
  have "tss_limit_of d = 103"
    by (simp add: d_def tss_limit_of_def setup_tss_descriptor_def sizeof_tss_entry_def)
  moreover have "tss_base_of d = tss_addr" by (simp add: d_def tss_base_split)
  moreover have "access_flag d = 0x89" by (simp add: d_def setup_tss_descriptor_def)
  moreover have "selected (init_gdt gdt_addr tss_addr kernel_top) 0x28 = Tss d"
    by (simp add: selected_def init_gdt_def d_def)
  ultimately show ?thesis
    by (simp add: Let_def sizeof_tss_entry_def)
      (simp add: selected_def init_gdt_def code_segment_def data_segment_def set_gdt_entry_def rpl_def)
qed

end
