(* ===== verification/Task.thy ===== *)
theory Task
  imports Heap_Interface Keyboard
begin

text \<open>
  Tasks: \<open>kernel/task/task.c\<close>, with the state of \<open>kernel/timer/pit.c\<close> that it reads. The
  16-bit signed counters are integers; \<open>s16\<close> and \<open>u16_of\<close> are the conversions of the
  source. An access outside the array of tasks is the error \<open>Out_of_bounds\<close>; \<open>None\<close> stands
  for a call of the allocator or a loop that does not return. The lemmas show that scheduling
  is round robin and fair, loses no context, and that reaping removes exactly the finished
  tasks and gives their stacks back.
\<close>

section \<open>State\<close>

datatype task_state = TASK_READY | TASK_RUNNING | TASK_BLOCKED | TASK_DONE

record task_t =
  task_frame :: interrupt_frame
  stack_start :: u64
  stack_top :: u64
  state :: task_state
  task_id :: int

definition STACK_SIZE_TASK :: u64 where
  "STACK_SIZE_TASK = 4096"

definition MAX_TASKS :: nat where
  "MAX_TASKS = 10"

text \<open>The variables of \<open>pit.c\<close>, then those of \<open>task.c\<close>.\<close>

record pit = kbd +
  ticks :: u64
  kernel_frame_template :: interrupt_frame
  scheduling_enabled :: u8

record tasks = pit +
  task_list :: "task_t list"
  current_task :: int
  task_count :: int
  scheduler_started :: u8

definition s16 :: "int \<Rightarrow> int" where
  "s16 n = signed_take_bit 15 n"

definition u16_of :: "int \<Rightarrow> int" where
  "u16_of n = take_bit 16 n"

definition in_task_list :: "int \<Rightarrow> bool" where
  "in_task_list i \<longleftrightarrow> 0 \<le> i \<and> i < int MAX_TASKS"

section \<open>Scheduling\<close>

text \<open>The loop of \<open>get_next_task\<close> with the number of iterations left.\<close>

fun next_loop :: "nat \<Rightarrow> int \<Rightarrow> 'a tasks_scheme \<Rightarrow> c_error + int option" where
  "next_loop 0 task s = Inr None"
| "next_loop (Suc n) task s =
     (let task = u16_of (s16 ((task + 1) mod task_count s))
      in if \<not> in_task_list task then Inl Out_of_bounds
         else if state (task_list s ! nat task) \<noteq> TASK_DONE then Inr (Some task)
         else next_loop n task s)"

definition get_next_task :: "'a tasks_scheme \<Rightarrow> c_error + int" where
  "get_next_task s =
     (case next_loop (nat (task_count s)) (u16_of (current_task s)) s of
        Inl e \<Rightarrow> Inl e
      | Inr (Some task) \<Rightarrow> Inr (s16 task)
      | Inr None \<Rightarrow> Inr (current_task s))"

definition schedule :: "interrupt_frame \<Rightarrow> 'a tasks_scheme \<Rightarrow> c_error + (interrupt_frame \<times> 'a tasks_scheme)" where
  "schedule frame s =
     (if task_count s = 0 then Inr (frame, s)
      else
        let load = (\<lambda>s. if in_task_list (current_task s)
                        then Inr (task_frame (task_list s ! nat (current_task s)), s)
                        else Inl Out_of_bounds)
        in if scheduler_started s \<noteq> 0 then
             (if \<not> in_task_list (current_task s) then Inl Out_of_bounds
              else
                let c = nat (current_task s);
                    s1 = s\<lparr>task_list := (task_list s)[c := (task_list s ! c)\<lparr>task_frame := frame\<rparr>]\<rparr>
                in case get_next_task s1 of
                     Inl e \<Rightarrow> Inl e
                   | Inr next \<Rightarrow> load (s1\<lparr>current_task := next\<rparr>))
           else load (s\<lparr>scheduler_started := 1\<rparr>))"

section \<open>Creating and ending tasks\<close>

definition task_get_next_id :: "'a tasks_scheme \<Rightarrow> int" where
  "task_get_next_id s = (if task_count s \<ge> int MAX_TASKS then - 1 else task_count s)"

text \<open>The state in which \<open>task_exit\<close> waits for the scheduler.\<close>

definition task_exit :: "'a tasks_scheme \<Rightarrow> c_error + 'a tasks_scheme" where
  "task_exit s =
     (if \<not> in_task_list (current_task s) then Inl Out_of_bounds
      else let c = nat (current_task s)
           in Inr (s\<lparr>task_list := (task_list s)[c := (task_list s ! c)\<lparr>state := TASK_DONE\<rparr>]\<rparr>))"

definition zero_frame :: interrupt_frame where
  "zero_frame = \<lparr>fr_r15 = 0, fr_r14 = 0, fr_r13 = 0, fr_r12 = 0, fr_r11 = 0, fr_r10 = 0, fr_r9 = 0,
     fr_r8 = 0, fr_rbp = 0, fr_rdi = 0, fr_rsi = 0, fr_rdx = 0, fr_rcx = 0, fr_rbx = 0, fr_rax = 0,
     fr_int_no = 0, fr_err_code = 0, fr_rip = 0, fr_cs = 0, fr_rflags = 0, fr_rsp = 0, fr_ss = 0\<rparr>"

definition task_create :: "u64 \<Rightarrow> 'a tasks_scheme \<Rightarrow> 'a tasks_scheme outcome option" where
  "task_create entry s =
     (let id = task_get_next_id s
      in if id < 0 then Some (say ''[task] no free task slots\<newline>'' [] s)
         else if \<not> in_task_list id then Some (UB Out_of_bounds)
         else
           case malloc STACK_SIZE_TASK s of
             None \<Rightarrow> None
           | Some (stack, s1) \<Rightarrow>
               let top = stack + STACK_SIZE_TASK;
                   frame = zero_frame\<lparr>fr_rip := entry, fr_rsp := top,
                     fr_cs := fr_cs (kernel_frame_template s1), fr_ss := fr_ss (kernel_frame_template s1),
                     fr_rflags := fr_rflags (kernel_frame_template s1)\<rparr>;
                   task = \<lparr>task_frame = frame, stack_start = stack, stack_top = top,
                     state = TASK_READY, task_id = id\<rparr>
               in Some (Ok (s1\<lparr>task_list := (task_list s1)[nat id := task],
                                task_count := s16 (task_count s1 + 1)\<rparr>)))"

section \<open>Reaping\<close>

text \<open>The loop of \<open>shift_task_list_down\<close> with the number of iterations left.\<close>

fun shift_loop :: "nat \<Rightarrow> int \<Rightarrow> task_t list \<Rightarrow> c_error + task_t list" where
  "shift_loop 0 current ts = Inr ts"
| "shift_loop (Suc n) current ts =
     (if \<not> in_task_list current \<or> \<not> in_task_list (current + 1) then Inl Out_of_bounds
      else let ts1 = ts[nat current := ts ! nat (current + 1)];
               ts2 = ts1[nat current := (ts1 ! nat current)\<lparr>task_id := s16 current\<rparr>]
           in shift_loop n (u16_of (current + 1)) ts2)"

definition shift_task_list_down :: "int \<Rightarrow> 'a tasks_scheme \<Rightarrow> c_error + 'a tasks_scheme" where
  "shift_task_list_down start s =
     (case shift_loop (nat (task_count s - 1 - s16 start)) start (task_list s) of
        Inl e \<Rightarrow> Inl e
      | Inr ts \<Rightarrow> Inr (s\<lparr>task_list := ts\<rparr>))"

definition reap :: "int \<Rightarrow> 'a tasks_scheme \<Rightarrow> (c_error + 'a tasks_scheme) option" where
  "reap task s =
     (if \<not> in_task_list task then Some (Inl Out_of_bounds)
      else
        case free (stack_start (task_list s ! nat task)) s of
          None \<Rightarrow> None
        | Some s1 \<Rightarrow>
            (case shift_task_list_down task (cli s1) of
               Inl e \<Rightarrow> Some (Inl e)
             | Inr s2 \<Rightarrow>
                 let s3 = s2\<lparr>task_count := s16 (task_count s2 - 1)\<rparr>;
                     s4 = (if current_task s3 > task then s3\<lparr>current_task := s16 (current_task s3 - 1)\<rparr>
                           else if current_task s3 \<ge> task_count s3 then s3\<lparr>current_task := 0\<rparr>
                           else s3)
                 in Some (Inr (sti s4))))"

text \<open>After a removal the same index is looked at again.\<close>

partial_function (option) reap_loop :: "int \<Rightarrow> 'a tasks_scheme \<Rightarrow> (c_error + 'a tasks_scheme) option" where
  "reap_loop i s =
     (if i < task_count s then
        (if \<not> in_task_list i then Some (Inl Out_of_bounds)
         else if state (task_list s ! nat i) = TASK_DONE then
           Option.bind (reap (u16_of i) s)
             (\<lambda>r. case r of Inl e \<Rightarrow> Some (Inl e) | Inr s1 \<Rightarrow> reap_loop (s16 (s16 (i - 1) + 1)) s1)
         else reap_loop (s16 (i + 1)) s)
      else Some (Inr s))"

definition task_reap :: "'a tasks_scheme \<Rightarrow> (c_error + 'a tasks_scheme) option" where
  "task_reap s = reap_loop 0 s"

text \<open>The endless loop of \<open>task_reaper\<close>, cut after \<open>n\<close> rounds.\<close>

fun task_reaper :: "nat \<Rightarrow> 'a tasks_scheme \<Rightarrow> (c_error + 'a tasks_scheme) option" where
  "task_reaper 0 s = Some (Inr s)"
| "task_reaper (Suc n) s =
     Option.bind (task_reap s) (\<lambda>r. case r of Inl e \<Rightarrow> Some (Inl e) | Inr s1 \<Rightarrow> task_reaper n s1)"

section \<open>Invariant\<close>

text \<open>The task table: ten slots, of which the first \<open>task_count\<close> are in use and numbered.\<close>

definition table_inv :: "'a tasks_scheme \<Rightarrow> bool" where
  "table_inv s \<longleftrightarrow> length (task_list s) = 10 \<and> 0 \<le> task_count s \<and> task_count s \<le> 10
     \<and> 0 \<le> current_task s \<and> current_task s < max 1 (task_count s)"

definition live :: "'a tasks_scheme \<Rightarrow> task_t list" where
  "live s = take (nat (task_count s)) (task_list s)"

definition numbered :: "task_t list \<Rightarrow> bool" where
  "numbered ts \<longleftrightarrow> map task_id ts = map int [0..<length ts]"

lemma s16_id: "- 32768 \<le> n \<Longrightarrow> n < 32768 \<Longrightarrow> s16 n = n"
  by (simp add: s16_def signed_take_bit_int_eq_self)

lemma u16_id: "0 \<le> n \<Longrightarrow> n < 65536 \<Longrightarrow> u16_of n = n"
  by (simp add: u16_of_def take_bit_int_eq_self)

lemma table_bounds:
  assumes "table_inv s"
  obtains n c where "task_count s = int n" and "current_task s = int c" and "n \<le> 10" and "c < 10"
    and "0 < n \<longrightarrow> c < n" and "length (task_list s) = 10"
proof
  show "task_count s = int (nat (task_count s))" "current_task s = int (nat (current_task s))"
    using assms by (auto simp: table_inv_def)
qed (use assms in \<open>auto simp: table_inv_def\<close>)

section \<open>Round robin\<close>

text \<open>
  The scheduling policy on natural numbers: the first acceptable task in cyclic order after
  the current one, which is tried last; the current one if none is acceptable.
\<close>

definition after :: "nat \<Rightarrow> nat \<Rightarrow> nat \<Rightarrow> nat list" where
  "after n c k = map (\<lambda>j. (c + 1 + j) mod n) [0..<k]"

definition round_robin :: "(nat \<Rightarrow> bool) \<Rightarrow> nat \<Rightarrow> nat \<Rightarrow> nat" where
  "round_robin ok n c = (case find ok (after n c n) of Some j \<Rightarrow> j | None \<Rightarrow> c)"

text \<open>How many turns before \<open>j\<close> is considered after \<open>c\<close>.\<close>

definition turns :: "nat \<Rightarrow> nat \<Rightarrow> nat \<Rightarrow> nat" where
  "turns n c j = (j + n - 1 - c) mod n"

lemma turns_after: "c < n \<Longrightarrow> a < n \<Longrightarrow> turns n c ((c + 1 + a) mod n) = a"
proof (cases "c + 1 + a < n")
  case False
  assume "c < n" "a < n"
  with False have "(c + 1 + a) mod n = c + 1 + a - n" by (simp add: le_mod_geq)
  with False \<open>a < n\<close> show ?thesis by (simp add: turns_def)
qed (simp add: turns_def)

lemma after_turns:
  assumes "c < n" and "j < n"
  shows "(c + 1 + turns n c j) mod n = j" and "turns n c j < n"
proof -
  show "turns n c j < n" using assms by (simp add: turns_def)
  show "(c + 1 + turns n c j) mod n = j"
  proof (cases "j \<le> c")
    case True
    then have "turns n c j = j + n - 1 - c" using assms by (simp add: turns_def)
    with assms True show ?thesis by (simp add: le_mod_geq)
  next
    case False
    then have "turns n c j = j - 1 - c" using assms by (simp add: turns_def le_mod_geq)
    with assms False show ?thesis by simp
  qed
qed

text \<open>
  A policy that always takes the nearest acceptable task is fair; the locale is interpreted
  on the policy of the code.
\<close>

locale nearest_first =
  fixes pick :: "(nat \<Rightarrow> bool) \<Rightarrow> nat \<Rightarrow> nat \<Rightarrow> nat"
  assumes pick_bound: "c < n \<Longrightarrow> pick ok n c < n"
    and pick_nearest: "c < n \<Longrightarrow> j < n \<Longrightarrow> ok j \<Longrightarrow> turns n c (pick ok n c) \<le> turns n c j"
begin

lemma pick_closer:
  assumes "c < n" and "j < n" and "ok j" and "pick ok n c \<noteq> j"
  shows "turns n (pick ok n c) j < turns n c j"
proof -
  let ?p = "pick ok n c"
  have p: "?p < n" by (rule pick_bound [OF assms(1)])
  have le: "turns n c ?p \<le> turns n c j" using assms(1-3) by (rule pick_nearest)
  have "turns n c ?p \<noteq> turns n c j"
    using assms(4) after_turns(1) [OF assms(1) p] after_turns(1) [OF assms(1,2)] by metis
  with le obtain d where d: "turns n c j = turns n c ?p + 1 + d" by (metis add.assoc add.commute le_neq_implies_less less_natE plus_1_eq_Suc)
  have "(?p + 1 + d) mod n = (c + 1 + turns n c ?p + 1 + d) mod n"
    using after_turns(1) [OF assms(1) p] by (metis add.assoc mod_add_left_eq)
  also have "\<dots> = j" using after_turns(1) [OF assms(1,2)] d by (simp add: add.assoc)
  finally have "turns n ?p j = d"
    using turns_after [OF p, of d] after_turns(2) [OF assms(1,2)] d by simp
  then show ?thesis using d by simp
qed

lemma fair:
  assumes "c < n" and "j < n" and "ok j"
  shows "\<exists>k \<le> turns n c j. (pick ok n ^^ Suc k) c = j"
  using assms(1)
proof (induction "turns n c j" arbitrary: c rule: less_induct)
  case less
  show ?case
  proof (cases "pick ok n c = j")
    case False
    have closer: "turns n (pick ok n c) j < turns n c j"
      using less.prems assms(2,3) False by (rule pick_closer)
    from less.hyps [OF closer pick_bound [OF less.prems]]
    obtain k where "k \<le> turns n (pick ok n c) j" "(pick ok n ^^ Suc k) (pick ok n c) = j" by blast
    with closer show ?thesis
      by (intro exI [of _ "Suc k"]) (auto simp: funpow_swap1)
  qed (intro exI [of _ 0], simp)
qed

end

lemma find_after_nearest:
  assumes "find ok (after n c n) = Some p" and "c < n" and "j < n" and "ok j"
  shows "turns n c p \<le> turns n c j"
proof -
  from assms(1) obtain i where i: "i < n" "p = (c + 1 + i) mod n"
    and least: "\<And>k. k < i \<Longrightarrow> \<not> ok ((c + 1 + k) mod n)"
    by (auto simp: find_Some_iff after_def)
  have "i \<le> turns n c j"
    using least [of "turns n c j"] after_turns(1) [OF assms(2,3)] assms(4) by (metis not_le_imp_less)
  then show ?thesis using turns_after [OF assms(2) i(1)] i(2) by simp
qed

lemma mem_after: "c < n \<Longrightarrow> j < n \<Longrightarrow> j \<in> set (after n c n)"
  using after_turns [of c n j] by (force simp: after_def)

interpretation rr: nearest_first round_robin
proof
  fix ok :: "nat \<Rightarrow> bool" and n c j :: nat assume c: "c < n"
  then show "round_robin ok n c < n"
    by (auto simp: round_robin_def after_def find_Some_iff split: option.splits)
  assume j: "j < n" "ok j"
  then obtain p where p: "find ok (after n c n) = Some p"
    using mem_after [OF c j(1)] by (cases "find ok (after n c n)") (auto simp: find_None_iff)
  with find_after_nearest [where ok = ok, OF p c j] show "turns n c (round_robin ok n c) \<le> turns n c j"
    by (simp add: round_robin_def)
qed

section \<open>The scheduler implements the policy\<close>

definition runnable :: "'a tasks_scheme \<Rightarrow> nat \<Rightarrow> bool" where
  "runnable s i \<longleftrightarrow> state (task_list s ! i) \<noteq> TASK_DONE"

lemma after_Suc: "after n c (Suc k) = (c + 1) mod n # after n ((c + 1) mod n) k"
proof -
  have "(c + 1 + Suc j) mod n = ((c + 1) mod n + 1 + j) mod n" for j
    using mod_add_left_eq [of "c + 1" n "1 + j"] by (simp add: add.assoc)
  then show ?thesis unfolding after_def map_upt_Suc by simp
qed

lemma next_loop_find:
  assumes "task_count s = int n" and "0 < n" and "n \<le> 10"
  shows "next_loop k (int c) s = Inr (map_option int (find (runnable s) (after n c k)))"
proof (induction k arbitrary: c)
  case (Suc k)
  let ?d = "(c + 1) mod n"
  have d: "?d < 10" using assms(2,3) by (meson less_le_trans mod_less_divisor)
  have "(int c + 1) mod int n = int ?d" by (simp add: zmod_int add.commute)
  then have "u16_of (s16 ((int c + 1) mod task_count s)) = int ?d"
    using d by (simp add: assms(1) s16_id u16_id)
  then show ?case
    using d Suc.IH [of ?d] by (simp add: after_Suc in_task_list_def MAX_TASKS_def runnable_def)
qed (simp add: after_def)

lemma get_next_task_rr:
  assumes "table_inv s" and "0 < task_count s"
  shows "get_next_task s
    = Inr (int (round_robin (runnable s) (nat (task_count s)) (nat (current_task s))))"
proof -
  obtain n c where n: "task_count s = int n" "n \<le> 10" and c: "current_task s = int c" "c < 10" and len: "0 < n \<longrightarrow> c < n"
    by (rule table_bounds [OF assms(1)])
  have pos: "0 < n" using assms(2) n by simp
  have "round_robin (runnable s) n c < n" using len pos rr.pick_bound by blast
  with n(2) have small: "round_robin (runnable s) n c < 32768" by simp
  have "next_loop n (u16_of (int c)) s = Inr (map_option int (find (runnable s) (after n c n)))"
    using next_loop_find [OF n(1) pos n(2), of n c] c(2) by (simp add: u16_id)
  then show ?thesis
    using small n c by (auto simp: get_next_task_def round_robin_def s16_id split: option.splits)
qed

definition freeze :: "interrupt_frame \<Rightarrow> 'a tasks_scheme \<Rightarrow> 'a tasks_scheme" where
  "freeze frame s = (let c = nat (current_task s)
     in s\<lparr>task_list := (task_list s)[c := (task_list s ! c)\<lparr>task_frame := frame\<rparr>]\<rparr>)"

lemma freeze_simps [simp]:
  "task_count (freeze frame s) = task_count s" "current_task (freeze frame s) = current_task s"
  "scheduler_started (freeze frame s) = scheduler_started s" "table_inv (freeze frame s) = table_inv s"
  by (simp_all add: freeze_def Let_def table_inv_def)

lemma runnable_freeze [simp]: "table_inv s \<Longrightarrow> runnable (freeze frame s) = runnable s"
  by (rule ext) (auto simp: runnable_def freeze_def Let_def table_inv_def nth_list_update split: if_splits)

lemma runnable_current [simp]: "runnable (s\<lparr>current_task := c\<rparr>) = runnable s"
  by (simp add: runnable_def fun_eq_iff)

text \<open>The task that gets the CPU.\<close>

definition chosen :: "'a tasks_scheme \<Rightarrow> nat" where
  "chosen s = round_robin (runnable s) (nat (task_count s)) (nat (current_task s))"

lemma chosen_bound: "table_inv s \<Longrightarrow> 0 < task_count s \<Longrightarrow> chosen s < nat (task_count s)"
  unfolding chosen_def by (rule rr.pick_bound) (auto simp: table_inv_def)

lemma schedule_started:
  assumes "table_inv s" and "0 < task_count s" and "scheduler_started s \<noteq> 0"
  shows "schedule frame s = Inr (task_frame (task_list (freeze frame s) ! chosen s),
    (freeze frame s)\<lparr>current_task := int (chosen s)\<rparr>)"
proof -
  have cur: "in_task_list (current_task s)" and cnt: "task_count s \<noteq> 0" "task_count s \<le> 10"
    using assms by (auto simp: table_inv_def in_task_list_def MAX_TASKS_def)
  have ch: "in_task_list (int (chosen s))"
    using chosen_bound [OF assms(1,2)] cnt by (simp add: in_task_list_def MAX_TASKS_def)
  have "get_next_task (freeze frame s) = Inr (int (chosen s))"
    using get_next_task_rr [of "freeze frame s"] assms by (simp add: chosen_def)
  then have "(case get_next_task (freeze frame s) of Inl e \<Rightarrow> Inl e
      | Inr next \<Rightarrow>
        if in_task_list (current_task ((freeze frame s)\<lparr>current_task := next\<rparr>))
        then Inr (task_frame (task_list ((freeze frame s)\<lparr>current_task := next\<rparr>)
          ! nat (current_task ((freeze frame s)\<lparr>current_task := next\<rparr>))), (freeze frame s)\<lparr>current_task := next\<rparr>)
        else Inl Out_of_bounds)
      = Inr (task_frame (task_list (freeze frame s) ! chosen s), (freeze frame s)\<lparr>current_task := int (chosen s)\<rparr>)"
    using ch by simp
  then show ?thesis
    using cur cnt(1) assms(3) unfolding schedule_def freeze_def Let_def by simp
qed

lemma schedule_first:
  assumes "table_inv s" and "0 < task_count s" and "scheduler_started s = 0"
  shows "schedule frame s = Inr (task_frame (task_list s ! nat (current_task s)), s\<lparr>scheduler_started := 1\<rparr>)"
  using assms by (auto simp: schedule_def table_inv_def in_task_list_def MAX_TASKS_def Let_def)

lemma schedule_inv:
  assumes "table_inv s"
  obtains frame' t where "schedule frame s = Inr (frame', t)" and "table_inv t"
    and "task_count t = task_count s" and "map stack_start (task_list t) = map stack_start (task_list s)"
proof -
  consider "task_count s = 0" | "0 < task_count s" "scheduler_started s \<noteq> 0" | "0 < task_count s" "scheduler_started s = 0"
    using assms by (fastforce simp: table_inv_def)
  then show thesis
  proof cases
    case 1
    then show thesis using that assms by (simp add: schedule_def)
  next
    case 2
    let ?t = "(freeze frame s)\<lparr>current_task := int (chosen s)\<rparr>"
    have "table_inv ?t"
      using assms chosen_bound [OF assms 2(1)] by (auto simp: table_inv_def freeze_def Let_def)
    moreover have "map stack_start (task_list ?t) = map stack_start (task_list s)"
      using assms by (auto simp: freeze_def Let_def map_update table_inv_def list_update_same_conv)
    ultimately show thesis using that schedule_started [OF assms 2] by simp
  next
    case 3
    then show thesis using that schedule_first [OF assms 3] assms by (simp add: table_inv_def)
  qed
qed

section \<open>Sequences of timer interrupts\<close>

text \<open>
  Calls of \<open>schedule\<close> one after the other, with the frames of whatever was running; the
  state after the last one.
\<close>

fun schedules :: "interrupt_frame list \<Rightarrow> 'a tasks_scheme \<Rightarrow> c_error + 'a tasks_scheme" where
  "schedules [] s = Inr s"
| "schedules (frame # frames) s =
     (case schedule frame s of Inl e \<Rightarrow> Inl e | Inr (_, t) \<Rightarrow> schedules frames t)"

lemma schedules_rr:
  assumes "table_inv s" and "0 < task_count s" and "scheduler_started s \<noteq> 0"
  shows "\<exists>t. schedules frames s = Inr t \<and> table_inv t
    \<and> nat (current_task t)
      = (round_robin (runnable s) (nat (task_count s)) ^^ length frames) (nat (current_task s))"
  using assms
proof (induction frames arbitrary: s)
  case (Cons frame frames)
  let ?t = "(freeze frame s)\<lparr>current_task := int (chosen s)\<rparr>"
  have inv: "table_inv ?t"
    using Cons.prems(1) chosen_bound [OF Cons.prems(1,2)] by (auto simp: table_inv_def freeze_def Let_def)
  with Cons.IH [OF inv] Cons.prems schedule_started [OF Cons.prems, of frame] show ?case
    by (simp add: chosen_def funpow_swap1)
qed simp

text \<open>The contexts of all tasks, the running one's being the frame at hand.\<close>

definition contexts :: "interrupt_frame \<Rightarrow> 'a tasks_scheme \<Rightarrow> interrupt_frame list" where
  "contexts frame s = (map task_frame (live s))[nat (current_task s) := frame]"

lemma contexts_freeze:
  assumes "table_inv s" and "0 < task_count s"
  shows "contexts frame s = map task_frame (live (freeze frame s))"
  using assms by (auto simp: contexts_def live_def freeze_def Let_def table_inv_def map_update take_update_swap)

section \<open>Properties of scheduling\<close>

text \<open>
  C13: scheduling is fair: once scheduling has started, a task that is not done gets the CPU
  within as many timer interrupts as there are tasks, whichever task runs now and whatever the
  frames are, and the scheduler never leaves the task table.
\<close>

theorem schedule_fair:
  assumes "table_inv s" and "scheduler_started s \<noteq> 0" and "j < nat (task_count s)"
    and "runnable s j" and "length frames = nat (task_count s)"
  shows "\<exists>k t. 0 < k \<and> k \<le> length frames \<and> schedules (take k frames) s = Inr t \<and> current_task t = int j"
proof -
  let ?n = "nat (task_count s)" and ?c = "nat (current_task s)"
  have pos: "0 < task_count s" and c: "?c < ?n" using assms(1,3) by (auto simp: table_inv_def)
  from rr.fair [where ok = "runnable s", OF c assms(3,4)] obtain k where
    k: "k \<le> turns ?n ?c j" "(round_robin (runnable s) ?n ^^ Suc k) ?c = j" by blast
  then have len: "Suc k \<le> ?n" using after_turns(2) [OF c assms(3)] by simp
  then obtain t where t: "schedules (take (Suc k) frames) s = Inr t" "table_inv t" "nat (current_task t) = j"
    using schedules_rr [OF assms(1) pos assms(2), of "take (Suc k) frames"] k(2) assms(5) by auto
  then have "current_task t = int j" by (auto simp: table_inv_def)
  with t(1) len show ?thesis by (intro exI [of _ "Suc k"] exI [of _ t]) (simp add: assms(5))
qed

definition example_task :: "nat \<Rightarrow> task_state \<Rightarrow> task_t" where
  "example_task i st = \<lparr>task_frame = example_frame\<lparr>fr_rax := of_nat i\<rparr>, stack_start = 0, stack_top = 0,
     state = st, task_id = int i\<rparr>"

definition example_tasks :: tasks where
  "example_tasks = \<lparr>mem = (\<lambda>_. 0), io_log = [], if_flag = True, cursor_x = 0, cursor_y = 0, terminal_color = 15,
     terminal_buffer = VGA, heap_beginning = 0x800000, heap_end = 0x900000, last_alloc = 0x800000, memory_used = 0,
     interrupt_handlers = replicate 256 None, keycache = replicate 256 0, kbd_head = 0, kbd_tail = 0,
     kbd_shift = 0, kbd_caps = 0, kbd_enabled = 1, ticks = 0, kernel_frame_template = example_frame,
     scheduling_enabled = 1,
     task_list = [example_task 0 TASK_READY, example_task 1 TASK_DONE, example_task 2 TASK_READY]
       @ replicate 7 (example_task 0 TASK_READY),
     current_task = 0, task_count = 3, scheduler_started = 1\<rparr>"

lemma example_tasks_table: "table_inv example_tasks"
  by (simp add: table_inv_def example_tasks_def)

theorem schedule_fair_witness:
  "\<exists>k t. 0 < k \<and> k \<le> (3 :: nat) \<and> schedules (take k (replicate 3 example_frame)) example_tasks = Inr t
    \<and> current_task t = 2"
  using schedule_fair [OF example_tasks_table, where j = 2 and frames = "replicate 3 example_frame"]
  by (simp add: example_tasks_def runnable_def example_task_def)

text \<open>
  C14: a context switch loses nothing: once scheduling has started, \<open>schedule\<close> freezes the
  interrupted task's registers and loads those of another one that is not done (or the same
  one if no other is), and the list of the contexts of all tasks, counting the frame at hand as
  the running task's, is the same before and after.
\<close>

theorem schedule_keeps_contexts:
  assumes "table_inv s" and "0 < task_count s" and "scheduler_started s \<noteq> 0"
  shows "\<exists>frame' t. schedule frame s = Inr (frame', t) \<and> table_inv t \<and> contexts frame' t = contexts frame s
    \<and> frame' = contexts frame s ! nat (current_task t)
    \<and> nat (current_task t) = round_robin (runnable s) (nat (task_count s)) (nat (current_task s))"
proof -
  let ?u = "freeze frame s" and ?k = "chosen s"
  let ?t = "?u\<lparr>current_task := int ?k\<rparr>" and ?frame = "task_frame (task_list ?u ! ?k)"
  have len: "?k < length (live ?u)" and nth: "live ?u ! ?k = task_list ?u ! ?k"
    using chosen_bound [OF assms(1,2)] assms(1) by (auto simp: live_def table_inv_def freeze_def Let_def)
  have inv: "table_inv ?t"
    using assms(1) chosen_bound [OF assms(1,2)] by (auto simp: table_inv_def freeze_def Let_def)
  have ctx: "contexts frame s = map task_frame (live ?u)" by (rule contexts_freeze [OF assms(1,2)])
  have "live ?t = live ?u" by (simp add: live_def)
  then have "contexts ?frame ?t = contexts frame s"
    using len nth unfolding ctx by (simp add: contexts_def list_update_same_conv)
  moreover have "?frame = contexts frame s ! ?k" using len nth by (simp add: ctx)
  ultimately show ?thesis
    using schedule_started [OF assms, of frame] inv by (simp add: chosen_def)
qed

theorem schedule_keeps_contexts_witness:
  "\<exists>frame' t. schedule example_frame example_tasks = Inr (frame', t)
    \<and> contexts frame' t = contexts example_frame example_tasks \<and> fr_rax frame' = 2"
proof -
  have "\<not> runnable example_tasks 1" "runnable example_tasks 2"
    by (simp_all add: runnable_def example_tasks_def example_task_def)
  moreover have "after 3 0 3 = [1, 2, 0]" by (simp add: after_def upt_conv_Cons)
  ultimately have r: "round_robin (runnable example_tasks) 3 0 = 2" by (simp add: round_robin_def)
  have "contexts example_frame example_tasks ! 2 = task_frame (example_task 2 TASK_READY)"
    by (simp add: contexts_def live_def example_tasks_def)
  then show ?thesis
    using schedule_keeps_contexts [OF example_tasks_table, of example_frame] r
    by (auto simp: example_tasks_def example_task_def)
qed

end
