(* ===== verification/Task_Reap.thy ===== *)
theory Task_Reap
  imports Task
begin

text \<open>
  The life of tasks: creation takes a stack from the heap, reaping removes the finished tasks
  and gives their stacks back. The invariant \<open>task_inv\<close> ties the task table to the
  allocator's interface \<open>owns\<close>.
\<close>

section \<open>Invariant\<close>

definition stacks :: "task_t list \<Rightarrow> u64 list" where
  "stacks ts = map stack_start ts"

lemma owns_regions_apart:
  assumes p: "owns s p k" and q: "owns s q j" and "q \<noteq> p"
  shows "region p k \<inter> region q j = {}"
  using owns_apart [OF p q] owns_bounds(2) [OF p] owns_bounds(2) [OF q] assms(3)
  by (auto simp: region_interval HEAP_LIMIT_def)

text \<open>Every task has a stack of its own, or none if the allocator had no memory left.\<close>

definition stacks_owned :: "'a heap_scheme \<Rightarrow> task_t list \<Rightarrow> bool" where
  "stacks_owned s ts \<longleftrightarrow> distinct (filter (\<lambda>p. p \<noteq> 0) (stacks ts))
     \<and> (\<forall>p \<in> set (stacks ts). p \<noteq> 0 \<longrightarrow> (\<exists>k\<ge>4096. owns s p k))"

definition task_inv :: "'a tasks_scheme \<Rightarrow> bool" where
  "task_inv s \<longleftrightarrow> table_inv s \<and> heap_inv s \<and> numbered (live s) \<and> stacks_owned s (live s)"

lemma stacks_owned_keeps:
  assumes "stacks_owned s ts" and "\<And>q k. q \<in> set (stacks ts) \<Longrightarrow> owns s q k \<Longrightarrow> owns t q k"
  shows "stacks_owned t ts"
  using assms unfolding stacks_owned_def by blast

lemma length_live: "table_inv s \<Longrightarrow> length (live s) = nat (task_count s)"
  by (auto simp: live_def table_inv_def)

section \<open>Creation\<close>

lemma allocated_fields:
  assumes "allocated s n p (t :: 'a tasks_scheme)"
  shows "task_list t = task_list s" and "task_count t = task_count s" and "current_task t = current_task s"
    and "kernel_frame_template t = kernel_frame_template s"
proof -
  have eq: "t = s\<lparr>mem := mem t, last_alloc := last_alloc t, memory_used := memory_used t\<rparr>"
    using assms by (simp add: allocated_def)
  show "task_list t = task_list s" "task_count t = task_count s" "current_task t = current_task s"
    "kernel_frame_template t = kernel_frame_template s"
    by (subst eq, simp)+
qed

definition new_task :: "u64 \<Rightarrow> u64 \<Rightarrow> nat \<Rightarrow> 'a pit_scheme \<Rightarrow> task_t" where
  "new_task entry stack i s =
     (let top = stack + 4096; k = kernel_frame_template s
      in \<lparr>task_frame = zero_frame\<lparr>fr_rip := entry, fr_rsp := top, fr_cs := fr_cs k, fr_ss := fr_ss k,
             fr_rflags := fr_rflags k\<rparr>,
          stack_start = stack, stack_top = top, state = TASK_READY, task_id = int i\<rparr>)"

lemma create_effect:
  assumes "task_inv s" and "task_count s < 10"
  obtains p u t where "malloc STACK_SIZE_TASK s = Some (p, u)" and "task_create entry s = Some (Ok t)"
    and "live t = live s @ [new_task entry p (nat (task_count s)) s]"
    and "task_count t = task_count s + 1" and "current_task t = current_task s" and "table_inv t" and "heap_inv t"
    and "p \<noteq> 0 \<longrightarrow> (\<exists>k\<ge>4096. owns t p k)"
    and "\<forall>q j. owns s q j \<longrightarrow> q \<noteq> p \<and> keeps s t q j"
proof -
  have table: "table_inv s" and heap: "heap_inv s" using assms(1) by (auto simp: task_inv_def)
  let ?n = "nat (task_count s)"
  have n: "?n < 10" "0 \<le> task_count s" "task_count s < 10" "length (task_list s) = 10"
    using table assms(2) by (auto simp: table_inv_def)
  obtain p u where m: "malloc 4096 s = Some (p, u)" by (metis heap.alloc_returns [OF heap])
  note inv = malloc_cases [OF heap m]
  have fields: "task_list u = task_list s" "task_count u = task_count s" "current_task u = current_task s"
    "kernel_frame_template u = kernel_frame_template s"
    using inv(2) allocated_fields [OF inv(3)] by (cases "p = 0"; simp)+
  let ?x = "new_task entry p ?n s"
  define t where "t = u\<lparr>task_list := (task_list u)[?n := ?x], task_count := task_count s + 1\<rparr>"
  have "task_create entry s = Some (Ok t)"
    using n m fields
    by (simp add: task_create_def task_get_next_id_def MAX_TASKS_def in_task_list_def STACK_SIZE_TASK_def
        t_def new_task_def Let_def s16_id)
  moreover have "live t = live s @ [?x]"
    using n by (simp add: live_def t_def fields nat_add_distrib take_Suc_conv_app_nth)
  moreover have "table_inv t" using table n by (auto simp: table_inv_def t_def fields)
  moreover have "\<exists>k\<ge>4096. owns t p k" if "p \<noteq> 0"
    using heap.alloc_owns [OF heap m that] by (auto simp: t_def owns_def heap_rel_def)
  moreover have "q \<noteq> p \<and> keeps s t q j" if "owns s q j" for q j
  proof (cases "p = 0")
    case True
    then show ?thesis using that inv(2) owns_bounds(5) [OF that] by (auto simp: t_def keeps_def owns_def heap_rel_def)
  next
    case False
    then show ?thesis
      using heap.alloc_keeps [OF heap m False that] by (auto simp: t_def keeps_def owns_def heap_rel_def)
  qed
  moreover have "heap_inv t" using inv(1) by (simp add: t_def heap_inv_def heap_rel_def)
  ultimately show thesis using that [of p u t] m by (simp add: t_def fields STACK_SIZE_TASK_def)
qed

text \<open>
  A failing allocation goes unnoticed: the new task is ready with a stack pointer into the
  first page.
\<close>

lemma create_out_of_memory:
  assumes "table_inv s" and "task_count s < 10" and "malloc 4096 s = Some (0, s)"
  shows "\<exists>t. task_create entry s = Some (Ok t) \<and> task_count t = task_count s + 1
    \<and> state (task_list t ! nat (task_count s)) = TASK_READY
    \<and> fr_rsp (task_frame (task_list t ! nat (task_count s))) = 4096"
proof -
  have "0 \<le> task_count s" "nat (task_count s) < length (task_list s)" using assms(1,2) by (auto simp: table_inv_def)
  then show ?thesis
    using assms(2,3)
    by (simp add: task_create_def task_get_next_id_def MAX_TASKS_def in_task_list_def STACK_SIZE_TASK_def s16_id Let_def)
qed

section \<open>Removal of one task\<close>

text \<open>A task apart from its number.\<close>

definition body :: "task_t \<Rightarrow> task_t" where
  "body x = x\<lparr>task_id := 0\<rparr>"

lemma body_simps [simp]:
  "body (x\<lparr>task_id := i\<rparr>) = body x" "stack_start (body x) = stack_start x" "state (body x) = state x"
  by (simp_all add: body_def)

lemma shift_loop_eq:
  assumes "length ts = 10" and "i + m < 10"
  shows "shift_loop m (int i) ts
    = Inr (take i ts @ map (\<lambda>k. (ts ! Suc k)\<lparr>task_id := int k\<rparr>) [i..<i + m] @ drop (i + m) ts)"
  using assms
proof (induction m arbitrary: i ts)
  case (Suc m)
  let ?x = "(ts ! Suc i)\<lparr>task_id := int i\<rparr>"
  let ?ts = "ts[i := ?x]"
  have i: "i < 9" using Suc.prems(2) by simp
  have "shift_loop (Suc m) (int i) ts = shift_loop m (int (Suc i)) ?ts"
    using i Suc.prems(1)
    by (simp add: in_task_list_def MAX_TASKS_def s16_id u16_id nat_add_distrib Let_def add.commute)
  also have "\<dots> = Inr (take (Suc i) ?ts @ map (\<lambda>k. (?ts ! Suc k)\<lparr>task_id := int k\<rparr>) [Suc i..<Suc i + m]
      @ drop (Suc i + m) ?ts)"
    using Suc.prems by (intro Suc.IH) simp_all
  also have "take (Suc i) ?ts = take i ts @ [?x]"
    using i Suc.prems(1) by (simp add: take_Suc_conv_app_nth)
  also have "map (\<lambda>k. (?ts ! Suc k)\<lparr>task_id := int k\<rparr>) [Suc i..<Suc i + m]
      = map (\<lambda>k. (ts ! Suc k)\<lparr>task_id := int k\<rparr>) [Suc i..<Suc i + m]"
    by (rule map_cong) auto
  finally have "shift_loop (Suc m) (int i) ts = Inr ((take i ts @ [?x])
      @ map (\<lambda>k. (ts ! Suc k)\<lparr>task_id := int k\<rparr>) [Suc i..<Suc i + m] @ drop (Suc i + m) ?ts)" .
  moreover have "[i..<i + Suc m] = i # [Suc i..<Suc i + m]" by (simp add: upt_conv_Cons del: upt_Suc)
  ultimately show ?case by (simp del: upt_Suc shift_loop.simps)
qed simp

text \<open>The list without task \<open>i\<close>, the later ones renumbered.\<close>

definition without :: "nat \<Rightarrow> task_t list \<Rightarrow> task_t list" where
  "without i ts = take i ts @ map (\<lambda>k. (ts ! Suc k)\<lparr>task_id := int k\<rparr>) [i..<length ts - 1]"

lemma without_facts:
  assumes "i < length ts"
  shows "map body (without i ts) = take i (map body ts) @ drop (Suc i) (map body ts)"
    and "length (without i ts) = length ts - 1" and "numbered ts \<Longrightarrow> numbered (without i ts)"
proof -
  have "map (\<lambda>k. body (ts ! Suc k)) [i..<length ts - 1] = drop (Suc i) (map body ts)"
    by (rule nth_equalityI) auto
  then show "map body (without i ts) = take i (map body ts) @ drop (Suc i) (map body ts)"
    by (simp add: without_def comp_def take_map)
  show len: "length (without i ts) = length ts - 1" using assms by (simp add: without_def)
  show "numbered (without i ts)" if "numbered ts"
  proof -
    have ids: "task_id (ts ! k) = int k" if "k < length ts" for k
      using \<open>numbered ts\<close> that unfolding numbered_def by (metis nth_map nth_upt plus_nat.add_0 length_upt diff_zero)
    have "map task_id (without i ts) ! k = int k" if "k < length ts - 1" for k
      using that assms ids by (simp add: without_def nth_append)
    then show ?thesis unfolding numbered_def by (intro nth_equalityI) (simp_all add: len)
  qed
qed

lemma shift_live:
  assumes "table_inv s" and "i < nat (task_count s)"
  obtains ts where "shift_task_list_down (int i) s = Inr (s\<lparr>task_list := ts\<rparr>)"
    and "length ts = 10" and "take (nat (task_count s) - 1) ts = without i (live s)"
proof -
  let ?n = "nat (task_count s)" and ?ts = "task_list s"
  let ?m = "?n - 1 - i"
  have n: "?n \<le> 10" "length ?ts = 10" using assms(1) by (auto simp: table_inv_def)
  have im: "i + ?m = ?n - 1" "i \<le> ?n - 1" using assms(2) by simp_all
  have "nat (task_count s - 1 - s16 (int i)) = ?m" using assms(2) n by (simp add: s16_id nat_diff_distrib)
  then have "shift_task_list_down (int i) s = Inr (s\<lparr>task_list := take i ?ts
      @ map (\<lambda>k. (?ts ! Suc k)\<lparr>task_id := int k\<rparr>) [i..<?n - 1] @ drop (?n - 1) ?ts\<rparr>)"
    using shift_loop_eq [OF n(2), of i ?m] n assms(2) by (simp add: shift_task_list_down_def im)
  moreover have "take (?n - 1) (take i ?ts @ map (\<lambda>k. (?ts ! Suc k)\<lparr>task_id := int k\<rparr>) [i..<?n - 1] @ drop (?n - 1) ?ts)
      = without i (live s)"
    using n assms(2) im(2) by (simp add: without_def live_def min_absorb1 min_absorb2) auto
  ultimately show thesis using that n assms(2) by auto
qed

lemma owns_tasks [simp]:
  "owns (s\<lparr>if_flag := b\<rparr>) = owns s" "owns (s\<lparr>task_list := ts\<rparr>) = owns s"
  "owns (s\<lparr>task_count := n\<rparr>) = owns s" "owns (s\<lparr>current_task := c\<rparr>) = owns s"
  by (simp_all add: owns_def heap_rel_def fun_eq_iff)

lemma heap_inv_tasks [simp]:
  "heap_inv (s\<lparr>if_flag := b\<rparr>) = heap_inv s" "heap_inv (s\<lparr>task_list := ts\<rparr>) = heap_inv s"
  "heap_inv (s\<lparr>task_count := n\<rparr>) = heap_inv s" "heap_inv (s\<lparr>current_task := c\<rparr>) = heap_inv s"
  by (simp_all add: heap_inv_def heap_rel_def)

text \<open>What happens to the heap when the stack \<open>p\<close> is given back (or there was none).\<close>

definition stack_released :: "'a heap_scheme \<Rightarrow> u64 \<Rightarrow> 'a heap_scheme \<Rightarrow> bool" where
  "stack_released s p t \<longleftrightarrow> heap_inv t \<and> (\<forall>j. \<not> owns t p j)
     \<and> (\<forall>q j. owns s q j \<longrightarrow> q \<noteq> p \<longrightarrow> keeps s t q j) \<and> (\<forall>q j. owns t q j \<longrightarrow> owns s q j)"

lemma free_stack:
  fixes s :: "'a tasks_scheme"
  assumes "heap_inv s" and "p = 0 \<or> owns s p k"
  obtains t where "free p s = Some t" and "stack_released s p t" and "task_list t = task_list s"
    and "task_count t = task_count s" and "current_task t = current_task s"
proof (cases "p = 0")
  case True
  then show thesis
    using that [of s] assms(1) owns_bounds(5) [of s p]
    by (auto simp: free_def stack_released_def keeps_def)
next
  case False
  then obtain t where t: "free p s = Some t" "freed s p k t" using assms(2) free_owned by blast
  have eq: "t = s\<lparr>mem := mem t, memory_used := memory_used s - of_nat (16 + k)\<rparr>"
    using t(2) unfolding freed_def by blast
  have "stack_released s p t"
    using t False assms(2) free_owns_before [of s p k t] unfolding stack_released_def freed_def by blast
  then show thesis
    using that [OF t(1)] arg_cong [OF eq, of task_list] arg_cong [OF eq, of task_count]
      arg_cong [OF eq, of current_task] by simp
qed

text \<open>Where the current task ends up when task \<open>i\<close> of \<open>n\<close> goes.\<close>

definition current_after :: "nat \<Rightarrow> nat \<Rightarrow> nat \<Rightarrow> nat" where
  "current_after i n c = (if c > i then c - 1 else if c \<ge> n - 1 then 0 else c)"

lemma reap_effect:
  fixes s :: "'a tasks_scheme"
  assumes "task_inv s" and "i < nat (task_count s)"
  obtains t where "reap (int i) s = Some (Inr t)" and "table_inv t"
    and "task_count t = task_count s - 1" and "live t = without i (live s)"
    and "nat (current_task t) = current_after i (nat (task_count s)) (nat (current_task s))"
    and "stack_released s (stack_start (live s ! i)) t"
proof -
  let ?p = "stack_start (live s ! i)"
  have table: "table_inv s" using assms(1) by (simp add: task_inv_def)
  obtain n c where n: "task_count s = int n" "n \<le> 10" and c: "current_task s = int c"
    and less: "0 < n \<longrightarrow> c < n"
    by (rule table_bounds [OF table])
  have i: "i < n" "c < n" using assms(2) n less by simp_all
  have nth: "live s ! i = task_list s ! i" using i n by (simp add: live_def)
  have mem: "?p \<in> set (stacks (live s))" using i n length_live [OF table] by (simp add: stacks_def)
  obtain u where u: "free ?p s = Some u" "stack_released s ?p u" "task_list u = task_list s"
    "task_count u = int n" "current_task u = int c"
  proof -
    have "\<exists>k. ?p = 0 \<or> owns s ?p k"
      using assms(1) mem unfolding task_inv_def stacks_owned_def by blast
    then show thesis using free_stack [of s ?p] that assms(1) n c by (auto simp: task_inv_def)
  qed
  have tu: "table_inv (cli u)" using table u n c by (simp add: table_inv_def cli_def)
  have live: "live (cli u) = live s" using u n by (simp add: live_def cli_def)
  obtain ts where ts: "shift_task_list_down (int i) (cli u) = Inr ((cli u)\<lparr>task_list := ts\<rparr>)"
    "length ts = 10" "take (n - 1) ts = without i (live s)"
    using shift_live [OF tu, of i] i u live by (auto simp: cli_def)
  define t where "t = u\<lparr>if_flag := True, task_list := ts, task_count := int n - 1,
    current_task := int (current_after i n c)\<rparr>"
  have cnt: "s16 (int n - 1) = int n - 1" "s16 (int c - 1) = int c - 1"
    using n i by (simp_all add: s16_id)
  have "in_task_list (int i)" using i n by (simp add: in_task_list_def MAX_TASKS_def)
  then have "reap (int i) s = Some (Inr t)"
    using u ts(1) cnt i unfolding nth
    by (auto simp: reap_def t_def current_after_def cli_def sti_def Let_def)
  moreover have "table_inv t"
    using ts(2) n i by (auto simp: table_inv_def t_def current_after_def)
  moreover have "live t = without i (live s)"
    using ts(3) i by (simp add: live_def t_def nat_diff_distrib')
  moreover have "stack_released s ?p t"
    using u(2) by (simp add: t_def stack_released_def keeps_def)
  ultimately show thesis using that by (simp add: t_def n c)
qed

section \<open>Removal of all finished tasks\<close>

definition bodies :: "'a tasks_scheme \<Rightarrow> task_t list" where
  "bodies s = map body (live s)"

definition finished :: "task_t \<Rightarrow> bool" where
  "finished x \<longleftrightarrow> state x = TASK_DONE"

definition done_stacks :: "'a tasks_scheme \<Rightarrow> u64 set" where
  "done_stacks s = stack_start ` {x \<in> set (bodies s). finished x}"

text \<open>
  \<open>reaped s t\<close>: from \<open>s\<close> to \<open>t\<close> exactly the finished tasks are gone, the others are in
  order and renumbered; the current task is still the current one; the stacks of the finished
  tasks are no longer in use and all other blocks of the heap are untouched.
\<close>

definition reaped :: "'a tasks_scheme \<Rightarrow> 'a tasks_scheme \<Rightarrow> bool" where
  "reaped s t \<longleftrightarrow> task_inv t \<and> bodies t = filter (\<lambda>x. \<not> finished x) (bodies s)
     \<and> (\<forall>p \<in> done_stacks s. \<forall>j. \<not> owns t p j)
     \<and> (\<forall>q j. owns s q j \<longrightarrow> q \<notin> done_stacks s \<longrightarrow> keeps s t q j)
     \<and> (\<forall>q j. owns t q j \<longrightarrow> owns s q j)
     \<and> (bodies s \<noteq> [] \<longrightarrow> \<not> finished (bodies s ! nat (current_task s)) \<longrightarrow>
          bodies t ! nat (current_task t) = bodies s ! nat (current_task s))"

lemma stacks_bodies: "stacks (live s) = map stack_start (bodies s)"
  by (simp add: stacks_def bodies_def)

lemma length_bodies: "table_inv s \<Longrightarrow> length (bodies s) = nat (task_count s)"
  by (simp add: bodies_def length_live)

lemma without_stacks_owned:
  assumes "stacks_owned s ts" and "i < length ts" and "stack_released s (stack_start (ts ! i)) t"
  shows "stacks_owned t (without i ts)"
proof -
  let ?S = "stacks ts" and ?nz = "\<lambda>p :: u64. p \<noteq> 0"
  have split: "?S = take i ?S @ stack_start (ts ! i) # drop (Suc i) ?S"
    using assms(2) id_take_nth_drop [of i ?S] by (simp add: stacks_def)
  have "stacks (without i ts) = map stack_start (map body (without i ts))" by (simp add: stacks_def)
  also have "\<dots> = take i ?S @ drop (Suc i) ?S"
    using without_facts(1) [OF assms(2)] by (simp add: stacks_def take_map drop_map)
  finally have w: "stacks (without i ts) = take i ?S @ drop (Suc i) ?S" .
  have "distinct (filter ?nz (take i ?S @ stack_start (ts ! i) # drop (Suc i) ?S))"
    using assms(1) split by (simp add: stacks_owned_def)
  then have d: "distinct (filter ?nz (stacks (without i ts)))"
    and ne: "\<And>p. p \<in> set (stacks (without i ts)) \<Longrightarrow> p \<noteq> 0 \<Longrightarrow> p \<noteq> stack_start (ts ! i)"
    unfolding w by (auto split: if_splits)
  have sub: "set (stacks (without i ts)) \<subseteq> set ?S"
    unfolding w using set_take_subset [of i ?S] set_drop_subset [of "Suc i" ?S] by auto
  have "\<exists>k\<ge>4096. owns t p k" if "p \<in> set (stacks (without i ts))" "p \<noteq> 0" for p
    using that ne sub assms(1,3) unfolding stacks_owned_def stack_released_def keeps_def by blast
  with d show ?thesis by (simp add: stacks_owned_def)
qed

lemma reap_step:
  fixes s :: "'a tasks_scheme"
  assumes "task_inv s" and "i < nat (task_count s)"
  obtains t where "reap (int i) s = Some (Inr t)" and "task_inv t" and "task_count t = task_count s - 1"
    and "bodies t = take i (bodies s) @ drop (Suc i) (bodies s)"
    and "nat (current_task t) = current_after i (nat (task_count s)) (nat (current_task s))"
    and "stack_released s (stack_start (bodies s ! i)) t"
proof -
  have table: "table_inv s" and len: "i < length (live s)"
    using assms length_live [of s] by (auto simp: task_inv_def)
  obtain t where t: "reap (int i) s = Some (Inr t)" "table_inv t" "task_count t = task_count s - 1"
    "live t = without i (live s)" "nat (current_task t) = current_after i (nat (task_count s)) (nat (current_task s))"
    "stack_released s (stack_start (live s ! i)) t"
    by (rule reap_effect [OF assms])
  have "task_inv t"
    using t assms(1) without_facts(3) [OF len] without_stacks_owned [OF _ len t(6)]
    by (simp add: task_inv_def stack_released_def)
  moreover have "bodies t = take i (bodies s) @ drop (Suc i) (bodies s)"
    using without_facts(1) [OF len] t(4) by (simp add: bodies_def)
  ultimately show thesis using that t len by (simp add: bodies_def)
qed

lemma nth_current_after:
  assumes "c < length xs" and "c \<noteq> i" and "i < length xs"
  shows "(take i xs @ drop (Suc i) xs) ! current_after i (length xs) c = xs ! c"
proof (cases "c > i")
  case True
  then have "current_after i (length xs) c = c - 1" by (simp add: current_after_def)
  moreover have "min (length xs) i = i" using assms(3) by simp
  moreover have "\<not> c - Suc 0 < i" using True by arith
  ultimately show ?thesis using True assms(1) by (simp add: nth_append)
next
  case False
  then have "current_after i (length xs) c = c" using assms by (auto simp: current_after_def)
  then show ?thesis using False assms by (simp add: nth_append)
qed

lemma reaped_step:
  fixes s t u :: "'a tasks_scheme"
  assumes "table_inv s" and "i < nat (task_count s)" and "finished (bodies s ! i)"
    and "bodies t = take i (bodies s) @ drop (Suc i) (bodies s)"
    and "nat (current_task t) = current_after i (nat (task_count s)) (nat (current_task s))"
    and "stack_released s (stack_start (bodies s ! i)) t" and "reaped t u"
  shows "reaped s u"
proof -
  let ?B = "bodies s" and ?p = "stack_start (bodies s ! i)" and ?c = "nat (current_task s)"
  have len: "length ?B = nat (task_count s)" by (rule length_bodies [OF assms(1)])
  have split: "?B = take i ?B @ ?B ! i # drop (Suc i) ?B" using assms(2) len by (simp add: id_take_nth_drop)
  have set: "set ?B = insert (?B ! i) (set (bodies t))" by (subst split) (simp add: assms(4))
  have stacks: "done_stacks s = insert ?p (done_stacks t)"
    using assms(3) by (auto simp: done_stacks_def set)
  have "filter (\<lambda>x. \<not> finished x) ?B = filter (\<lambda>x. \<not> finished x) (bodies t)"
    by (subst split) (simp add: assms(3,4))
  then have bodies: "bodies u = filter (\<lambda>x. \<not> finished x) ?B" and inv: "task_inv u"
    using assms(7) by (simp_all add: reaped_def)
  have gone: "\<not> owns u p j" if "p \<in> done_stacks s" for p j
    using that assms(6,7) unfolding stack_released_def reaped_def stacks by blast
  have keep: "keeps s u q j" if "owns s q j" "q \<notin> done_stacks s" for q j
  proof -
    have "keeps s t q j" using that assms(6) by (simp add: stack_released_def stacks)
    moreover from this have "keeps t u q j"
      using that(2) assms(7) unfolding reaped_def stacks by (simp add: keeps_def [of s])
    ultimately show ?thesis by (rule keeps_trans)
  qed
  have old: "owns s q j" if "owns u q j" for q j
    using that assms(6,7) unfolding stack_released_def reaped_def by blast
  have cur: "bodies u ! nat (current_task u) = ?B ! ?c" if "\<not> finished (?B ! ?c)"
  proof -
    have c: "?c < length ?B" "?c \<noteq> i"
      using assms(1,2,3) that len by (auto simp: table_inv_def)
    have "bodies t ! nat (current_task t) = ?B ! ?c"
      using nth_current_after [OF c] assms(2) len by (simp only: assms(4,5))
    moreover have "bodies t \<noteq> []"
    proof -
      have "length (bodies t) = length ?B - 1" using assms(2) len by (simp add: assms(4))
      with c assms(2) len show ?thesis by (metis length_0_conv less_one not_less_eq plus_1_eq_Suc add_diff_inverse_nat gr_implies_not0 linorder_neqE_nat)
    qed
    ultimately show ?thesis using assms(7) that by (auto simp: reaped_def)
  qed
  show ?thesis unfolding reaped_def
    by (intro conjI ballI allI impI;
        (rule inv | rule bodies | erule gone | (rule keep; assumption) | erule old | (rule cur; assumption)))
qed

lemma reaped_refl: "task_inv s \<Longrightarrow> (\<And>x. x \<in> set (bodies s) \<Longrightarrow> \<not> finished x) \<Longrightarrow> reaped s s"
  by (auto simp: reaped_def keeps_def done_stacks_def)

lemma reap_loop_effect:
  fixes s :: "'a tasks_scheme"
  assumes "task_inv s" and "i \<le> nat (task_count s)" and "\<And>x. x \<in> set (take i (bodies s)) \<Longrightarrow> \<not> finished x"
  shows "\<exists>t. reap_loop (int i) s = Some (Inr t) \<and> reaped s t"
  using assms
proof (induction "nat (task_count s) - i" arbitrary: s i rule: less_induct)
  case less
  let ?n = "nat (task_count s)"
  have table: "table_inv s" using less.prems(1) by (simp add: task_inv_def)
  have n: "0 \<le> task_count s" "task_count s \<le> 10" using table by (auto simp: table_inv_def)
  have len: "length (bodies s) = ?n" by (rule length_bodies [OF table])
  consider "i = ?n" | "i < ?n" "finished (bodies s ! i)" | "i < ?n" "\<not> finished (bodies s ! i)"
    using less.prems(2) by fastforce
  then show ?case
  proof cases
    case 1
    then have "reap_loop (int i) s = Some (Inr s)" using n by (subst reap_loop.simps) simp
    with reaped_refl [OF less.prems(1)] less.prems(3) 1 len show ?thesis by auto
  next
    case 2
    have st: "state (task_list s ! i) = TASK_DONE"
      using 2 len by (simp add: bodies_def finished_def live_def)
    obtain t where t: "reap (int i) s = Some (Inr t)" "task_inv t" "task_count t = task_count s - 1"
      "bodies t = take i (bodies s) @ drop (Suc i) (bodies s)"
      "nat (current_task t) = current_after i ?n (nat (current_task s))"
      "stack_released s (stack_start (bodies s ! i)) t"
      by (rule reap_step [OF less.prems(1) 2(1)])
    have "\<exists>u. reap_loop (int i) t = Some (Inr u) \<and> reaped t u"
      using less.prems(3) 2(1) t(3) n by (intro less.hyps) (auto simp: t(2,4) len nat_diff_distrib')
    then obtain u where u: "reap_loop (int i) t = Some (Inr u)" "reaped t u" by blast
    have "reap_loop (int i) s = Some (Inr u)"
      using 2(1) n st t(1) u(1)
      by (subst reap_loop.simps) (simp add: in_task_list_def MAX_TASKS_def s16_id u16_id zless_nat_eq_int_zless)
    with reaped_step [OF table 2 t(4-6) u(2)] show ?thesis by blast
  next
    case 3
    have st: "state (task_list s ! i) \<noteq> TASK_DONE"
      using 3 len by (simp add: bodies_def finished_def live_def)
    have "\<exists>t. reap_loop (int (Suc i)) s = Some (Inr t) \<and> reaped s t"
      using less.prems 3 len by (intro less.hyps) (auto simp: take_Suc_conv_app_nth)
    moreover have "reap_loop (int i) s = reap_loop (int (Suc i)) s"
      using 3(1) n st
      by (subst reap_loop.simps) (simp add: in_task_list_def MAX_TASKS_def s16_id add.commute zless_nat_eq_int_zless)
    ultimately show ?thesis by simp
  qed
qed

lemma numbered_snoc: "numbered ts \<Longrightarrow> task_id x = int (length ts) \<Longrightarrow> numbered (ts @ [x])"
  by (simp add: numbered_def)

lemma create_ok:
  assumes "task_inv s"
  shows "if task_count s < 10
    then \<exists>p u t. malloc STACK_SIZE_TASK s = Some (p, u) \<and> task_create entry s = Some (Ok t) \<and> task_inv t
      \<and> live t = live s @ [new_task entry p (nat (task_count s)) s] \<and> current_task t = current_task s
      \<and> (p \<noteq> 0 \<longrightarrow> (\<exists>k\<ge>4096. owns t p k \<and> (\<forall>q j. owns s q j \<longrightarrow> region p k \<inter> region q j = {})))
      \<and> (\<forall>q j. owns s q j \<longrightarrow> q \<noteq> p \<and> keeps s t q j)
    else task_create entry s = Some (Ok (put_chars (cstr ''[task] no free task slots\<newline>'') s))"
proof (cases "task_count s < 10")
  case True
  let ?x = "\<lambda>p. new_task entry p (nat (task_count s)) s"
  obtain p u t where m: "malloc STACK_SIZE_TASK s = Some (p, u)"
    and t: "task_create entry s = Some (Ok t)" "live t = live s @ [?x p]"
    "task_count t = task_count s + 1" "current_task t = current_task s" "table_inv t" "heap_inv t"
    "p \<noteq> 0 \<longrightarrow> (\<exists>k\<ge>4096. owns t p k)" and keep: "\<forall>q j. owns s q j \<longrightarrow> q \<noteq> p \<and> keeps s t q j"
    by (rule create_effect [where entry = entry, OF assms True])
  have old: "numbered (live s)" "stacks_owned s (live s)" "length (live s) = nat (task_count s)"
    using assms length_live by (auto simp: task_inv_def)
  have x: "task_id (?x p) = int (length (live s))" "stack_start (?x p) = p"
    by (simp_all add: new_task_def Let_def old(3))
  have "stacks_owned t (live t)"
    using old(2) t(7) keep unfolding t(2) stacks_owned_def
    by (auto simp: stacks_def x keeps_def) blast+
  then have "task_inv t" using t numbered_snoc [OF old(1) x(1)] by (simp add: task_inv_def)
  moreover have "\<exists>k\<ge>4096. owns t p k \<and> (\<forall>q j. owns s q j \<longrightarrow> region p k \<inter> region q j = {})" if "p \<noteq> 0"
    using t(7) keep that owns_regions_apart [of t p] by (metis keeps_def)
  ultimately show ?thesis using m t(1,2,4) keep True by (simp only: if_True) blast
next
  case False
  have "say ''[task] no free task slots\<newline>'' [] s = Ok (put_chars (cstr ''[task] no free task slots\<newline>'') s)"
    by (rule say_literal) (simp_all add: cstr_def)
  with False show ?thesis by (simp add: task_create_def task_get_next_id_def MAX_TASKS_def)
qed

section \<open>Properties\<close>

text \<open>
  C16: \<open>task_create\<close> returns; while there is a free slot it appends one ready task that will
  start at the entry point with an empty frame, the saved kernel selectors and the block that
  \<open>malloc(STACK_SIZE_TASK)\<close> returned as its stack. If that is not NULL, the stack is a block of
  at least 4096 bytes in use, apart from every block that was in use before (the stacks of the
  other tasks among them); if it is NULL, the task is created all the same, without a stack
  and with the stack pointer 4096. No other task and no block of the heap is disturbed. With
  ten tasks \<open>task_create\<close> only prints a message.
\<close>

theorem task_create_adds:
  assumes "task_inv s"
  shows "if task_count s < 10
    then \<exists>p u t. malloc STACK_SIZE_TASK s = Some (p, u) \<and> task_create entry s = Some (Ok t) \<and> task_inv t
      \<and> live t = live s @ [new_task entry p (nat (task_count s)) s] \<and> current_task t = current_task s
      \<and> (p \<noteq> 0 \<longrightarrow> (\<exists>k\<ge>4096. owns t p k \<and> (\<forall>q j. owns s q j \<longrightarrow> region p k \<inter> region q j = {})))
      \<and> (p = 0 \<longrightarrow> fr_rsp (task_frame (last (live t))) = 4096)
      \<and> (\<forall>q j. owns s q j \<longrightarrow> q \<noteq> p \<and> keeps s t q j)
    else task_create entry s = Some (Ok (put_chars (cstr ''[task] no free task slots\<newline>'') s))"
proof -
  have "fr_rsp (task_frame (new_task entry 0 i s)) = 4096" for i
    by (simp add: new_task_def Let_def)
  with create_ok [OF assms, of entry] show ?thesis by (cases "task_count s < 10") fastforce+
qed

lemma example_tasks_inv: "task_inv example_tasks"
proof -
  have "heap_rel example_tasks []"
    by (simp add: heap_rel_def example_tasks_def HEAP_LOW_def HEAP_LIMIT_def)
  then have "heap_inv example_tasks" by (auto simp: heap_inv_def)
  moreover have "live example_tasks
      = [example_task 0 TASK_READY, example_task 1 TASK_DONE, example_task 2 TASK_READY]"
    by (simp add: live_def example_tasks_def)
  ultimately show ?thesis
    using example_tasks_table
    by (simp add: task_inv_def numbered_def stacks_owned_def stacks_def example_task_def upt_conv_Cons)
qed

lemma example_tasks_malloc: "\<exists>u. malloc STACK_SIZE_TASK example_tasks = Some (0x800010, u)"
proof -
  have "heap_rel example_tasks []"
    by (simp add: heap_rel_def example_tasks_def HEAP_LOW_def HEAP_LIMIT_def)
  moreover have "unat (ALIGN_UP 4096) = 4096" by (subst ALIGN_UP_unat) simp_all
  ultimately show ?thesis
    using alloc_with_refines [of example_tasks "[]" "ALIGN_UP 4096" "\<lambda>a t. alloc_size t a"]
    by (auto simp: malloc_alloc_with MAX_REQUEST_def INT_MAX_def alloc_blocks_def example_tasks_def
        STACK_SIZE_TASK_def)
qed

theorem task_create_adds_witness:
  "\<exists>t. task_create 0x401000 example_tasks = Some (Ok t) \<and> task_inv t
    \<and> live t = live example_tasks @ [new_task 0x401000 0x800010 3 example_tasks]
    \<and> (\<exists>k\<ge>4096. owns t 0x800010 k)"
proof -
  have "task_count example_tasks = 3" by (simp add: example_tasks_def)
  with task_create_adds [OF example_tasks_inv, of "0x401000"] example_tasks_malloc show ?thesis by auto
qed

text \<open>
  C15: \<open>task_reap\<close> returns and removes exactly the finished tasks: the others stay in order,
  renumbered, the current task stays current unless it is finished, the stacks of the finished
  tasks go back to the heap, and every other block of the heap is untouched.
\<close>

theorem task_reap_removes_finished:
  assumes "task_inv s"
  shows "\<exists>t. task_reap s = Some (Inr t) \<and> reaped s t"
  using reap_loop_effect [OF assms, of 0] by (simp add: task_reap_def)

theorem task_reap_removes_finished_witness:
  "\<exists>t. task_reap example_tasks = Some (Inr t)
    \<and> bodies t = map body [example_task 0 TASK_READY, example_task 2 TASK_READY]"
proof -
  obtain t where t: "task_reap example_tasks = Some (Inr t)" "reaped example_tasks t"
    using task_reap_removes_finished [OF example_tasks_inv] by blast
  have "bodies t = map body [example_task 0 TASK_READY, example_task 2 TASK_READY]"
    using t(2) unfolding reaped_def
    by (simp add: bodies_def live_def example_tasks_def finished_def example_task_def)
  with t(1) show ?thesis by blast
qed

end
