(* ===== verification/Timer.thy ===== *)
theory Timer
  imports Task
begin

text \<open>
  The timer: \<open>kernel/timer/pit.c\<close>. Programming the chip is a sequence of port writes; the
  interrupt handler counts ticks, remembers the interrupted frame and drives the scheduler.
\<close>

section \<open>The code\<close>

definition PIT_BASE_FREQUENCY :: int where
  "PIT_BASE_FREQUENCY = 1193182"

definition PIT_COMMAND :: u16 where
  "PIT_COMMAND = 0x43"

definition PIT_CHANNEL0 :: u16 where
  "PIT_CHANNEL0 = 0x40"

definition pit_io_wait :: "'a machine_scheme \<Rightarrow> 'a machine_scheme" where
  "pit_io_wait s = outb 0x80 0 s"

definition pit_handler :: "interrupt_frame \<Rightarrow> 'a tasks_scheme \<Rightarrow> c_error + (interrupt_frame \<times> 'a tasks_scheme)" where
  "pit_handler frame s =
     (let s1 = s\<lparr>ticks := ticks s + 1\<rparr>;
          s2 = s1\<lparr>kernel_frame_template := frame\<rparr>
      in if scheduling_enabled s2 \<noteq> 0 then schedule frame s2 else Inr (frame, s2))"

definition scheduler_enable :: "'a pit_scheme \<Rightarrow> 'a pit_scheme" where
  "scheduler_enable s = s\<lparr>scheduling_enabled := 1\<rparr>"

text \<open>The divisor is computed as an \<open>int\<close> and cut to 16 bits.\<close>

definition timer_init :: "device \<Rightarrow> u16 \<Rightarrow> 'a pit_scheme \<Rightarrow> c_error + 'a pit_scheme" where
  "timer_init dev frequency s =
     (if frequency = 0 then Inl Division_by_zero
      else
        let divisor = of_int (PIT_BASE_FREQUENCY div uint frequency) :: u16;
            s1 = s\<lparr>ticks := 0\<rparr>;
            s2 = pit_io_wait (outb PIT_COMMAND 0x36 s1);
            s3 = outb PIT_CHANNEL0 (ucast (divisor AND 0xFF)) s2;
            s4 = pit_io_wait (outb PIT_CHANNEL0 (ucast (drop_bit 8 divisor AND 0xFF)) s3);
            s5 = register_interrupt_handler 32 Pit_handler s4
        in pic_clear_mask dev 0 s5)"

section \<open>Programming the chip\<close>

lemma divisor_bytes:
  fixes d :: u16
  shows "unat (ucast (d AND 0xFF) :: u8) + 256 * unat (ucast (drop_bit 8 d AND 0xFF) :: u8) = unat d"
proof -
  have mask: "x AND 0xFF = take_bit 8 x" for x :: u16
    by (simp add: take_bit_eq_mask mask_eq_exp_minus_1)
  have "unat d div 256 < 256" using unsigned_less [of d, where 'a = nat] by simp
  then have "unat (ucast (drop_bit 8 d AND 0xFF) :: u8) = unat d div 256"
    by (simp add: mask unsigned_ucast_eq unsigned_take_bit_eq unsigned_drop_bit_eq drop_bit_eq_div unat_div_distrib
        take_bit_eq_mod [where 'a = nat])
  moreover have "unat (ucast (d AND 0xFF) :: u8) = unat d mod 256"
    by (simp add: mask unsigned_ucast_eq unsigned_take_bit_eq take_bit_eq_mod [where 'a = nat])
  ultimately show ?thesis by simp
qed

definition unmasked :: "u8 \<Rightarrow> u8" where
  "unmasked old = ucast (ucast old AND NOT (1 :: u32))"

lemma unmasked_bits: "j < 8 \<Longrightarrow> bit (unmasked old) j \<longleftrightarrow> bit old j \<and> j \<noteq> 0"
  by (auto simp: unmasked_def bit_simps)

lemma timer_init_effect:
  fixes s :: "'a pit_scheme" and dev :: device
  assumes "frequency \<noteq> 0"
  defines "d \<equiv> of_int (1193182 div uint frequency) :: u16"
  defines "evs \<equiv> [Out 0x43 0x36, Out 0x80 0, Out 0x40 (ucast (d AND 0xFF)),
      Out 0x40 (ucast (drop_bit 8 d AND 0xFF)), Out 0x80 0]"
  defines "old \<equiv> dev (io_log s @ evs) 0x21"
  shows "timer_init dev frequency s
    = Inr ((register_interrupt_handler 32 Pit_handler s)\<lparr>ticks := 0,
        io_log := io_log s @ evs @ [In 0x21 old, Out 0x21 (unmasked old)]\<rparr>)"
  using assms(1) unfolding timer_init_def
  by (simp add: pic_clear_mask_def irq_line_def irq_port_def inb_eq outb_def pit_io_wait_def Let_def
      register_interrupt_handler_def pic_consts PIT_COMMAND_def PIT_CHANNEL0_def PIT_BASE_FREQUENCY_def
      unmasked_def d_def evs_def old_def)

lemma divisor_value:
  assumes "frequency \<noteq> (0 :: u16)"
  shows "int (unat (of_int (1193182 div uint frequency) :: u16))
    = (if 19 \<le> frequency then 1193182 div uint frequency else (1193182 div uint frequency) mod 65536)"
proof -
  have "int (unat (of_int (1193182 div uint frequency) :: u16)) = (1193182 div uint frequency) mod 65536"
    by (simp add: uint_word_of_int)
  moreover have "(1193182 div uint frequency) mod 65536 = 1193182 div uint frequency" if "19 \<le> frequency"
  proof -
    have "19 \<le> uint frequency" using that by (simp add: word_le_def)
    then have "1193182 div uint frequency \<le> 1193182 div 19" by (intro zdiv_mono2) simp_all
    moreover have "0 \<le> 1193182 div uint frequency" using \<open>19 \<le> uint frequency\<close> by (simp add: pos_imp_zdiv_nonneg_iff)
    ultimately show ?thesis by simp
  qed
  ultimately show ?thesis by simp
qed

section \<open>Properties\<close>

text \<open>
  C35: \<open>timer_init\<close> programs the chip: for every frequency but 0 it selects channel 0, low byte
  then high byte, and the two bytes it then writes form the divisor of the base frequency
  (for frequencies from 19 Hz on; below, only the low 16 bits of the divisor fit); it
  unmasks IRQ 0 and no other line, installs the handler and restarts the tick counter.
  Frequency 0 divides by zero.
\<close>

theorem timer_init_programs:
  assumes "length (interrupt_handlers s) = 256"
  shows "if frequency = 0 then timer_init dev frequency s = Inl Division_by_zero
    else \<exists>t evs lo hi old new. timer_init dev frequency s = Inr t \<and> ticks t = 0
      \<and> io_log t = io_log s @ evs \<and> writes_to 0x43 evs = [0x36] \<and> writes_to 0x40 evs = [lo, hi]
      \<and> int (unat lo + 256 * unat hi) = (if 19 \<le> frequency then 1193182 div uint frequency
           else (1193182 div uint frequency) mod 65536)
      \<and> In 0x21 old \<in> set evs \<and> writes_to 0x21 evs = [new]
      \<and> (\<forall>j < 8. bit new j \<longleftrightarrow> bit old j \<and> j \<noteq> 0)
      \<and> interrupt_handlers t ! 32 = Some Pit_handler"
proof (cases "frequency = 0")
  case False
  define d where "d = (of_int (1193182 div uint frequency) :: u16)"
  define lo where "lo = (ucast (d AND 0xFF) :: u8)"
  define hi where "hi = (ucast (drop_bit 8 d AND 0xFF) :: u8)"
  define old where "old = dev (io_log s @ [Out 0x43 0x36, Out 0x80 0, Out 0x40 lo, Out 0x40 hi, Out 0x80 0]) 0x21"
  define evs where "evs = [Out 0x43 0x36, Out 0x80 0, Out 0x40 lo, Out 0x40 hi, Out 0x80 0,
    In 0x21 old, Out 0x21 (unmasked old)]"
  let ?t = "(register_interrupt_handler 32 Pit_handler s)\<lparr>ticks := 0, io_log := io_log s @ evs\<rparr>"
  have "timer_init dev frequency s = Inr ?t"
    using timer_init_effect [OF False, of dev s] by (simp add: evs_def old_def lo_def hi_def d_def)
  moreover have "interrupt_handlers ?t ! 32 = Some Pit_handler"
    using registered(1) [OF assms, of 32 Pit_handler 32] by simp
  moreover have "int (unat lo + 256 * unat hi)
      = (if 19 \<le> frequency then 1193182 div uint frequency else (1193182 div uint frequency) mod 65536)"
    unfolding lo_def hi_def divisor_bytes unfolding d_def by (rule divisor_value [OF False])
  moreover have "writes_to 0x43 evs = [0x36]" "writes_to 0x40 evs = [lo, hi]" "writes_to 0x21 evs = [unmasked old]"
    "In 0x21 old \<in> set evs" by (simp_all add: evs_def)
  moreover have "ticks ?t = 0" "io_log ?t = io_log s @ evs" by simp_all
  moreover have "\<forall>j < 8. bit (unmasked old) j \<longleftrightarrow> bit old j \<and> j \<noteq> 0" using unmasked_bits by blast
  ultimately show ?thesis unfolding if_not_P [OF False] by blast
qed (simp add: timer_init_def)

theorem timer_init_programs_witness:
  "\<exists>t evs lo hi old new. timer_init (\<lambda>_ _. 0xFF) 100 example_tasks = Inr t \<and> ticks t = 0
      \<and> io_log t = io_log example_tasks @ evs \<and> writes_to 0x43 evs = [0x36] \<and> writes_to 0x40 evs = [lo, hi]
      \<and> int (unat lo + 256 * unat hi) = 11931
      \<and> In 0x21 old \<in> set evs \<and> writes_to 0x21 evs = [new] \<and> interrupt_handlers t ! 32 = Some Pit_handler"
  using timer_init_programs [of example_tasks 100 "\<lambda>_ _. 0xFF"]
  by (simp add: example_tasks_def) blast

text \<open>At 18 Hz the divisor 66287 does not fit: the chip is told 751 and ticks at about 1589 Hz.\<close>

lemma timer_init_truncates:
  "unat (of_int (PIT_BASE_FREQUENCY div uint (18 :: u16)) :: u16) = 751"
  by (simp add: PIT_BASE_FREQUENCY_def)

end
