(* ===== verification/Fs.thy ===== *)
theory Fs
  imports Task
begin

text \<open>
  The initrd file system: \<open>kernel/fs/fs.c\<close>. The archive is read where the boot loader put it;
  a pointer to an entry is its address, NULL is 0. The lemmas describe an archive by the list
  of its entries and show that lookups find the first entry of the given name.
\<close>

section \<open>The code\<close>

record fs = tasks +
  fs_entries :: u64
  fs_data :: u64
  fs_file_count :: u32

text \<open>\<open>initrd_header_t\<close> and \<open>initrd_entry_t\<close>: 8 and 40 bytes without padding.\<close>

definition sizeof_header :: u64 where
  "sizeof_header = 8"

definition sizeof_entry :: u64 where
  "sizeof_entry = 40"

definition header_magic :: "memory \<Rightarrow> u64 \<Rightarrow> nat \<Rightarrow> u8" where
  "header_magic m a i = m (a + of_nat i)"

definition header_file_count :: "memory \<Rightarrow> u64 \<Rightarrow> u32" where
  "header_file_count m a = load32 m (a + 4)"

definition entry_name :: "memory \<Rightarrow> u64 \<Rightarrow> nat \<Rightarrow> u8" where
  "entry_name m e i = m (e + of_nat i)"

definition entry_offset :: "memory \<Rightarrow> u64 \<Rightarrow> u32" where
  "entry_offset m e = load32 m (e + 32)"

definition entry_size :: "memory \<Rightarrow> u64 \<Rightarrow> u32" where
  "entry_size m e = load32 m (e + 36)"

definition fs_init :: "u64 \<Rightarrow> 'a fs_scheme \<Rightarrow> 'a fs_scheme outcome" where
  "fs_init initrd_addr s =
     (if memcmp (header_magic (mem s) initrd_addr) (\<lambda>i. cstr ''DFS1'' ! i) 4 \<noteq> 0 then
        bind_ok (say ''[fs] invalid magic for initrd so the fs isnt going to be mounted\<newline>'' [] s)
          (\<lambda>s. Ok (s\<lparr>fs_file_count := 0\<rparr>))
      else
        let s1 = s\<lparr>fs_file_count := header_file_count (mem s) initrd_addr\<rparr>;
            s2 = s1\<lparr>fs_entries := initrd_addr + sizeof_header\<rparr>
        in Ok (s2\<lparr>fs_data := fs_entries s2 + ucast (fs_file_count s2) * sizeof_entry\<rparr>))"

text \<open>The loop of \<open>fs_read\<close> with the number of entries left.\<close>

fun fs_read_loop :: "nat \<Rightarrow> (nat \<Rightarrow> u8) \<Rightarrow> u64 \<Rightarrow> 'a fs_scheme \<Rightarrow> u64" where
  "fs_read_loop 0 name current s = 0"
| "fs_read_loop (Suc n) name current s =
     (if memcmp (entry_name (mem s) current) name 32 = 0 then current
      else fs_read_loop n name (current + sizeof_entry) s)"

definition fs_read :: "(nat \<Rightarrow> u8) \<Rightarrow> 'a fs_scheme \<Rightarrow> u64" where
  "fs_read name s = fs_read_loop (unat (fs_file_count s)) name (fs_entries s) s"

definition fs_get_data :: "u64 \<Rightarrow> 'a fs_scheme \<Rightarrow> u64" where
  "fs_get_data entry s = fs_data s + ucast (entry_offset (mem s) entry)"

section \<open>Bytes in memory\<close>

definition stored :: "memory \<Rightarrow> u64 \<Rightarrow> u8 list \<Rightarrow> bool" where
  "stored m a bs \<longleftrightarrow> (\<forall>i < length bs. m (a + of_nat i) = bs ! i)"

lemma stored_Nil [simp]: "stored m a []"
  by (simp add: stored_def)

lemma stored_Cons: "stored m a (x # xs) \<longleftrightarrow> m a = x \<and> stored m (a + 1) xs"
  by (simp add: stored_def All_less_Suc2 add.assoc)

lemma stored_append:
  "stored m a (xs @ ys) \<longleftrightarrow> stored m a xs \<and> stored m (a + of_nat (length xs)) ys"
  by (induction xs arbitrary: a) (simp_all add: stored_Cons add.assoc)

definition bytes32 :: "u32 \<Rightarrow> u8 list" where
  "bytes32 w = [ucast w, ucast (drop_bit 8 w), ucast (drop_bit 16 w), ucast (drop_bit 24 w)]"

lemma length_bytes32 [simp]: "length (bytes32 w) = 4"
  by (simp add: bytes32_def)

lemma load32_stored: "stored m a (bytes32 w) \<Longrightarrow> load32 m a = w"
proof -
  assume "stored m a (bytes32 w)"
  then have b: "m a = ucast w" "m (a + 1) = ucast (drop_bit 8 w)" "m (a + 1 + 1) = ucast (drop_bit 16 w)"
    "m (a + 1 + 1 + 1) = ucast (drop_bit 24 w)"
    by (simp_all add: bytes32_def stored_Cons)
  let ?v = "ucast (ucast w :: u8) OR push_bit 8 (ucast (ucast (drop_bit 8 w) :: u8)
      OR push_bit 8 (ucast (ucast (drop_bit 16 w) :: u8) OR push_bit 8 (ucast (ucast (drop_bit 24 w) :: u8)))) :: u32"
  have "load32 m a = ?v" using b by (simp add: load32_def load_le_numeral)
  also have "?v = w"
  proof (rule bit_word_eqI)
    fix n assume "n < LENGTH(32)"
    then consider "n < 8" | "8 \<le> n" "n < 16" | "16 \<le> n" "n < 24" | "24 \<le> n" "n < 32" by fastforce
    then show "bit ?v n = bit w n" by cases (auto simp: bit_simps)
  qed
  finally show ?thesis .
qed

section \<open>Archives\<close>

record initrd_entry =
  ie_name :: "u8 list"
  ie_offset :: u32
  ie_size :: u32

definition entry_bytes :: "initrd_entry \<Rightarrow> u8 list" where
  "entry_bytes e = ie_name e @ bytes32 (ie_offset e) @ bytes32 (ie_size e)"

definition header_bytes :: "u32 \<Rightarrow> u8 list" where
  "header_bytes n = cstr ''DFS1'' @ bytes32 n"

definition named :: "initrd_entry list \<Rightarrow> bool" where
  "named es \<longleftrightarrow> (\<forall>e \<in> set es. length (ie_name e) = 32)"

lemma stored_entry:
  assumes "stored m a (entry_bytes e)" and "length (ie_name e) = 32"
  shows "entry_offset m a = ie_offset e" and "entry_size m a = ie_size e"
    and "length q = 32 \<Longrightarrow> memcmp (entry_name m a) (\<lambda>i. q ! i) 32 = 0 \<longleftrightarrow> q = ie_name e"
proof -
  have parts: "stored m a (ie_name e)" "stored m (a + 32) (bytes32 (ie_offset e))"
    "stored m (a + 36) (bytes32 (ie_size e))"
    using assms by (simp_all add: entry_bytes_def stored_append add.assoc)
  show "entry_offset m a = ie_offset e" "entry_size m a = ie_size e"
    using load32_stored [OF parts(2)] load32_stored [OF parts(3)]
    by (simp_all add: entry_offset_def entry_size_def)
  assume q: "length q = 32"
  have "memcmp (entry_name m a) (\<lambda>i. q ! i) 32 = 0 \<longleftrightarrow> (\<forall>i < 32. ie_name e ! i = q ! i)"
    using parts(1) assms(2) by (simp add: memcmp_eq_0 entry_name_def stored_def)
  then show "memcmp (entry_name m a) (\<lambda>i. q ! i) 32 = 0 \<longleftrightarrow> q = ie_name e"
    using q assms(2) by (metis nth_equalityI)
qed

lemma length_entry_bytes: "length (ie_name e) = 32 \<Longrightarrow> length (entry_bytes e) = 40"
  by (simp add: entry_bytes_def)

text \<open>The lookup walks over entries of other names.\<close>

lemma fs_read_loop_skip:
  assumes "stored (mem s) a (concat (map entry_bytes xs))" and "named xs" and "length q = 32"
    and "q \<notin> ie_name ` set xs"
  shows "fs_read_loop (length xs + n) (\<lambda>i. q ! i) a s
    = fs_read_loop n (\<lambda>i. q ! i) (a + of_nat (40 * length xs)) s"
  using assms
proof (induction xs arbitrary: a)
  case (Cons x xs)
  have x: "length (ie_name x) = 32" using Cons.prems(2) by (simp add: named_def)
  have st: "stored (mem s) a (entry_bytes x)" "stored (mem s) (a + 40) (concat (map entry_bytes xs))"
    using Cons.prems(1) length_entry_bytes [OF x] by (simp_all add: stored_append)
  have "memcmp (entry_name (mem s) a) (\<lambda>i. q ! i) 32 \<noteq> 0"
    using stored_entry(3) [OF st(1) x Cons.prems(3)] Cons.prems(4) by auto
  with Cons.IH [OF st(2)] Cons.prems show ?case
    by (simp add: named_def sizeof_entry_def algebra_simps)
qed simp

lemma fs_read_loop_hit:
  assumes "stored (mem s) a (concat (map entry_bytes (xs @ e # ys)))" and "named (xs @ e # ys)"
    and "ie_name e \<notin> ie_name ` set xs"
  shows "fs_read_loop (length (xs @ e # ys)) (\<lambda>i. ie_name e ! i) a s = a + of_nat (40 * length xs)"
    and "stored (mem s) (a + of_nat (40 * length xs)) (entry_bytes e)"
proof -
  have lens: "length (concat (map entry_bytes xs)) = 40 * length xs" if "named xs" for xs
    using that by (induction xs) (auto simp: named_def length_entry_bytes)
  have n: "named xs" "length (ie_name e) = 32" using assms(2) by (auto simp: named_def)
  show st: "stored (mem s) (a + of_nat (40 * length xs)) (entry_bytes e)"
    using assms(1) lens [OF n(1)] by (simp add: stored_append)
  have "stored (mem s) a (concat (map entry_bytes xs))" using assms(1) by (simp add: stored_append)
  from fs_read_loop_skip [OF this n assms(3), of "Suc (length ys)"] stored_entry(3) [OF st n(2) n(2)]
  show "fs_read_loop (length (xs @ e # ys)) (\<lambda>i. ie_name e ! i) a s = a + of_nat (40 * length xs)"
    by simp
qed

text \<open>Mounting an archive.\<close>

lemma fs_init_mounts:
  assumes "stored (mem s) a (header_bytes n)"
  shows "fs_init a s = Ok (s\<lparr>fs_file_count := n, fs_entries := a + 8, fs_data := a + 8 + ucast n * 40\<rparr>)"
proof -
  have st: "stored (mem s) a (cstr ''DFS1'')" "stored (mem s) (a + 4) (bytes32 n)"
    using assms stored_append [of "mem s" a "cstr ''DFS1''" "bytes32 n"]
    by (simp_all add: header_bytes_def cstr_def)
  have "length (cstr ''DFS1'') = 4" by (simp add: cstr_def)
  then have "memcmp (header_magic (mem s) a) (\<lambda>i. cstr ''DFS1'' ! i) 4 = 0"
    using st(1) by (simp add: memcmp_eq_0 header_magic_def stored_def)
  with load32_stored [OF st(2)] show ?thesis
    by (simp add: fs_init_def header_file_count_def sizeof_header_def sizeof_entry_def)
qed

end
