(* ===== verification/Pack_Initrd.thy ===== *)
theory Pack_Initrd
  imports Fs
begin

text \<open>
  The host tool that builds the initrd: \<open>tools/pack_initrd.c\<close>. The host's files are a
  parameter, from paths to contents; a run yields the exit code and what ends up in the output
  file, if it could be opened. The round trip with \<open>fs.c\<close> closes the theory: what the tool
  packs, the kernel finds.
\<close>

section \<open>C library routines of the host\<close>

definition strrchr :: "u8 list \<Rightarrow> u8 \<Rightarrow> nat option" where
  "strrchr str c =
     (if c \<in> set str then Some (length str - 1 - length (takeWhile (\<lambda>x. x \<noteq> c) (rev str))) else None)"

definition strncpy :: "u8 list \<Rightarrow> u8 list \<Rightarrow> nat \<Rightarrow> u8 list" where
  "strncpy dst src n = take n (src @ replicate n 0) @ drop n dst"

section \<open>The code\<close>

definition entry_zeroed :: initrd_entry where
  "entry_zeroed = \<lparr>ie_name = replicate 32 0, ie_offset = 0, ie_size = 0\<rparr>"

text \<open>The first loop: the sizes of all inputs, \<open>None\<close> if one cannot be opened.\<close>

fun file_sizes :: "(u8 list \<Rightarrow> u8 list option) \<Rightarrow> u8 list list \<Rightarrow> nat list option" where
  "file_sizes files [] = Some []"
| "file_sizes files (path # paths) =
     (case files path of
        None \<Rightarrow> None
      | Some contents \<Rightarrow> map_option (\<lambda>ns. length contents # ns) (file_sizes files paths))"

definition base_of :: "u8 list \<Rightarrow> u8 list" where
  "base_of path = (case strrchr path (of_char CHR ''/'') of Some slash \<Rightarrow> drop (slash + 1) path | None \<Rightarrow> path)"

text \<open>The second loop: the table of entries.\<close>

fun make_entries :: "u32 \<Rightarrow> u8 list list \<Rightarrow> nat list \<Rightarrow> initrd_entry list" where
  "make_entries running_offset (path # paths) (sz # sizes) =
     (let entry = entry_zeroed\<lparr>ie_name := strncpy (ie_name entry_zeroed) (base_of path) 31,
            ie_offset := running_offset, ie_size := of_nat sz\<rparr>
      in entry # make_entries (running_offset + ie_size entry) paths sizes)"
| "make_entries running_offset _ _ = []"

text \<open>Copying one file in pieces of 4096 bytes.\<close>

function copy_file :: "u8 list \<Rightarrow> u8 list" where
  "copy_file rest = (let buf = take 4096 rest in
     if length buf > 0 then buf @ copy_file (drop 4096 rest) else [])"
  by pat_completeness auto
termination
  by (relation "measure length") auto

declare copy_file.simps [simp del]

text \<open>The third loop.\<close>

fun copy_files :: "(u8 list \<Rightarrow> u8 list option) \<Rightarrow> u8 list list \<Rightarrow> u8 list option" where
  "copy_files files [] = Some []"
| "copy_files files (path # paths) =
     (case files path of
        None \<Rightarrow> None
      | Some contents \<Rightarrow> map_option (\<lambda>out. copy_file contents @ out) (copy_files files paths))"

definition pack_main :: "(u8 list \<Rightarrow> u8 list option) \<Rightarrow> bool \<Rightarrow> u8 list list \<Rightarrow> int \<times> u8 list option" where
  "pack_main files can_write argv =
     (if length argv < 3 then (1, None)
      else if \<not> can_write then (1, None)
      else
        let paths = drop 2 argv;
            header = header_bytes (of_nat (length paths))
        in case file_sizes files paths of
             None \<Rightarrow> (1, Some header)
           | Some sizes \<Rightarrow>
               (case copy_files files paths of
                  None \<Rightarrow> (1, Some header)
                | Some out \<Rightarrow> (0, Some (header @ concat (map entry_bytes (make_entries 0 paths sizes)) @ out))))"

section \<open>What the loops compute\<close>

lemma copy_file_all [simp]: "copy_file xs = xs"
proof (induction xs rule: copy_file.induct)
  case (1 rest)
  then show ?case by (subst copy_file.simps) (auto simp: Let_def)
qed

lemma base_of_last: "of_char CHR ''/'' \<notin> set name \<Longrightarrow> base_of name = name"
  "of_char CHR ''/'' \<notin> set name \<Longrightarrow> base_of (dir @ of_char CHR ''/'' # name) = name"
  by (simp_all add: base_of_def strrchr_def takeWhile_append)

definition entry_name_of :: "u8 list \<Rightarrow> u8 list" where
  "entry_name_of path = strncpy (replicate 32 0) (base_of path) 31"

lemma length_entry_name: "length (entry_name_of path) = 32"
  by (simp add: entry_name_of_def strncpy_def)

text \<open>
  The entries of a list of files with given contents: names, running offsets and sizes.
\<close>

fun offset_of :: "(u8 list \<times> u8 list) list \<Rightarrow> nat" where
  "offset_of [] = 0"
| "offset_of ((path, contents) # fs) = length contents + offset_of fs"

lemma make_entries_app:
  "make_entries r (map fst (xs @ ys)) (map (length \<circ> snd) (xs @ ys))
    = make_entries r (map fst xs) (map (length \<circ> snd) xs)
      @ make_entries (r + of_nat (offset_of xs)) (map fst ys) (map (length \<circ> snd) ys)"
  by (induction xs arbitrary: r) (auto simp: Let_def add.assoc)

lemma make_entries_named: "named (make_entries r paths sizes)"
  by (induction r paths sizes rule: make_entries.induct)
    (auto simp: named_def Let_def entry_zeroed_def strncpy_def)

lemma make_entries_names:
  "length sizes = length paths \<Longrightarrow> map ie_name (make_entries r paths sizes) = map entry_name_of paths"
  by (induction r paths sizes rule: make_entries.induct)
    (auto simp: Let_def entry_zeroed_def entry_name_of_def)

definition inputs_of :: "(u8 list \<Rightarrow> u8 list option) \<Rightarrow> u8 list list \<Rightarrow> (u8 list \<times> u8 list) list" where
  "inputs_of files paths = map (\<lambda>p. (p, the (files p))) paths"

lemma sizes_copies:
  assumes "\<forall>p \<in> set paths. files p \<noteq> None"
  shows "file_sizes files paths = Some (map (length \<circ> snd) (inputs_of files paths))"
    and "copy_files files paths = Some (concat (map snd (inputs_of files paths)))"
  using assms by (induction paths) (auto simp: inputs_of_def)

lemma length_contents: "length (concat (map snd fs)) = offset_of fs"
  by (induction fs rule: offset_of.induct) auto

lemma offset_of_append: "offset_of (xs @ ys) = offset_of xs + offset_of ys"
  by (induction xs rule: offset_of.induct) auto

lemma file_sizes_None: "file_sizes files paths = None \<longleftrightarrow> (\<exists>p \<in> set paths. files p = None)"
  by (induction paths) (auto split: option.splits)

lemma ucast_of_nat: "k < 4294967296 \<Longrightarrow> (ucast (of_nat k :: u32) :: u64) = of_nat k"
  by (simp add: word_unat_eq_iff unsigned_ucast_eq unsigned_of_nat take_bit_nat_eq_self)

lemma unat_of_nat32: "k < 4294967296 \<Longrightarrow> unat (of_nat k :: u32) = k"
  by (simp add: unat_of_nat take_bit_nat_eq_self)

text \<open>A successful run writes the archive of its inputs.\<close>

definition archive :: "(u8 list \<times> u8 list) list \<Rightarrow> u8 list" where
  "archive fs = header_bytes (of_nat (length fs))
     @ concat (map entry_bytes (make_entries 0 (map fst fs) (map (length \<circ> snd) fs))) @ concat (map snd fs)"

lemma pack_main_archive:
  assumes "pack_main files can_write argv = (0, Some img)"
  shows "img = archive (inputs_of files (drop 2 argv))" and "\<forall>p \<in> set (drop 2 argv). files p \<noteq> None"
proof -
  let ?paths = "drop 2 argv"
  from assms have "file_sizes files ?paths \<noteq> None"
    by (auto simp: pack_main_def Let_def split: if_splits option.splits)
  then show all: "\<forall>p \<in> set ?paths. files p \<noteq> None" by (simp add: file_sizes_None)
  have fst: "map fst (inputs_of files ?paths) = ?paths" "length (inputs_of files ?paths) = length ?paths"
    by (simp_all add: inputs_of_def comp_def)
  show "img = archive (inputs_of files ?paths)"
    using assms sizes_copies [OF all]
    by (simp add: pack_main_def archive_def fst Let_def split: if_splits)
qed

text \<open>The kernel's view of an archive in memory.\<close>

lemma archive_lookup:
  fixes s :: "'a fs_scheme"
  assumes "stored (mem s) a (archive (xs @ (path, contents) # ys))"
    and "length (xs @ (path, contents) # ys) < 4294967296"
    and "offset_of (xs @ (path, contents) # ys) < 4294967296"
    and "entry_name_of path \<notin> entry_name_of ` fst ` set xs"
  obtains t where "fs_init a s = Ok t" and "mem t = mem s"
    and "fs_read (\<lambda>i. entry_name_of path ! i) t = a + of_nat (8 + 40 * length xs)"
    and "entry_size (mem t) (a + of_nat (8 + 40 * length xs)) = of_nat (length contents)"
    and "stored (mem t) (fs_get_data (a + of_nat (8 + 40 * length xs)) t) contents"
    and "fs_get_data (a + of_nat (8 + 40 * length xs)) t
      = a + of_nat (8 + 40 * length (xs @ (path, contents) # ys) + offset_of xs)"
    and "stored (mem t) (a + of_nat (8 + 40 * length xs)) (entry_name_of path)"
    and "\<exists>n p d. t = s\<lparr>fs_file_count := n, fs_entries := p, fs_data := d\<rparr>"
proof -
  let ?all = "xs @ (path, contents) # ys" and ?mk = "\<lambda>r fs. make_entries r (map fst fs) (map (length \<circ> snd) fs)"
  let ?n = "length ?all" and ?off = "offset_of xs"
  define e where "e = \<lparr>ie_name = entry_name_of path, ie_offset = of_nat ?off, ie_size = of_nat (length contents)\<rparr>"
  obtain es where es: "?mk 0 ?all = ?mk 0 xs @ e # es"
    using make_entries_app [of 0 xs "(path, contents) # ys"]
    by (simp add: e_def entry_zeroed_def entry_name_of_def Let_def)
  have len: "length (?mk r fs) = length fs" for r and fs :: "(u8 list \<times> u8 list) list"
    using make_entries_names [of "map (length \<circ> snd) fs" "map fst fs" r] by (metis length_map)
  have lens: "length (?mk 0 xs @ e # es) = ?n" using len [of 0 ?all] es by simp
  have named: "named (?mk 0 xs @ e # es)" using make_entries_named [of 0] es by metis
  have hdr: "length (header_bytes n) = 8" for n by (simp add: header_bytes_def cstr_def)
  have tab: "length (concat (map entry_bytes zs)) = 40 * length zs" if "named zs" for zs
    using that by (induction zs) (auto simp: named_def length_entry_bytes)
  have st: "stored (mem s) a (header_bytes (of_nat ?n))"
    "stored (mem s) (a + 8) (concat (map entry_bytes (?mk 0 xs @ e # es)))"
    "stored (mem s) (a + 8 + of_nat (40 * ?n)) (concat (map snd ?all))"
    using assms(1) tab [OF named] lens unfolding archive_def es
    by (simp_all only: stored_append hdr) (simp_all add: add.assoc)
  define t where "t = s\<lparr>fs_file_count := of_nat ?n, fs_entries := a + 8, fs_data := a + 8 + of_nat (40 * ?n)\<rparr>"
  have dat: "ucast (of_nat ?n :: u32) * (40 :: u64) = of_nat (40 * ?n)"
    unfolding ucast_of_nat [OF assms(2)] by (simp only: of_nat_mult of_nat_numeral mult.commute)
  have init: "fs_init a s = Ok t"
    unfolding fs_init_mounts [OF st(1)] t_def dat ..
  have "fs_file_count t = of_nat ?n" by (simp add: t_def)
  then have cnt: "unat (fs_file_count t) = ?n" by (simp only: unat_of_nat32 [OF assms(2)])
  have "set (map ie_name (?mk 0 xs)) = set (map entry_name_of (map fst xs))"
    by (subst make_entries_names) simp_all
  then have fresh: "ie_name e \<notin> ie_name ` set (?mk 0 xs)" using assms(4) by (simp add: e_def image_image)
  have st2: "stored (mem t) (a + 8) (concat (map entry_bytes (?mk 0 xs @ e # es)))"
    using st(2) by (simp add: t_def)
  note hit = fs_read_loop_hit [OF st2 named fresh, unfolded lens len]
  let ?e = "a + of_nat (8 + 40 * length xs)"
  have read: "fs_read (\<lambda>i. entry_name_of path ! i) t = ?e"
    using hit(1) cnt by (simp add: fs_read_def t_def e_def add.assoc)
  have entry: "stored (mem t) ?e (entry_bytes e)" using hit(2) by (simp add: add.assoc)
  have name: "length (ie_name e) = 32" by (simp add: e_def length_entry_name)
  have off: "?off < 4294967296" using assms(3) by (simp add: offset_of_append)
  have "stored (mem s) (a + 8 + of_nat (40 * ?n) + of_nat ?off) contents"
    using st(3) by (simp add: stored_append length_contents)
  moreover have data: "fs_get_data ?e t = a + of_nat (8 + 40 * ?n + ?off)"
    using stored_entry(1) [OF entry name] off by (simp add: fs_get_data_def t_def e_def ucast_of_nat)
  ultimately have cont: "stored (mem t) (fs_get_data ?e t) contents" by (simp add: t_def add.assoc)
  have nm: "stored (mem t) ?e (entry_name_of path)"
    using entry by (simp add: entry_bytes_def stored_append e_def)
  have size: "entry_size (mem t) ?e = of_nat (length contents)"
    using stored_entry(2) [OF entry name] by (simp add: e_def)
  show thesis
    by (rule that [OF init _ read size cont data nm]) (simp_all only: t_def, simp, blast)
qed

lemma archive_absent:
  fixes s :: "'a fs_scheme"
  assumes "stored (mem s) a (archive fs)" and "length fs < 4294967296"
    and "length q = 32" and "q \<notin> entry_name_of ` fst ` set fs"
  shows "\<exists>t. fs_init a s = Ok t \<and> fs_read (\<lambda>i. q ! i) t = 0"
proof -
  let ?es = "make_entries 0 (map fst fs) (map (length \<circ> snd) fs)"
  have names: "map ie_name ?es = map entry_name_of (map fst fs)" by (rule make_entries_names) simp
  then have len: "length ?es = length fs" by (metis length_map)
  have "set (map ie_name ?es) = set (map entry_name_of (map fst fs))" by (simp only: names)
  then have fresh: "q \<notin> ie_name ` set ?es" using assms(4) by (simp add: image_image)
  have hdr: "length (header_bytes n) = 8" for n by (simp add: header_bytes_def cstr_def)
  have st: "stored (mem s) a (header_bytes (of_nat (length fs)))" "stored (mem s) (a + 8) (concat (map entry_bytes ?es))"
    using assms(1) unfolding archive_def by (simp_all add: stored_append hdr)
  let ?t = "s\<lparr>fs_file_count := of_nat (length fs), fs_entries := a + 8,
    fs_data := a + 8 + ucast (of_nat (length fs) :: u32) * 40\<rparr>"
  have "fs_read (\<lambda>i. q ! i) ?t = 0"
    using fs_read_loop_skip [of ?t "a + 8" ?es q 0] st(2) make_entries_named assms(2,3) fresh len
    by (simp add: fs_read_def unat_of_nat32)
  with fs_init_mounts [OF st(1)] show ?thesis by auto
qed

section \<open>Properties\<close>

text \<open>
  C17: what the tool packs, the kernel finds: if \<open>pack_initrd\<close> succeeds and its output is in
  memory when the kernel mounts it, then looking up the (31 bytes of the) base name of an input
  gives an entry whose size is that of the input and whose data are its bytes, provided no
  earlier input has the same name and the archive is smaller than 4 GiB.
\<close>

theorem initrd_round_trip:
  fixes s :: "'a fs_scheme"
  assumes "pack_main files True (prog # out # ps @ path # qs) = (0, Some img)"
    and "files path = Some contents" and "stored (mem s) a img"
    and "length (ps @ path # qs) < 4294967296"
    and "offset_of (inputs_of files (ps @ path # qs)) < 4294967296"
    and "entry_name_of path \<notin> entry_name_of ` set ps"
  shows "\<exists>t e. fs_init a s = Ok t \<and> fs_read (\<lambda>i. entry_name_of path ! i) t = e
    \<and> e = a + of_nat (8 + 40 * length ps) \<and> unat (entry_size (mem t) e) = length contents
    \<and> stored (mem t) (fs_get_data e t) contents"
proof -
  let ?xs = "inputs_of files ps" and ?ys = "inputs_of files qs"
  have all: "inputs_of files (ps @ path # qs) = ?xs @ (path, contents) # ?ys"
    using assms(2) by (simp add: inputs_of_def)
  have st: "stored (mem s) a (archive (?xs @ (path, contents) # ?ys))"
    using pack_main_archive(1) [OF assms(1)] assms(3) by (simp add: all)
  have len: "length ?xs = length ps" "fst ` set ?xs = set ps" by (force simp: inputs_of_def)+
  have cnt: "length (?xs @ (path, contents) # ?ys) < 4294967296"
    using assms(4) by (simp add: inputs_of_def)
  have "length contents < 4294967296" using assms(5) by (simp add: all offset_of_append)
  then have "unat (of_nat (length contents) :: u32) = length contents" by (rule unat_of_nat32)
  moreover obtain t where "fs_init a s = Ok t"
    "fs_read (\<lambda>i. entry_name_of path ! i) t = a + of_nat (8 + 40 * length ps)"
    "entry_size (mem t) (a + of_nat (8 + 40 * length ps)) = of_nat (length contents)"
    "stored (mem t) (fs_get_data (a + of_nat (8 + 40 * length ps)) t) contents"
    using archive_lookup [OF st cnt] assms(5,6) unfolding all len by blast
  ultimately show ?thesis by (intro exI conjI; assumption?) simp_all
qed

definition example_files :: "u8 list \<Rightarrow> u8 list option" where
  "example_files = (\<lambda>p. if p = cstr ''initrd/doom.txt'' then Some (cstr ''DOOM'') else None)"

definition example_image :: "u8 list" where
  "example_image = header_bytes 1 @ cstr ''doom.txt'' @ replicate 24 0 @ [0, 0, 0, 0, 4, 0, 0, 0] @ cstr ''DOOM''"

definition example_fs :: fs where
  "example_fs = tasks.extend (example_tasks\<lparr>mem := (\<lambda>x. if unat (x - 0x500000) < 52 then example_image ! unat (x - 0x500000) else 0)\<rparr>)
     \<lparr>fs_entries = 0, fs_data = 0, fs_file_count = 0\<rparr>"

lemma zeros: "replicate 23 0 @ [0] = replicate 24 (0 :: u8)"
  by (simp add: replicate_append_same flip: replicate_Suc)

lemma example_pack:
  "pack_main example_files True [cstr ''pack'', cstr ''initrd.bin'', cstr ''initrd/doom.txt''] = (0, Some example_image)"
  by (simp add: pack_main_def example_files_def example_image_def entry_bytes_def bytes32_def entry_zeroed_def
      strncpy_def base_of_def strrchr_def cstr_def zeros)

lemma example_fs_stored: "stored (mem example_fs) 0x500000 example_image"
proof -
  have "length example_image = 52" by (simp add: example_image_def header_bytes_def bytes32_def cstr_def)
  moreover have "unat (of_nat i :: u64) = i" if "i < 52" for i
    using that by (simp add: unat_of_nat take_bit_nat_eq_self)
  ultimately show ?thesis by (auto simp: stored_def example_fs_def tasks.defs)
qed

theorem initrd_round_trip_witness:
  "\<exists>t e. fs_init 0x500000 example_fs = Ok t \<and> fs_read (\<lambda>i. (cstr ''doom.txt'' @ replicate 24 0) ! i) t = e
    \<and> e = 0x500008 \<and> unat (entry_size (mem t) e) = 4 \<and> stored (mem t) (fs_get_data e t) (cstr ''DOOM'')"
proof -
  have name: "entry_name_of (cstr ''initrd/doom.txt'') = cstr ''doom.txt'' @ replicate 24 0"
    by (simp add: entry_name_of_def strncpy_def base_of_def strrchr_def cstr_def zeros)
  have "\<exists>t e. fs_init 0x500000 example_fs = Ok t \<and> fs_read (\<lambda>i. entry_name_of (cstr ''initrd/doom.txt'') ! i) t = e
    \<and> e = 0x500000 + of_nat (8 + 40 * length ([] :: u8 list list)) \<and> unat (entry_size (mem t) e) = length (cstr ''DOOM'')
    \<and> stored (mem t) (fs_get_data e t) (cstr ''DOOM'')"
    by (rule initrd_round_trip [where files = example_files and img = example_image and qs = "[]"
          and prog = "cstr ''pack''" and out = "cstr ''initrd.bin''"])
      (simp_all add: example_pack example_fs_stored inputs_of_def, simp_all add: example_files_def cstr_def)
  moreover have "length (cstr ''DOOM'') = 4" by (simp add: cstr_def)
  ultimately show ?thesis by (simp add: name)
qed

text \<open>
  Looking up a name that no packed file has gives NULL, after the same mount.
\<close>

theorem initrd_absent_is_null:
  fixes s :: "'a fs_scheme"
  assumes "pack_main files True (prog # out # paths) = (0, Some img)" and "stored (mem s) a img"
    and "length paths < 4294967296" and "length q = 32" and "q \<notin> entry_name_of ` set paths"
  shows "\<exists>t. fs_init a s = Ok t \<and> fs_read (\<lambda>i. q ! i) t = 0"
proof (rule archive_absent)
  show "stored (mem s) a (archive (inputs_of files paths))"
    using pack_main_archive(1) [OF assms(1)] assms(2) by simp
  have "fst ` set (inputs_of files paths) = set paths" by (force simp: inputs_of_def)
  then show "q \<notin> entry_name_of ` fst ` set (inputs_of files paths)" using assms(5) by simp
qed (use assms in \<open>simp_all add: inputs_of_def\<close>)

theorem initrd_absent_is_null_witness:
  "\<exists>t. fs_init 0x500000 example_fs = Ok t \<and> fs_read (\<lambda>i. (cstr ''quake.txt'' @ replicate 23 0) ! i) t = 0"
proof (rule initrd_absent_is_null [OF example_pack example_fs_stored])
  have "entry_name_of (cstr ''initrd/doom.txt'') = cstr ''doom.txt'' @ replicate 24 0"
    by (simp add: entry_name_of_def strncpy_def base_of_def strrchr_def cstr_def zeros)
  then show "cstr ''quake.txt'' @ replicate 23 0 \<notin> entry_name_of ` set [cstr ''initrd/doom.txt'']"
    by (simp add: cstr_def)
qed (simp_all add: cstr_def)

end
