(* ===== verification/Syscall.thy ===== *)
theory Syscall
  imports Fs
begin

text \<open>
  System calls: \<open>kernel/arch/x86_64/syscalls/syscall.c\<close>. The handler reads the user's
  registers from the saved frame and answers in it; \<open>saved_kernel_rsp\<close> is the variable of
  \<open>switch_ring.asm\<close>. The lemmas show that \<open>write\<close> prints bytes of user memory only, and that
  \<open>exit\<close> leads back into the kernel.
\<close>

section \<open>The code\<close>

record sys = fs +
  resume_kernel_func :: u64
  saved_kernel_rsp :: u64

definition USER_CODE_BASE :: u64 where
  "USER_CODE_BASE = 0x400000"

definition USER_STACK_TOP :: u64 where
  "USER_STACK_TOP = 0x800000"

definition SYS_WRITE :: int where
  "SYS_WRITE = 1"

definition SYS_EXIT :: int where
  "SYS_EXIT = 60"

definition syscall_init :: "u64 \<Rightarrow> 'a sys_scheme \<Rightarrow> 'a sys_scheme" where
  "syscall_init resume_func s =
     register_interrupt_handler 128 Syscall_handler (s\<lparr>resume_kernel_func := resume_func\<rparr>)"

text \<open>
  \<open>int syscall_num = frame->rax\<close> keeps the low 32 bits. The exit code is passed to \<open>printf\<close>
  as an \<open>int\<close>, see \<open>int_slot\<close>.
\<close>

definition syscall_handler ::
  "u32 \<Rightarrow> interrupt_frame \<Rightarrow> 'a sys_scheme \<Rightarrow> (interrupt_frame \<times> 'a sys_scheme) outcome" where
  "syscall_handler upper frame s =
     (let syscall_num = sint (ucast (fr_rax frame) :: u32) in
      if syscall_num = SYS_WRITE then
        let buf = fr_rdi frame; len = fr_rsi frame
        in if fr_rdi frame < USER_CODE_BASE \<or> fr_rdi frame \<ge> USER_STACK_TOP
             \<or> fr_rsi frame > USER_STACK_TOP - fr_rdi frame
           then Ok (frame\<lparr>fr_rax := - 1\<rparr>, s)
           else map_outcome (Pair (frame\<lparr>fr_rax := len\<rparr>))
             (bind_ok (say ''[syscall] '' [] s)
               (\<lambda>s. Ok (terminal_write (\<lambda>t i. mem t (buf + of_nat i)) len s)))
      else if syscall_num = SYS_EXIT then
        map_outcome (\<lambda>s. (frame\<lparr>fr_rip := resume_kernel_func s, fr_cs := 0x08, fr_ss := 0x10,
            fr_rsp := saved_kernel_rsp s, fr_rflags := 0x202\<rparr>, s))
          (say ''[syscall] user programm exited with code: %d\<newline>''
            [int_slot upper (sint (ucast (fr_rdi frame) :: u32))] s)
      else map_outcome (Pair frame) (say ''[syscall] got a syscall, resuming execution'' [] s))"

section \<open>Printing from user memory\<close>

lemma frame_mem: "tty_frame s t \<Longrightarrow> x \<notin> vga_region \<Longrightarrow> mem t x = mem s x"
  by (auto simp: tty_frame_def)

lemma terminal_write_bytes:
  fixes s :: "'a tty_scheme"
  assumes "tty_inv s" and "\<And>i. i < unat len \<Longrightarrow> a + of_nat i \<notin> vga_region"
  shows "terminal_write (\<lambda>t i. mem t (a + of_nat i)) len s
    = put_chars (map (\<lambda>i. mem s (a + of_nat i)) [0..<unat len]) s"
proof -
  have "fold (\<lambda>i t. terminal_put_char (mem t (a + of_nat i)) t) [0..<n] s
      = put_chars (map (\<lambda>i. mem s (a + of_nat i)) [0..<n]) s" if "n \<le> unat len" for n
    using that
  proof (induction n)
    case (Suc n)
    let ?t = "put_chars (map (\<lambda>i. mem s (a + of_nat i)) [0..<n]) s"
    have "mem ?t (a + of_nat n) = mem s (a + of_nat n)"
      by (rule frame_mem [OF put_chars_frame [OF assms(1)]]) (use assms(2) Suc.prems in simp)
    with Suc show ?case by (simp add: put_chars_append put_chars_Cons)
  qed simp
  then show ?thesis by (simp add: terminal_write_def)
qed

lemma user_not_screen:
  assumes "0x400000 \<le> a" and "a < 0x800000" and "n \<le> 0x800000 - a" and "i < unat n"
  shows "a + of_nat i \<notin> vga_region"
proof -
  have le: "unat a < 0x800000" "unat n \<le> 0x800000 - unat a" "0x400000 \<le> unat a"
    using assms(1-3) unat_minus_le [of a "0x800000"] by (simp_all add: word_less_nat_alt word_le_nat_alt)
  then have "unat (of_nat i :: u64) = i" using assms(4) by (simp add: unat_of_nat take_bit_nat_eq_self)
  then have "unat (a + of_nat i) = unat a + i"
    using le assms(4) by (subst unat_plus_no_wrap) simp_all
  then show ?thesis
    using le by (simp add: vga_region_def region_interval VGA_def)
qed

text \<open>The two halves of a variadic slot that holds an \<open>int\<close>.\<close>

lemma int_slot_min:
  fixes low :: u32
  assumes "int_slot upper (sint low) = Slot v" and "upper \<noteq> 0x80000000 \<or> low \<noteq> 0"
  shows "sint v \<noteq> INT64_MIN"
proof -
  have v: "v = push_bit 32 (ucast upper) OR ucast low" using assms(1) by (simp add: int_slot_def)
  have "take_bit 32 v = ucast low" unfolding v by (rule bit_word_eqI) (auto simp: bit_simps dest: bit_imp_le_length)
  moreover have "drop_bit 32 v = ucast upper" unfolding v by (rule bit_word_eqI) (auto simp: bit_simps dest: bit_imp_le_length)
  moreover have "ucast (ucast x :: u64) = x" for x :: u32 by (rule bit_word_eqI) (auto simp: bit_simps)
  ultimately have "ucast (take_bit 32 v) = low" "ucast (drop_bit 32 v) = upper" by simp_all
  moreover have "ucast (take_bit 32 (0x8000000000000000 :: u64)) = (0 :: u32)"
    "ucast (drop_bit 32 (0x8000000000000000 :: u64)) = (0x80000000 :: u32)" by simp_all
  ultimately show ?thesis using assms(2) by (auto simp: sint_min_iff)
qed

section \<open>The two calls\<close>

lemma syscall_write:
  assumes "tty_inv s" and "(ucast (fr_rax frame) :: u32) = 1"
  shows "syscall_handler upper frame s =
    (if 0x400000 \<le> fr_rdi frame \<and> fr_rdi frame < 0x800000 \<and> unat (fr_rdi frame) + unat (fr_rsi frame) \<le> 0x800000
     then Ok (frame\<lparr>fr_rax := fr_rsi frame\<rparr>,
       put_chars (cstr ''[syscall] '' @ map (\<lambda>i. mem s (fr_rdi frame + of_nat i)) [0..<unat (fr_rsi frame)]) s)
     else Ok (frame\<lparr>fr_rax := - 1\<rparr>, s))"
proof -
  let ?a = "fr_rdi frame" and ?n = "fr_rsi frame"
  have num: "sint (ucast (fr_rax frame) :: u32) = SYS_WRITE" by (simp add: assms(2) SYS_WRITE_def)
  have fits: "\<not> (?a < USER_CODE_BASE \<or> ?a \<ge> USER_STACK_TOP \<or> ?n > USER_STACK_TOP - ?a)
      \<longleftrightarrow> 0x400000 \<le> ?a \<and> ?a < 0x800000 \<and> unat ?a + unat ?n \<le> 0x800000"
    using unat_minus_le [of ?a "0x800000"]
    by (auto simp: USER_CODE_BASE_def USER_STACK_TOP_def word_less_nat_alt word_le_nat_alt)
  show ?thesis
  proof (cases "0x400000 \<le> ?a \<and> ?a < 0x800000 \<and> unat ?a + unat ?n \<le> 0x800000")
    case True
    have pre: "say ''[syscall] '' [] s = Ok (put_chars (cstr ''[syscall] '') s)"
      by (rule say_literal) (simp_all add: cstr_def)
    let ?s = "put_chars (cstr ''[syscall] '') s"
    have inv: "tty_inv ?s" by (rule put_chars_inv [OF assms(1)])
    have le: "?n \<le> 0x800000 - ?a"
      using True fits by (auto simp: USER_STACK_TOP_def)
    have out: "?a + of_nat i \<notin> vga_region" if "i < unat ?n" for i
      using user_not_screen [OF _ _ le that] True by simp
    have "mem ?s (?a + of_nat i) = mem s (?a + of_nat i)" if "i < unat ?n" for i
      by (rule frame_mem [OF put_chars_frame [OF assms(1)] out [OF that]])
    then have "map (\<lambda>i. mem ?s (?a + of_nat i)) [0..<unat ?n] = map (\<lambda>i. mem s (?a + of_nat i)) [0..<unat ?n]"
      by simp
    with terminal_write_bytes [OF inv out, where len = ?n]
    have "terminal_write (\<lambda>t i. mem t (?a + of_nat i)) ?n ?s
        = put_chars (map (\<lambda>i. mem s (?a + of_nat i)) [0..<unat ?n]) ?s" by (simp only:)
    with True fits show ?thesis
      unfolding syscall_handler_def num Let_def by (simp add: pre put_chars_append)
  qed (use fits in \<open>auto simp: syscall_handler_def num Let_def\<close>)
qed

lemma syscall_exit:
  assumes "tty_inv s" and "(ucast (fr_rax frame) :: u32) = 60"
    and "upper \<noteq> 0x80000000 \<or> (ucast (fr_rdi frame) :: u32) \<noteq> 0"
  shows "\<exists>t. syscall_handler upper frame s
      = Ok (frame\<lparr>fr_rip := resume_kernel_func s, fr_cs := 0x08, fr_ss := 0x10,
          fr_rsp := saved_kernel_rsp s, fr_rflags := 0x202\<rparr>, t) \<and> tty_inv t \<and> tty_frame s t"
proof -
  let ?low = "ucast (fr_rdi frame) :: u32"
  obtain v where v: "int_slot upper (sint ?low) = Slot v" by (simp add: int_slot_def)
  have min: "sint v \<noteq> INT64_MIN" by (rule int_slot_min [OF v assms(3)])
  have "prints s (say ''[syscall] user programm exited with code: %d\<newline>'' [int_slot upper (sint ?low)] s)"
    by (rule prints_say(1), simp add: cstr_def, use min in \<open>simp add: cstr_def v\<close>,
        use decimal_text_length [OF min] in simp)
  then obtain t where t: "say ''[syscall] user programm exited with code: %d\<newline>'' [int_slot upper (sint ?low)] s = Ok t"
    "tty_inv t" "tty_frame s t" by (rule prints_stays [OF _ assms(1)])
  have "resume_kernel_func t = resume_kernel_func s" "saved_kernel_rsp t = saved_kernel_rsp s"
    using t(3) by (auto simp: tty_frame_def)
  with t show ?thesis
    using assms(2) by (simp add: syscall_handler_def SYS_WRITE_def SYS_EXIT_def)
qed

section \<open>Properties\<close>

text \<open>
  C18: the \<open>write\<close> system call confines the user to its own memory: a range inside user space
  is printed byte for byte after the prefix, and its length returned; for any other pointer or
  length, however large, nothing is printed and the call returns -1. In both cases no other
  register of the user changes.
\<close>

theorem syscall_write_confined:
  assumes "tty_inv s" and "(ucast (fr_rax frame) :: u32) = 1"
  shows "syscall_handler upper frame s =
    (if 0x400000 \<le> fr_rdi frame \<and> fr_rdi frame < 0x800000 \<and> unat (fr_rdi frame) + unat (fr_rsi frame) \<le> 0x800000
     then Ok (frame\<lparr>fr_rax := fr_rsi frame\<rparr>,
       put_chars (cstr ''[syscall] '' @ map (\<lambda>i. mem s (fr_rdi frame + of_nat i)) [0..<unat (fr_rsi frame)]) s)
     else Ok (frame\<lparr>fr_rax := - 1\<rparr>, s))"
  using assms by (rule syscall_write)

definition example_sys :: sys where
  "example_sys = fs.extend (tasks.extend example_tasks \<lparr>fs_entries = 0, fs_data = 0, fs_file_count = 0\<rparr>)
     \<lparr>resume_kernel_func = 0x100400, saved_kernel_rsp = 0x90000\<rparr>"

lemma example_sys_inv: "tty_inv example_sys"
  by (simp add: example_sys_def fs.defs tasks.defs example_tasks_def tty_inv_def VGA_WIDTH_def VGA_HEIGHT_def)

theorem syscall_write_confined_witness:
  "syscall_handler 0 (example_frame\<lparr>fr_rax := 1, fr_rdi := 0x7FFFFF, fr_rsi := 2\<rparr>) example_sys
    = Ok (example_frame\<lparr>fr_rax := - 1, fr_rdi := 0x7FFFFF, fr_rsi := 2\<rparr>, example_sys)"
  using syscall_write_confined [OF example_sys_inv, where upper = 0
      and frame = "example_frame\<lparr>fr_rax := 1, fr_rdi := 0x7FFFFF, fr_rsi := 2\<rparr>"] by simp

text \<open>
  the \<open>exit\<close> system call leads back into the kernel: whatever the user put in its
  registers, the frame continues at the registered address with the ring 0 segments, the saved
  kernel stack and interrupts enabled, and only the screen has changed. (If the open half of the
  variadic slot makes the printed number the smallest 64-bit integer, the behaviour is undefined.)
\<close>

theorem syscall_exit_returns_to_kernel:
  assumes "tty_inv s" and "(ucast (fr_rax frame) :: u32) = 60"
    and "upper \<noteq> 0x80000000 \<or> (ucast (fr_rdi frame) :: u32) \<noteq> 0"
  shows "\<exists>t. syscall_handler upper frame s
      = Ok (frame\<lparr>fr_rip := resume_kernel_func s, fr_cs := 0x08, fr_ss := 0x10,
          fr_rsp := saved_kernel_rsp s, fr_rflags := 0x202\<rparr>, t) \<and> tty_inv t \<and> tty_frame s t"
  using assms by (rule syscall_exit)

theorem syscall_exit_returns_to_kernel_witness:
  "\<exists>t. syscall_handler 0 (example_frame\<lparr>fr_rax := 60\<rparr>) example_sys
      = Ok (example_frame\<lparr>fr_rax := 60, fr_rip := 0x100400, fr_cs := 0x08, fr_ss := 0x10,
          fr_rsp := 0x90000, fr_rflags := 0x202\<rparr>, t) \<and> tty_inv t"
proof -
  have "resume_kernel_func example_sys = 0x100400" "saved_kernel_rsp example_sys = 0x90000"
    by (simp_all add: example_sys_def fs.defs)
  with syscall_exit_returns_to_kernel [OF example_sys_inv, where upper = 0
      and frame = "example_frame\<lparr>fr_rax := 60\<rparr>"] show ?thesis by auto
qed

end
