(* ===== verification/Kernel.thy ===== *)
theory Kernel
  imports Memory_Init Idt Gdt Task_Reap Timer Pack_Initrd Syscall
begin

text \<open>
  The kernel proper: \<open>kernel/kernel/kernel.c\<close> and the user program of
  \<open>kernel/kernel/user_code.c\<close>. The table of handler names of \<open>Isr\<close> is given its meaning, the
  boot functions are composed as \<open>kernel_main\<close> does.
\<close>

section \<open>State and environment\<close>

record kernel = sys +
  k_gdt :: gdt_state
  k_idt :: idt
  k_idtr :: idtr

text \<open>
  What the program does not decide itself: the devices, the open half of variadic \<open>int\<close>
  slots, the register \<open>cr2\<close>, and the addresses the linker and the assembly files provide.
\<close>

record board =
  devices :: device
  slot_upper :: u32
  cr2 :: u64
  gdt_addr :: u64
  tss_addr :: u64
  kernel_stack_top :: u64
  idt_addr :: u64
  isr_stub :: "nat \<Rightarrow> u64"
  irq_stub :: "nat \<Rightarrow> u64"
  isr128_stub :: u64
  kernel_end_addr :: u64
  user_text_start :: u64
  user_text_end :: u64
  user_entry :: u64
  resume_kernel :: u64

section \<open>Interrupts\<close>

definition breakpoint_handler :: "interrupt_frame \<Rightarrow> 'a tty_scheme \<Rightarrow> 'a tty_scheme outcome" where
  "breakpoint_handler frame s = say ''[handler] breakpoint caught, resuming execution\<newline>'' [] s"

definition register_breakpoint_handler :: "'a isr_scheme \<Rightarrow> 'a isr_scheme" where
  "register_breakpoint_handler s = register_interrupt_handler 3 Breakpoint_handler s"

fun of_sum :: "c_error + 'r \<Rightarrow> 'r outcome" where
  "of_sum (Inl e) = UB e"
| "of_sum (Inr r) = Ok r"

text \<open>The functions behind the names in the handler table.\<close>

fun call_handler :: "board \<Rightarrow> 'a sys_scheme handler_call" where
  "call_handler b Breakpoint_handler frame s = map_outcome (Pair frame) (breakpoint_handler frame s)"
| "call_handler b Keyboard_handler frame s = Ok (frame, keyboard_handler (devices b) frame s)"
| "call_handler b Pit_handler frame s = of_sum (pit_handler frame s)"
| "call_handler b Syscall_handler frame s = syscall_handler (slot_upper b) frame s"

text \<open>
  The path of an interrupt through the gates and stubs of \<open>idt_asm.asm\<close>: interrupts are off
  in the handler, the stub pushes the number and, where the CPU does not push an error code,
  a 0 in its place, and \<open>iretq\<close> takes the flags from the frame.
\<close>

definition pushes_error :: "u64 \<Rightarrow> bool" where
  "pushes_error n \<longleftrightarrow> n \<in> {8, 10, 11, 12, 13, 14, 17, 30}"

definition iretq :: "interrupt_frame \<times> 'a machine_scheme \<Rightarrow> (interrupt_frame \<times> 'a machine_scheme) outcome" where
  "iretq r = (case r of (frame, s) \<Rightarrow> Ok (frame, s\<lparr>if_flag := bit (fr_rflags frame) 9\<rparr>))"

definition isr_stub_run ::
  "board \<Rightarrow> u64 \<Rightarrow> interrupt_frame \<Rightarrow> 'a sys_scheme \<Rightarrow> (interrupt_frame \<times> 'a sys_scheme) outcome" where
  "isr_stub_run b n frame s =
     bind_ok (isr_handler (call_handler b) (slot_upper b) (cr2 b)
       (frame\<lparr>fr_int_no := n, fr_err_code := (if pushes_error n then fr_err_code frame else 0)\<rparr>) (cli s)) iretq"

definition irq_stub_run ::
  "board \<Rightarrow> u64 \<Rightarrow> interrupt_frame \<Rightarrow> 'a sys_scheme \<Rightarrow> (interrupt_frame \<times> 'a sys_scheme) outcome" where
  "irq_stub_run b n frame s =
     bind_ok (irq_handler (call_handler b) (frame\<lparr>fr_int_no := 32 + n, fr_err_code := 0\<rparr>) (cli s)) iretq"

text \<open>
  Before that path the CPU looks for a gate: the table register has to point to the table and
  to cover the vector, and the gate has to be present. The frame it pushes has its own
  interrupt flag in bit 9 of the flags.
\<close>

definition idt_entry :: "board \<Rightarrow> nat \<Rightarrow> 'a kernel_scheme \<Rightarrow> (u64 \<times> u16 \<times> u8) option" where
  "idt_entry b v s =
     (if idtr_base (k_idtr s) = idt_addr b \<and> 16 * v + 15 \<le> unat (idtr_limit (k_idtr s)) \<and> v < length (k_idt s)
      then gate (k_idt s ! v) else None)"

definition pushed_frame :: "interrupt_frame \<Rightarrow> 'a machine_scheme \<Rightarrow> interrupt_frame" where
  "pushed_frame frame s =
     frame\<lparr>fr_rflags := (if if_flag s then fr_rflags frame OR 0x200 else fr_rflags frame AND NOT 0x200)\<rparr>"

text \<open>The instruction \<open>int3\<close>, executed with the given registers.\<close>

definition int3 :: "board \<Rightarrow> interrupt_frame \<Rightarrow> 'a kernel_scheme \<Rightarrow> 'a kernel_scheme outcome" where
  "int3 b frame s =
     (case idt_entry b 3 s of
        None \<Rightarrow> UB No_gate
      | Some (handler, selector, dpl) \<Rightarrow>
          if handler = isr_stub b 3 \<and> selector = 0x08 then map_outcome snd (isr_stub_run b 3 (pushed_frame frame s) s)
          else UB No_gate)"

text \<open>The CPU continues where it was interrupted.\<close>

definition resumes :: "interrupt_frame \<Rightarrow> interrupt_frame \<Rightarrow> bool" where
  "resumes frame frame' \<longleftrightarrow>
     frame'\<lparr>fr_int_no := 0, fr_err_code := 0\<rparr> = frame\<lparr>fr_int_no := 0, fr_err_code := 0\<rparr>"

text \<open>
  A request on line \<open>n\<close> of the interrupt controllers that finds the CPU in \<open>hlt\<close> with the
  given registers. With interrupts disabled or the line masked nothing happens. Otherwise the
  controller supplies the vector and the gate of that vector is taken. \<open>None\<close>: control does
  not come back to the waiting code, because the gate leads elsewhere or because the handler
  returned into another task.
\<close>

definition hw_irq :: "board \<Rightarrow> nat \<Rightarrow> interrupt_frame \<Rightarrow> 'a kernel_scheme \<Rightarrow> 'a kernel_scheme option" where
  "hw_irq b n frame s =
     (case if if_flag s then request_vector (io_log s) n else None of
        None \<Rightarrow> Some s
      | Some vector \<Rightarrow>
          (case idt_entry b vector s of
             None \<Rightarrow> None
           | Some (handler, selector, dpl) \<Rightarrow>
               if handler = irq_stub b n \<and> selector = 0x08 then
                 (case irq_stub_run b (of_nat n) (pushed_frame frame s) s of
                    Ok (frame', t) \<Rightarrow> if resumes (pushed_frame frame s) frame' then Some t else None
                  | _ \<Rightarrow> None)
               else None))"

section \<open>Test tasks\<close>

fun say_times :: "nat \<Rightarrow> string \<Rightarrow> 'a tty_scheme \<Rightarrow> 'a tty_scheme outcome" where
  "say_times 0 fmt s = Ok s"
| "say_times (Suc n) fmt s = bind_ok (say fmt [] s) (say_times n fmt)"

definition task_a :: "'a tasks_scheme \<Rightarrow> 'a tasks_scheme outcome" where
  "task_a s = bind_ok (say_times 20 ''A'' s) (\<lambda>s. of_sum (task_exit s))"

definition task_b :: "'a tasks_scheme \<Rightarrow> 'a tasks_scheme outcome" where
  "task_b s = bind_ok (say_times 20 ''B'' s) (\<lambda>s. of_sum (task_exit s))"

section \<open>Boot functions\<close>

text \<open>
  \<open>None\<close>: the code waits for an interrupt that does not come, or an interrupt does not come
  back. Interrupts that arrive while the code waits in \<open>hlt\<close> are a list of their effects.
\<close>

fun and_then :: "'s outcome option \<Rightarrow> ('s \<Rightarrow> 's outcome option) \<Rightarrow> 's outcome option" where
  "and_then None f = None"
| "and_then (Some (Ok s)) f = f s"
| "and_then (Some (Halt s)) f = Some (Halt s)"
| "and_then (Some (Nested s)) f = Some (Nested s)"
| "and_then (Some (UB e)) f = Some (UB e)"

definition terminal_kernel :: "'a tty_scheme \<Rightarrow> 'a tty_scheme outcome" where
  "terminal_kernel s =
     say ''[terminal] cursors and color set, buffer set to VGA and screen cleared\<newline>'' [] (terminal_init s)"

definition gdt_kernel :: "board \<Rightarrow> 'a kernel_scheme \<Rightarrow> 'a kernel_scheme outcome" where
  "gdt_kernel b s =
     bind_ok (say ''******GDT & TSS******\<newline>'' [] s)
       (\<lambda>s. say ''[gdt & tss] GDT and TSS successfully loaded\<newline>'' []
          (s\<lparr>k_gdt := init_gdt (gdt_addr b) (tss_addr b) (kernel_stack_top b)\<rparr>))"

definition interrupt_kernel :: "board \<Rightarrow> interrupt_frame \<Rightarrow> 'a kernel_scheme \<Rightarrow> 'a kernel_scheme outcome" where
  "interrupt_kernel b frame s =
     bind_ok (bind_ok (bind_ok (bind_ok (say ''******INTERRUPTS******\<newline>'' [] s)
       (\<lambda>s. let (tab, reg) = idt_init (idt_addr b) (isr_stub b) (irq_stub b) (isr128_stub b) (k_idt s);
                s1 = s\<lparr>k_idt := tab, k_idtr := reg\<rparr>;
                s2 = sti (pic_remap (devices b) 0x20 0x28 s1)
            in say ''[interrupts] IDT loaded, PIC remapped, interrupts enabled\<newline>'' [] s2))
       (\<lambda>s. say ''[test] triggering breakpoint\<newline>'' [] (register_breakpoint_handler s)))
       (int3 b frame))
       (say ''[test] we are still alive (no kernel panic)\<newline>'' [])"

text \<open>The loop of \<open>keyboard_kernel\<close>.\<close>

partial_function (option) typing_loop ::
  "('a kbd_scheme \<Rightarrow> 'a kbd_scheme option) list \<Rightarrow> 'a kbd_scheme \<Rightarrow> 'a kbd_scheme option" where
  "typing_loop irqs s =
     Option.bind (keyboard_get_key irqs s)
       (\<lambda>(typed, s1, rest).
          let s2 = terminal_put_char typed s1
          in if typed \<noteq> 27 then typing_loop rest s2 else Some s2)"

definition keyboard_kernel ::
  "board \<Rightarrow> ('a kernel_scheme \<Rightarrow> 'a kernel_scheme option) list \<Rightarrow> 'a kernel_scheme \<Rightarrow>
    'a kernel_scheme outcome option" where
  "keyboard_kernel b irqs s =
     and_then (and_then
       (Some (bind_ok (bind_ok (bind_ok (say ''******KEYBOARD******\<newline>'' [] s)
          (\<lambda>s. of_sum (keyboard_init (devices b) s)))
          (say ''[keyboard] irq1 registered\<newline>'' []))
          (say ''[test] type something and press escape to stop\<newline>'' [])))
       (\<lambda>s. map_option Ok (typing_loop irqs s)))
       (\<lambda>s. Some (say ''\<newline>'' [] s))"

text \<open>The loop of \<open>timer_kernel\<close>.\<close>

fun tick_loop :: "u64 \<Rightarrow> ('a pit_scheme \<Rightarrow> 'a pit_scheme option) list \<Rightarrow> 'a pit_scheme \<Rightarrow> 'a pit_scheme option" where
  "tick_loop start irqs s =
     (if ticks s - start < 300 then
        (case irqs of
           [] \<Rightarrow> None
         | irq # rest \<Rightarrow> (case irq s of None \<Rightarrow> None | Some s1 \<Rightarrow> tick_loop start rest s1))
      else Some s)"

declare tick_loop.simps [simp del]

definition timer_kernel ::
  "board \<Rightarrow> ('a kernel_scheme \<Rightarrow> 'a kernel_scheme option) list \<Rightarrow> 'a kernel_scheme \<Rightarrow>
    'a kernel_scheme outcome option" where
  "timer_kernel b irqs s =
     and_then (and_then
       (Some (bind_ok (bind_ok (say ''******TIMER******\<newline>'' [] s)
          (\<lambda>s. of_sum (timer_init (devices b) 100 s)))
          (say ''[timer] timer pit initialized with 100hz\<newline>'' [])))
       (\<lambda>s. map_option Ok (tick_loop (ticks s) irqs s)))
       (\<lambda>s. Some (say ''[timer] 300 ticks passed (3 seconds) so the timer is alive!\<newline>'' [] s))"

definition memory_kernel :: "board \<Rightarrow> u64 \<Rightarrow> u64 \<Rightarrow> 'a heap_scheme \<Rightarrow> 'a heap_scheme outcome" where
  "memory_kernel b mmap_addr mmap_count s =
     bind_ok (bind_ok (bind_ok (say ''******MEMORY******\<newline>'' [] s)
       (say ''[memory] BIOS reported %d usable memory map entries\<newline>'' [Slot mmap_count]))
       (memory_init (kernel_end_addr b) mmap_addr (ucast mmap_count)))
       (say ''[memory] heap beginning and end was set\<newline>'' [])"

text \<open>A C string in memory, as \<open>%s\<close> reads it; \<open>None\<close> if it never ends.\<close>

definition c_string :: "memory \<Rightarrow> u64 \<Rightarrow> u8 list option" where
  "c_string m a = map_option (\<lambda>n. map (\<lambda>i. m (a + of_nat i)) [0..<unat n]) (strlen (\<lambda>i. m (a + i)))"

text \<open>The loop that prints a file; \<open>entry->size\<close> is read again in every round.\<close>

function print_file :: "u64 \<Rightarrow> u64 \<Rightarrow> u32 \<Rightarrow> 'a tty_scheme \<Rightarrow> 'a tty_scheme" where
  "print_file entry data i s =
     (if i < entry_size (mem s) entry
      then print_file entry data (i + 1) (terminal_put_char (mem s (data + ucast i)) s)
      else s)"
  by pat_completeness auto
termination
proof (relation "measure (\<lambda>(entry, data, i, s). 2 ^ 32 - unat i)")
  fix entry data :: u64 and i :: u32 and s :: "'a tty_scheme"
  assume "i < entry_size (mem s) entry"
  then have "unat i + 1 < 4294967296"
    using unsigned_less [of "entry_size (mem s) entry", where 'a = nat] by (simp add: word_less_nat_alt)
  then show "((entry, data, i + 1, terminal_put_char (mem s (data + ucast i)) s), entry, data, i, s)
      \<in> measure (\<lambda>(entry, data, i, s). 2 ^ 32 - unat i)"
    by (simp add: unat_word_ariths)
qed simp

declare print_file.simps [simp del]

definition filesystem_kernel :: "board \<Rightarrow> u64 \<Rightarrow> 'a fs_scheme \<Rightarrow> 'a fs_scheme outcome" where
  "filesystem_kernel b initrd_addr s =
     bind_ok (bind_ok (say ''******FILESYSTEM******\<newline>'' [] s) (fs_init initrd_addr))
       (\<lambda>s. let query = cstr ''doom.txt'' @ replicate 24 0;
                entry = fs_read (\<lambda>i. query ! i) s
            in if entry \<noteq> 0 then
                 (case c_string (mem s) entry of
                    None \<Rightarrow> UB Out_of_bounds
                  | Some name \<Rightarrow>
                      bind_ok (bind_ok (say ''[fs] %s with size = %x\<newline>''
                          [Str name, Slot (push_bit 32 (ucast (slot_upper b)) OR ucast (entry_size (mem s) entry))] s)
                        (\<lambda>s. let data = fs_get_data entry s in Ok (print_file entry data 0 s)))
                        (say ''\<newline>'' []))
               else say ''[fs] %s file not found\<newline>'' [Str query] s)"

definition tasks_kernel :: "'a pit_scheme \<Rightarrow> 'a pit_scheme outcome" where
  "tasks_kernel s =
     bind_ok (bind_ok (say ''******TASKS******\<newline>'' [] s)
       (say ''[tasks] created two test tasks which print A and B\<newline>'' []))
       (\<lambda>s. Ok (scheduler_enable s))"

text \<open>
  \<open>enter_user_mode\<close> of \<open>switch_ring.asm\<close>: the stack pointer after six pushes is remembered, and
  \<open>iretq\<close> starts the program with the given frame, interrupts enabled; \<open>rsp\<close>, \<open>rflags\<close> and
  \<open>regs\<close> are the registers at the call, \<open>program\<close> is what runs until the CPU is back at \<open>resume_kernel\<close>.
\<close>

definition enter_user_mode ::
  "u64 \<Rightarrow> u64 \<Rightarrow> interrupt_frame \<Rightarrow> (interrupt_frame \<Rightarrow> 'a sys_scheme \<Rightarrow> (interrupt_frame \<times> 'a sys_scheme) outcome) \<Rightarrow>
    u64 \<Rightarrow> u64 \<Rightarrow> u16 \<Rightarrow> u16 \<Rightarrow> 'a sys_scheme \<Rightarrow> 'a sys_scheme outcome" where
  "enter_user_mode rsp rflags regs program entry_point user_stack user_cs user_ds s =
     (let s1 = s\<lparr>saved_kernel_rsp := rsp - 6 * 8\<rparr>;
          rax = rflags OR 0x200;
          frame = regs\<lparr>fr_rax := rax, fr_rip := entry_point, fr_cs := ucast user_cs, fr_rflags := rax,
            fr_rsp := user_stack, fr_ss := ucast user_ds\<rparr>
      in map_outcome snd (bind_ok (iretq (frame, s1)) (\<lambda>(frame, s). program frame s)))"

text \<open>
  \<open>user\<close> is what happens between \<open>enter_user_mode\<close> and the jump back to
  \<open>resume_kernel\<close>: entry point, stack, code and data selector, then the state.
\<close>

definition user_mode_kernel ::
  "board \<Rightarrow> (u64 \<Rightarrow> u64 \<Rightarrow> u16 \<Rightarrow> u16 \<Rightarrow> 'a sys_scheme \<Rightarrow> 'a sys_scheme outcome) \<Rightarrow> 'a sys_scheme \<Rightarrow> 'a sys_scheme outcome" where
  "user_mode_kernel b user s =
     bind_ok (bind_ok (bind_ok (say ''******USER MODE******\<newline>'' [] s)
       (\<lambda>s. let user_text_size = user_text_end b - user_text_start b;
                s1 = s\<lparr>mem := memcpy (mem s) USER_CODE_BASE (user_text_start b) user_text_size\<rparr>
            in say ''[user mode] jumping into user space\<newline>'' [] (syscall_init (resume_kernel b) s1)))
       (\<lambda>s. let offset = user_entry b - user_text_start b
            in user (USER_CODE_BASE + offset) USER_STACK_TOP 0x23 0x1B s))
       (say ''[user mode] back from user mode\<newline>'' [])"

text \<open>Up to the final \<open>hlt\<close> loop.\<close>

definition kernel_main ::
  "board \<Rightarrow> interrupt_frame \<Rightarrow> ('a kernel_scheme \<Rightarrow> 'a kernel_scheme option) list \<Rightarrow>
    ('a kernel_scheme \<Rightarrow> 'a kernel_scheme option) list \<Rightarrow>
    (u64 \<Rightarrow> u64 \<Rightarrow> u16 \<Rightarrow> u16 \<Rightarrow> 'a kernel_scheme \<Rightarrow> 'a kernel_scheme outcome) \<Rightarrow>
    u64 \<Rightarrow> u16 \<Rightarrow> u64 \<Rightarrow> 'a kernel_scheme \<Rightarrow> 'a kernel_scheme outcome option" where
  "kernel_main b frame key_irqs tick_irqs user mmap_addr mmap_count initrd_addr s =
     and_then (and_then (and_then
       (Some (bind_ok (bind_ok (terminal_kernel s) (gdt_kernel b)) (interrupt_kernel b frame)))
       (keyboard_kernel b key_irqs))
       (timer_kernel b tick_irqs))
       (\<lambda>s. Some (bind_ok (bind_ok (bind_ok (bind_ok (memory_kernel b mmap_addr (ucast mmap_count) s)
          (filesystem_kernel b initrd_addr))
          tasks_kernel)
          (user_mode_kernel b user))
          (say ''[kernel] Successfully booted into the kernel!\<newline>'' [])))"

section \<open>The user program\<close>

definition system_call ::
  "board \<Rightarrow> u64 \<Rightarrow> u64 \<Rightarrow> u64 \<Rightarrow> interrupt_frame \<times> 'a sys_scheme \<Rightarrow> (interrupt_frame \<times> 'a sys_scheme) outcome" where
  "system_call b num x y r =
     (case r of (frame, s) \<Rightarrow> isr_stub_run b 0x80 (frame\<lparr>fr_rax := num, fr_rdi := x, fr_rsi := y\<rparr>) s)"

text \<open>\<open>msg\<close> is the address of the array on the user stack. The exit call does not return here.\<close>

definition user_round ::
  "board \<Rightarrow> u64 \<Rightarrow> nat \<Rightarrow> interrupt_frame \<times> 'a sys_scheme \<Rightarrow> (interrupt_frame \<times> 'a sys_scheme) outcome" where
  "user_round b msg counter r =
     (case r of (frame, s) \<Rightarrow>
        system_call b 1 msg 8 (frame, s\<lparr>mem := store8 (mem s) (msg + 6) (of_nat (48 + counter))\<rparr>))"

definition user_test_entry ::
  "board \<Rightarrow> u64 \<Rightarrow> interrupt_frame \<Rightarrow> 'a sys_scheme \<Rightarrow> (interrupt_frame \<times> 'a sys_scheme) outcome" where
  "user_test_entry b msg frame s =
     (let text = cstr ''count 0\<newline>'';
          s1 = s\<lparr>mem := fold (\<lambda>i m. store8 m (msg + of_nat i) (text ! i)) [0..<8] (mem s)\<rparr>
      in bind_ok (foldl bind_ok (Ok (frame, s1)) (map (user_round b msg) [1..<6])) (system_call b 60 0 0))"

end
