(* ===== verification/Kernel_Invariant.thy ===== *)
theory Kernel_Invariant
  imports Kernel
begin

text \<open>
  The invariant of the running kernel. It holds of the terminal, the keyboard ring, the handler
  table, the task table and the heap together; the locale \<open>interrupt_system\<close> is interpreted on
  the kernel's handlers; and the step relation \<open>kernel_step\<close> interleaves interrupts with
  everything kernel and user code do to this state.
\<close>

section \<open>The invariant\<close>

text \<open>Before \<open>memory_init\<close> there is no heap and there are no tasks.\<close>

definition memory_ok :: "'a tasks_scheme \<Rightarrow> bool" where
  "memory_ok s \<longleftrightarrow> (if heap_beginning s = 0 then table_inv s \<and> task_count s = 0 else task_inv s)"

definition kernel_inv :: "'a tasks_scheme \<Rightarrow> bool" where
  "kernel_inv s \<longleftrightarrow> tty_inv s \<and> kbd_inv s \<and> length (interrupt_handlers s) = 256 \<and> memory_ok s"

lemma kernel_invD:
  assumes "kernel_inv s"
  shows "tty_inv s" and "kbd_inv s" and "length (interrupt_handlers s) = 256" and "memory_ok s" and "table_inv s"
  using assms by (auto simp: kernel_inv_def memory_ok_def task_inv_def split: if_splits)

section \<open>Memory below the heap\<close>

lemma heap_rel_low:
  assumes "heap_rel s bs" and "only_changes 0 0x800000 (mem s) m"
  shows "heap_rel (s\<lparr>mem := m\<rparr>) bs"
  using assms chain_frame [OF assms(2), of "unat (heap_beginning s)" bs]
  by (auto simp: heap_rel_def HEAP_LOW_def HEAP_LIMIT_def)

lemma owns_low: "owns s p k \<Longrightarrow> only_changes 0 0x800000 (mem s) m \<Longrightarrow> owns (s\<lparr>mem := m\<rparr>) p k"
  unfolding owns_def using heap_rel_low by fastforce

lemma task_inv_mem:
  assumes "task_inv s" and "heap_inv (s\<lparr>mem := m\<rparr>)"
    and "\<And>p k. owns s p k \<Longrightarrow> owns (s\<lparr>mem := m\<rparr>) p k"
  shows "task_inv (s\<lparr>mem := m\<rparr>)"
proof -
  have "live (s\<lparr>mem := m\<rparr>) = live s" "table_inv (s\<lparr>mem := m\<rparr>) = table_inv s"
    by (simp_all add: live_def table_inv_def)
  with assms stacks_owned_keeps [of s "live s" "s\<lparr>mem := m\<rparr>"] show ?thesis by (simp add: task_inv_def)
qed

lemma memory_ok_low:
  assumes "memory_ok s" and "only_changes 0 0x800000 (mem s) m"
  shows "memory_ok (s\<lparr>mem := m\<rparr>)"
proof (cases "heap_beginning s = 0")
  case False
  with assms(1) have "task_inv s" by (simp add: memory_ok_def)
  then have "task_inv (s\<lparr>mem := m\<rparr>)"
    by (rule task_inv_mem)
      (use \<open>task_inv s\<close> heap_rel_low [OF _ assms(2)] owns_low [OF _ assms(2)] in
        \<open>auto simp: task_inv_def heap_inv_def\<close>)
  with False show ?thesis by (simp add: memory_ok_def)
qed (use assms(1) in \<open>auto simp: memory_ok_def table_inv_def\<close>)

lemma screen_low: "(\<And>a. a \<notin> vga_region \<Longrightarrow> m' a = m a) \<Longrightarrow> only_changes 0 0x800000 m m'"
  by (auto simp: only_changes_def vga_region_def region_interval VGA_def)

text \<open>The parts of the state \<open>memory_ok\<close> does not look at.\<close>

lemma memory_ok_update [simp]:
  "memory_ok (s\<lparr>io_log := l\<rparr>) = memory_ok s" "memory_ok (s\<lparr>if_flag := f\<rparr>) = memory_ok s"
  "memory_ok (s\<lparr>cursor_x := x\<rparr>) = memory_ok s" "memory_ok (s\<lparr>cursor_y := y\<rparr>) = memory_ok s"
  "memory_ok (s\<lparr>keycache := c\<rparr>) = memory_ok s" "memory_ok (s\<lparr>kbd_head := h\<rparr>) = memory_ok s"
  "memory_ok (s\<lparr>kbd_tail := h\<rparr>) = memory_ok s" "memory_ok (s\<lparr>kbd_caps := v\<rparr>) = memory_ok s"
  "memory_ok (s\<lparr>kbd_shift := v\<rparr>) = memory_ok s" "memory_ok (s\<lparr>ticks := n\<rparr>) = memory_ok s"
  "memory_ok (s\<lparr>kbd_enabled := v\<rparr>) = memory_ok s"
  "memory_ok (s\<lparr>kernel_frame_template := fr\<rparr>) = memory_ok s"
  "memory_ok (s\<lparr>scheduling_enabled := e\<rparr>) = memory_ok s"
  by (simp_all add: memory_ok_def task_inv_def table_inv_def live_def stacks_owned_def heap_inv_def
      owns_def heap_rel_def)

lemma kernel_inv_update [simp]:
  "kernel_inv (s\<lparr>io_log := l\<rparr>) = kernel_inv s" "kernel_inv (s\<lparr>if_flag := f\<rparr>) = kernel_inv s"
  "kernel_inv (s\<lparr>ticks := n\<rparr>) = kernel_inv s" "kernel_inv (s\<lparr>kernel_frame_template := fr\<rparr>) = kernel_inv s"
  "kernel_inv (s\<lparr>scheduling_enabled := e\<rparr>) = kernel_inv s" "kernel_inv (s\<lparr>kbd_enabled := v\<rparr>) = kernel_inv s"
  by (simp_all add: kernel_inv_def tty_inv_def kbd_inv_def)

lemma kernel_inv_screen:
  assumes "kernel_inv s" and "tty_inv t" and "tty_frame s t"
  shows "kernel_inv t"
proof -
  from assms(3) obtain m x y where t: "t = s\<lparr>mem := m, cursor_x := x, cursor_y := y\<rparr>"
    and "\<And>a. a \<notin> vga_region \<Longrightarrow> m a = mem s a" unfolding tty_frame_def by blast
  then have "memory_ok t" using memory_ok_low [OF kernel_invD(4) [OF assms(1)] screen_low] by simp
  then show ?thesis using assms(1,2) by (simp add: kernel_inv_def kbd_inv_def t)
qed

lemma kernel_inv_put_chars: "kernel_inv s \<Longrightarrow> kernel_inv (put_chars out s)"
  using kernel_inv_screen put_chars_inv put_chars_frame kernel_invD(1) by blast

section \<open>Changes of the task table\<close>

text \<open>A change of frames, states and the current task only.\<close>

lemma kernel_inv_tasks:
  assumes "kernel_inv s" and "t = s\<lparr>task_list := ts, current_task := c, scheduler_started := v\<rparr>"
    and "map task_id ts = map task_id (task_list s)" and "map stack_start ts = map stack_start (task_list s)"
    and "0 \<le> c" and "c < max 1 (task_count s)"
  shows "kernel_inv t"
proof -
  have len: "length ts = length (task_list s)" using assms(3) map_eq_imp_length_eq by blast
  let ?n = "nat (task_count s)"
  have "table_inv t" using kernel_invD(5) [OF assms(1)] assms(5,6) len by (simp add: table_inv_def assms(2))
  moreover have "numbered (live t)" if "numbered (live s)"
  proof -
    have "map task_id (take ?n ts) = map task_id (take ?n (task_list s))" by (simp add: assms(3) flip: take_map)
    with that len show ?thesis by (simp add: numbered_def live_def assms(2))
  qed
  moreover have "stacks (live t) = stacks (live s)"
    by (simp add: stacks_def live_def assms(2,4) flip: take_map)
  moreover have "owns t = owns s" "heap_inv t = heap_inv s"
    by (simp_all add: owns_def heap_inv_def heap_rel_def assms(2) fun_eq_iff)
  ultimately have "memory_ok t"
    using kernel_invD(4) [OF assms(1)]
    by (auto simp: memory_ok_def task_inv_def stacks_owned_def assms(2) split: if_splits)
  with assms(1) show ?thesis by (simp add: kernel_inv_def tty_inv_def kbd_inv_def assms(2))
qed

lemma map_same_update: "f x = f (xs ! i) \<Longrightarrow> map f (xs[i := x]) = map f xs"
  by (cases "i < length xs") (simp_all add: map_update list_update_same_conv list_update_beyond)

lemma kernel_inv_schedule:
  assumes "kernel_inv s"
  shows "\<exists>frame' t. schedule frame s = Inr (frame', t) \<and> kernel_inv t"
proof -
  note table = kernel_invD(5) [OF assms]
  consider "task_count s = 0" | "0 < task_count s" "scheduler_started s \<noteq> 0" | "0 < task_count s" "scheduler_started s = 0"
    using table by (fastforce simp: table_inv_def)
  then show ?thesis
  proof cases
    case 2
    let ?c = "nat (current_task s)"
    let ?t = "(freeze frame s)\<lparr>current_task := int (chosen s)\<rparr>"
    have "kernel_inv ?t"
      by (rule kernel_inv_tasks [OF assms, where c = "int (chosen s)" and v = "scheduler_started s"
            and ts = "(task_list s)[?c := (task_list s ! ?c)\<lparr>task_frame := frame\<rparr>]"])
        (use chosen_bound [OF table 2(1)] in \<open>simp_all add: freeze_def Let_def map_same_update\<close>)
    then show ?thesis using schedule_started [OF table 2] by simp
  next
    case 3
    have "kernel_inv (s\<lparr>scheduler_started := 1\<rparr>)"
      by (rule kernel_inv_tasks [OF assms, where ts = "task_list s" and c = "current_task s" and v = 1])
        (use table in \<open>simp_all add: table_inv_def\<close>)
    then show ?thesis using schedule_first [OF table 3] by simp
  qed (use assms in \<open>simp add: schedule_def\<close>)
qed

lemma kernel_inv_task_exit:
  assumes "kernel_inv s"
  shows "\<exists>t. task_exit s = Inr t \<and> kernel_inv t"
proof -
  note table = kernel_invD(5) [OF assms]
  let ?c = "nat (current_task s)"
  let ?ts = "(task_list s)[?c := (task_list s ! ?c)\<lparr>state := TASK_DONE\<rparr>]"
  have "kernel_inv (s\<lparr>task_list := ?ts\<rparr>)"
    by (rule kernel_inv_tasks [OF assms, where ts = ?ts and c = "current_task s" and v = "scheduler_started s"])
      (use table in \<open>simp_all add: table_inv_def map_same_update\<close>)
  moreover have "in_task_list (current_task s)" using table by (auto simp: table_inv_def in_task_list_def MAX_TASKS_def)
  ultimately show ?thesis by (simp add: task_exit_def Let_def)
qed

section \<open>The handlers\<close>

lemma kernel_inv_push: "kernel_inv s \<Longrightarrow> kernel_inv (kbd_buffer_push c s)"
proof -
  assume "kernel_inv s"
  moreover have "tty_inv (kbd_buffer_push c s) = tty_inv s" "memory_ok (kbd_buffer_push c s) = memory_ok s"
    "interrupt_handlers (kbd_buffer_push c s) = interrupt_handlers s"
    by (simp_all add: kbd_buffer_push_def Let_def tty_inv_def)
  ultimately show ?thesis by (simp add: kernel_inv_def push_inv)
qed

lemma kernel_inv_keys [simp]:
  "kernel_inv (s\<lparr>kbd_shift := v\<rparr>) = kernel_inv s"
  "kernel_inv s \<Longrightarrow> kernel_inv (s\<lparr>kbd_caps := kbd_caps s XOR 1\<rparr>)"
  using caps_toggle [of "kbd_caps s"] by (auto simp: kernel_inv_def tty_inv_def kbd_inv_def)

lemma kernel_inv_keyboard: "kernel_inv s \<Longrightarrow> kernel_inv (keyboard_handler dev frame s)"
proof -
  have "kernel_inv (kbd_scancode sc s)" if "kernel_inv s" for sc and s :: "'a tasks_scheme"
    using that by (simp add: kbd_scancode_def Let_def kernel_inv_push)
  moreover assume "kernel_inv s"
  ultimately show ?thesis by (simp add: keyboard_handler_def inb_def Let_def)
qed

lemma kernel_inv_pit:
  assumes "kernel_inv s"
  shows "\<exists>frame' t. pit_handler frame s = Inr (frame', t) \<and> kernel_inv t"
  using assms kernel_inv_schedule [of "s\<lparr>ticks := ticks s + 1, kernel_frame_template := frame\<rparr>" frame]
  by (simp add: pit_handler_def Let_def)

text \<open>
  A statement that prints \<open>%d\<close> of an \<open>int\<close> is undefined for one value of the open half of
  the variadic slot, see \<open>Syscall\<close>.
\<close>

definition slots_ok :: "board \<Rightarrow> bool" where
  "slots_ok b \<longleftrightarrow> slot_upper b \<noteq> 0x80000000"

lemma kernel_inv_say:
  assumes "kernel_inv s" and "prints s x"
  shows "\<exists>t. x = Ok t \<and> kernel_inv t"
  using assms kernel_inv_put_chars unfolding prints_def by blast

lemma prints_literal:
  assumes "0 \<notin> set (cstr fmt)" and "37 \<notin> set (cstr fmt)" and "length fmt \<le> 2147483647"
  shows "prints s (say fmt [] s)"
  using say_literal [OF assms] by (auto simp: prints_def)

lemma syscall_screen:
  fixes s :: "'a sys_scheme"
  assumes "tty_inv s"
    and "upper \<noteq> 0x80000000 \<or> (ucast (fr_rax frame) :: u32) \<noteq> 60 \<or> (ucast (fr_rdi frame) :: u32) \<noteq> 0"
  shows "\<exists>frame' t. syscall_handler upper frame s = Ok (frame', t) \<and> tty_inv t \<and> tty_frame s t"
proof -
  let ?num = "sint (ucast (fr_rax frame) :: u32)"
  have num: "(ucast (fr_rax frame) :: u32) = w" if "?num = sint w" for w using that by (rule signed_word_eqI)
  have num1: "(ucast (fr_rax frame) :: u32) = 1" if "?num = SYS_WRITE"
    by (rule num) (simp add: that SYS_WRITE_def)
  have num60: "(ucast (fr_rax frame) :: u32) = 60" if "?num = SYS_EXIT"
    by (rule num) (simp add: that SYS_EXIT_def)
  consider "(ucast (fr_rax frame) :: u32) = 1" | "(ucast (fr_rax frame) :: u32) = 60"
    | "?num \<noteq> SYS_WRITE" "?num \<noteq> SYS_EXIT"
    using num1 num60 by blast
  then show ?thesis
  proof cases
    case 1
    then show ?thesis
      using syscall_write [OF assms(1) 1, of upper] put_chars_inv [OF assms(1)] put_chars_frame [OF assms(1)]
        tty_frame_refl assms(1) by auto
  next
    case 2
    then show ?thesis using syscall_exit [OF assms(1) 2, of upper] assms(2) by blast
  next
    case 3
    have "prints s (say ''[syscall] got a syscall, resuming execution'' [] s)"
      by (rule prints_literal) (simp_all add: cstr_def)
    then obtain t where "say ''[syscall] got a syscall, resuming execution'' [] s = Ok t" "tty_inv t" "tty_frame s t"
      by (rule prints_stays [OF _ assms(1)])
    then show ?thesis using 3 by (simp add: syscall_handler_def Let_def)
  qed
qed

lemma syscall_exit_undefined:
  fixes s :: "'a sys_scheme"
  assumes "(ucast (fr_rax frame) :: u32) = 60" and "(ucast (fr_rdi frame) :: u32) = 0"
  shows "\<exists>e. syscall_handler 0x80000000 frame s = UB e"
proof -
  let ?fmt = "cstr ''[syscall] user programm exited with code: %d\<newline>''"
  have slot: "int_slot 0x80000000 0 = Slot 0x8000000000000000" by (simp add: int_slot_def)
  have "sint (0x8000000000000000 :: u64) = INT64_MIN" by (simp add: INT64_MIN_def)
  then have "\<exists>e. printf_loop ?fmt [Slot 0x8000000000000000] 0 s = Undefined e"
    by (intro printf_loop_undefined) (simp_all add: cstr_def INT_MAX_def)
  then have "\<exists>e. say ''[syscall] user programm exited with code: %d\<newline>'' [int_slot 0x80000000 0] s = UB e"
    by (auto simp: say_def printf_def slot)
  then show ?thesis
    using assms by (auto simp: syscall_handler_def SYS_WRITE_def SYS_EXIT_def)
qed

lemma kernel_inv_syscall:
  fixes s :: "'a sys_scheme"
  assumes "kernel_inv s"
    and "upper \<noteq> 0x80000000 \<or> (ucast (fr_rax frame) :: u32) \<noteq> 60 \<or> (ucast (fr_rdi frame) :: u32) \<noteq> 0"
  shows "\<exists>frame' t. syscall_handler upper frame s = Ok (frame', t) \<and> kernel_inv t"
  using syscall_screen [OF kernel_invD(1) [OF assms(1)] assms(2)] kernel_inv_screen [OF assms(1)] by blast

text \<open>
  The one call of a handler that is undefined: the system call \<open>exit(0)\<close> when the open half
  of the slot makes the printed number the smallest 64-bit integer.
\<close>

definition open_exit :: "board \<Rightarrow> handler option \<Rightarrow> interrupt_frame \<Rightarrow> bool" where
  "open_exit b h frame \<longleftrightarrow> slot_upper b = 0x80000000 \<and> h = Some Syscall_handler
     \<and> (ucast (fr_rax frame) :: u32) = 60 \<and> (ucast (fr_rdi frame) :: u32) = 0"

lemma open_exit_undefined:
  "open_exit b (Some h) frame \<Longrightarrow> \<exists>e. call_handler b h frame (s :: 'a sys_scheme) = UB e"
  using syscall_exit_undefined [of frame s] by (auto simp: open_exit_def)

text \<open>Every other call of a handler returns and keeps the invariant.\<close>

lemma call_handler_returns:
  fixes s :: "'a sys_scheme"
  assumes "\<not> open_exit b (Some h) frame" and "kernel_inv s"
  shows "\<exists>frame' t. call_handler b h frame s = Ok (frame', t) \<and> kernel_inv t"
proof (cases h)
  case Breakpoint_handler
  have "prints s (breakpoint_handler frame s)"
    unfolding breakpoint_handler_def by (rule prints_literal) (simp_all add: cstr_def)
  then obtain t where "breakpoint_handler frame s = Ok t" "kernel_inv t" using kernel_inv_say [OF assms(2)] by blast
  then show ?thesis using Breakpoint_handler by simp
next
  case Keyboard_handler
  then show ?thesis using kernel_inv_keyboard [OF assms(2)] by simp
next
  case Pit_handler
  then show ?thesis using kernel_inv_pit [OF assms(2), of frame] by auto
next
  case Syscall_handler
  then show ?thesis using kernel_inv_syscall [OF assms(2)] assms(1) by (auto simp: open_exit_def)
qed

lemma call_handler_ok:
  fixes s :: "'a sys_scheme"
  assumes "slots_ok b" and "kernel_inv s"
  shows "\<exists>frame' t. call_handler b h frame s = Ok (frame', t) \<and> kernel_inv t"
  using call_handler_returns [of b h frame s] assms by (simp add: open_exit_def slots_ok_def)

lemma call_handler_inv:
  fixes s :: "'a sys_scheme"
  assumes "kernel_inv s" and "outcome_state (call_handler b h frame s) = Some (frame', t)"
  shows "kernel_inv t"
proof (cases "open_exit b (Some h) frame")
  case True
  with open_exit_undefined [of b h frame s] assms(2) show ?thesis by auto
next
  case False
  with call_handler_returns [of b h frame s] assms show ?thesis by auto
qed

interpretation handlers: interrupt_system "call_handler b" "kernel_inv :: 'a sys_scheme \<Rightarrow> bool"
  for b :: board
proof
  fix s t :: "'a sys_scheme" and h frame frame' l f
  show "tty_inv s" if "kernel_inv s" using that by (rule kernel_invD(1))
  show "kernel_inv t" if "kernel_inv s" "tty_inv t" "tty_frame s t"
    using that by (rule kernel_inv_screen)
  show "kernel_inv (s\<lparr>io_log := l\<rparr>)" if "kernel_inv s" using that by simp
  show "kernel_inv (s\<lparr>if_flag := f\<rparr>)" if "kernel_inv s" using that by simp
  show "kernel_inv t" if "kernel_inv s" "outcome_state (call_handler b h frame s) = Some (frame', t)"
    using that by (rule call_handler_inv)
qed

section \<open>Heap and tasks\<close>

text \<open>What the allocator leaves alone.\<close>

definition heap_frame :: "'a heap_scheme \<Rightarrow> 'a heap_scheme \<Rightarrow> bool" where
  "heap_frame s t \<longleftrightarrow> t = s\<lparr>mem := mem t, last_alloc := last_alloc t, memory_used := memory_used t\<rparr>"

lemma heap_frame_update [simp]:
  "heap_frame s s"
  "heap_frame s t \<Longrightarrow> heap_frame s (t\<lparr>mem := m\<rparr>)"
  "heap_frame s t \<Longrightarrow> heap_frame s (t\<lparr>last_alloc := l\<rparr>)"
  "heap_frame s t \<Longrightarrow> heap_frame s (t\<lparr>memory_used := u\<rparr>)"
  unfolding heap_frame_def by (simp | (erule ssubst, simp))+

lemma malloc_frame: "malloc n s = Some (p, t) \<Longrightarrow> heap_frame s t"
  by (auto simp: malloc_def Let_def new_block_def split_block_def set_status_def set_size_def heap_memset_def
      split: if_splits option.splits scan.splits)

lemma free_frame: "free p s = Some t \<Longrightarrow> heap_frame s t"
  by (auto simp: free_def Let_def set_status_def set_size_def heap_memset_def
      split: if_splits option.splits prod.splits)

text \<open>The part of the state that tasks and heap do not touch.\<close>

definition outer :: "'a kbd_scheme \<Rightarrow> int \<times> int \<times> u64 \<times> u8 list \<times> u16 \<times> u16 \<times> u8 \<times> handler option list \<times> u64" where
  "outer s = (cursor_x s, cursor_y s, terminal_buffer s, keycache s, kbd_head s, kbd_tail s, kbd_caps s,
     interrupt_handlers s, heap_beginning s)"

lemma outer_update [simp]:
  "outer (s\<lparr>if_flag := f\<rparr>) = outer s" "outer (s\<lparr>mem := m\<rparr>) = outer s"
  "outer (s\<lparr>task_list := ts\<rparr>) = outer s" "outer (s\<lparr>task_count := n\<rparr>) = outer s"
  "outer (s\<lparr>current_task := c\<rparr>) = outer s"
  by (simp_all add: outer_def)

lemma outer_heap_frame: "heap_frame s t \<Longrightarrow> outer t = outer s"
  unfolding heap_frame_def by (erule ssubst) (simp add: outer_def)

lemma kernel_inv_outer:
  assumes "kernel_inv s" and "outer t = outer s" and "task_inv t"
  shows "kernel_inv t"
proof -
  have "tty_inv t" "kbd_inv t" "length (interrupt_handlers t) = 256"
    using kernel_invD(1-3) [OF assms(1)] assms(2) by (simp_all add: outer_def tty_inv_def kbd_inv_def)
  with assms(3) show ?thesis by (auto simp: kernel_inv_def memory_ok_def task_inv_def heap_inv_def heap_rel_def HEAP_LOW_def)
qed

lemma reap_outer: "reap i s = Some (Inr t) \<Longrightarrow> outer t = outer s"
  by (auto simp: reap_def shift_task_list_down_def cli_def sti_def Let_def dest!: free_frame outer_heap_frame
      split: if_splits option.splits sum.splits)

lemma bind_sum_Inr:
  "Option.bind x (\<lambda>r. case r of Inl e \<Rightarrow> Some (Inl e) | Inr u \<Rightarrow> f u) = Some (Inr t)
    \<longleftrightarrow> (\<exists>u. x = Some (Inr u) \<and> f u = Some (Inr t))"
  by (cases x) (auto split: sum.splits)

lemma task_reap_outer:
  assumes "task_reap s = Some (Inr t)"
  shows "outer t = outer s"
proof -
  have "\<forall>t. r = Inr t \<longrightarrow> outer t = outer s" if "reap_loop i s = Some r" for i and s :: "'a tasks_scheme" and r
    by (rule reap_loop.raw_induct [where P = "\<lambda>i s r. \<forall>t. r = Inr t \<longrightarrow> outer t = outer s", OF _ that])
      (auto simp: bind_sum_Inr dest!: reap_outer split: if_splits)
  with assms show ?thesis by (simp add: task_reap_def)
qed

lemma task_create_outer:
  assumes "0 \<le> task_count s" and "task_count s < 10" and "task_create entry s = Some (Ok t)"
  shows "outer t = outer s"
  using assms
  by (auto simp: task_create_def task_get_next_id_def MAX_TASKS_def Let_def dest!: malloc_frame outer_heap_frame
      split: if_splits option.splits)

lemma kernel_inv_task_inv: "kernel_inv s \<Longrightarrow> heap_beginning s \<noteq> 0 \<Longrightarrow> task_inv s"
  by (simp add: kernel_inv_def memory_ok_def)

text \<open>Allocator calls keep the invariant if the stacks of the tasks stay in use.\<close>

lemma kernel_inv_heap:
  assumes "kernel_inv s" and "heap_beginning s \<noteq> 0" and "heap_frame s t" and "heap_inv t"
    and "\<And>q j. owns s q j \<Longrightarrow> q \<in> set (stacks (live s)) \<Longrightarrow> owns t q j"
  shows "kernel_inv t"
proof -
  have inv: "task_inv s" using assms(1,2) by (rule kernel_inv_task_inv)
  have eq: "t = s\<lparr>mem := mem t, last_alloc := last_alloc t, memory_used := memory_used t\<rparr>"
    using assms(3) by (simp add: heap_frame_def)
  have "live t = live s" by (subst eq) (simp add: live_def)
  moreover have "table_inv t = table_inv s" by (subst eq) (simp add: table_inv_def)
  moreover have "stacks_owned t (live s)"
    by (rule stacks_owned_keeps [of s]) (use inv assms(5) in \<open>auto simp: task_inv_def\<close>)
  ultimately have "task_inv t" using inv assms(4) by (simp add: task_inv_def)
  then show ?thesis by (rule kernel_inv_outer [OF assms(1) outer_heap_frame [OF assms(3)]])
qed

lemma kernel_inv_malloc:
  assumes "kernel_inv s" and "malloc n s = Some (p, t)"
  shows "kernel_inv t"
proof (cases "heap_beginning s = 0")
  case True
  then show ?thesis using assms by (auto simp: malloc_def split: if_splits)
next
  case False
  have heap: "heap_inv s" using kernel_inv_task_inv [OF assms(1) False] by (simp add: task_inv_def)
  show ?thesis
  proof (cases "p = 0")
    case True
    then show ?thesis using malloc_cases(2) [OF heap assms(2)] assms(1) by simp
  next
    case p: False
    show ?thesis
      by (rule kernel_inv_heap [OF assms(1) False malloc_frame [OF assms(2)] malloc_cases(1) [OF heap assms(2)]])
        (use heap.alloc_keeps [OF heap assms(2) p] in blast)
  qed
qed

lemma kernel_inv_free:
  assumes "kernel_inv s" and "heap_beginning s \<noteq> 0" and "owns s p k" and "p \<notin> set (stacks (live s))"
    and "free p s = Some t"
  shows "kernel_inv t"
  by (rule kernel_inv_heap [OF assms(1,2) free_frame [OF assms(5)]])
    (use assms heap.dealloc_returns [OF assms(3)] heap.dealloc_keeps [OF assms(3,5)] in auto)

lemma kernel_inv_create:
  assumes "kernel_inv s" and "heap_beginning s \<noteq> 0" and "task_create entry s = Some (Ok t)"
  shows "kernel_inv t"
proof (cases "task_count s < 10")
  case True
  have "0 \<le> task_count s" using kernel_invD(5) [OF assms(1)] by (simp add: table_inv_def)
  then have "outer t = outer s" using True assms(3) by (rule task_create_outer)
  then show ?thesis
    using create_ok [OF kernel_inv_task_inv [OF assms(1,2)], of entry] True assms(3)
    by (intro kernel_inv_outer [OF assms(1)]) auto
next
  case False
  then show ?thesis
    using create_ok [OF kernel_inv_task_inv [OF assms(1,2)], of entry] assms(1,3)
    by (simp add: kernel_inv_put_chars)
qed

lemma kernel_inv_reap:
  assumes "kernel_inv s" and "heap_beginning s \<noteq> 0" and "task_reap s = Some (Inr t)"
  shows "kernel_inv t"
proof -
  have "reaped s t"
    using reap_loop_effect [OF kernel_inv_task_inv [OF assms(1,2)], of 0] assms(3) by (simp add: task_reap_def)
  then show ?thesis
    by (intro kernel_inv_outer [OF assms(1) task_reap_outer [OF assms(3)]]) (simp add: reaped_def)
qed

lemma kernel_inv_get_key:
  assumes "kernel_inv s" and "keyboard_get_key [] s = Some (c, t, [])"
  shows "kernel_inv t"
proof -
  have t: "t = s\<lparr>kbd_tail := (kbd_tail s + 1) AND (of_nat KBD_BUFFER_SIZE - 1)\<rparr>"
    using assms(2) by (auto simp: keyboard_get_key.simps [of "[]"] split: if_splits)
  have "kbd_inv t" using kernel_invD(2) [OF assms(1)] by (simp add: t kbd_inv_def advance)
  with assms(1) show ?thesis by (simp add: kernel_inv_def t tty_inv_def)
qed

lemma kernel_inv_register:
  assumes "kernel_inv s"
  shows "kernel_inv (register_interrupt_handler v h s)"
proof -
  have "memory_ok (register_interrupt_handler v h s) = memory_ok s"
    by (simp add: register_interrupt_handler_def memory_ok_def task_inv_def table_inv_def live_def stacks_owned_def
        heap_inv_def owns_def heap_rel_def)
  then show ?thesis
    using assms registered(2) [OF kernel_invD(3) [OF assms], of v h]
    by (simp add: kernel_inv_def) (simp add: register_interrupt_handler_def tty_inv_def kbd_inv_def)
qed

section \<open>Interrupts, kernel and user code interleaved\<close>

text \<open>
  One atomic piece of what the running system does: an exception or system call, a hardware
  interrupt, output, a key taken from the ring, the scheduler switched on, task and heap
  operations, a store of the kernel into a block it has, and a store of the user program
  into user space.
\<close>

inductive kernel_step :: "board \<Rightarrow> 'a sys_scheme \<Rightarrow> 'a sys_scheme \<Rightarrow> bool" for b where
  step_exception: "n < 256 \<Longrightarrow> outcome_state (isr_stub_run b n frame s) = Some (frame', t) \<Longrightarrow> kernel_step b s t"
| step_irq: "n < 16 \<Longrightarrow> outcome_state (irq_stub_run b n frame s) = Some (frame', t) \<Longrightarrow> kernel_step b s t"
| step_print: "kernel_step b s (put_chars out s)"
| step_get_key: "keyboard_get_key [] s = Some (c, t, []) \<Longrightarrow> kernel_step b s t"
| step_enable: "kernel_step b s (scheduler_enable s)"
| step_task_create: "heap_beginning s \<noteq> 0 \<Longrightarrow> task_create entry s = Some (Ok t) \<Longrightarrow> kernel_step b s t"
| step_task_exit: "task_exit s = Inr t \<Longrightarrow> kernel_step b s t"
| step_task_reap: "heap_beginning s \<noteq> 0 \<Longrightarrow> task_reap s = Some (Inr t) \<Longrightarrow> kernel_step b s t"
| step_malloc: "malloc k s = Some (p, t) \<Longrightarrow> kernel_step b s t"
| step_free: "heap_beginning s \<noteq> 0 \<Longrightarrow> owns s p k \<Longrightarrow> p \<notin> set (stacks (live s)) \<Longrightarrow> free p s = Some t \<Longrightarrow>
    kernel_step b s t"
| step_kernel_store: "heap_beginning s \<noteq> 0 \<Longrightarrow> owns s p k \<Longrightarrow> x \<in> region p k \<Longrightarrow>
    kernel_step b s (s\<lparr>mem := store8 (mem s) x v\<rparr>)"
| step_user_store: "USER_CODE_BASE \<le> x \<Longrightarrow> x < USER_STACK_TOP \<Longrightarrow>
    kernel_step b s (s\<lparr>mem := store8 (mem s) x v\<rparr>)"

lemma bind_iretq_inv:
  assumes "\<And>frame t. outcome_state x = Some (frame, t) \<Longrightarrow> kernel_inv t"
    and "outcome_state (bind_ok x iretq) = Some (frame', t)"
  shows "kernel_inv t"
  using bind_ok_invariant [where P = "\<lambda>r. kernel_inv (snd r)" and x = x and f = iretq] assms
  by (fastforce simp: iretq_def)

lemma stub_inv:
  fixes s :: "'a sys_scheme"
  assumes "kernel_inv s"
  shows "n < 256 \<Longrightarrow> outcome_state (isr_stub_run b n frame s) = Some (frame', t) \<Longrightarrow> kernel_inv t"
    and "outcome_state (irq_stub_run b n frame s) = Some (frame', t) \<Longrightarrow> kernel_inv t"
proof -
  have inv: "kernel_inv (cli s)" using assms by (simp add: cli_def)
  show "kernel_inv t" if "n < 256" "outcome_state (isr_stub_run b n frame s) = Some (frame', t)"
    by (rule bind_iretq_inv [OF _ that(2) [unfolded isr_stub_run_def]])
      (rule handlers.isr_handler_inv [OF inv], use that(1) in simp_all)
  show "kernel_inv t" if "outcome_state (irq_stub_run b n frame s) = Some (frame', t)"
    by (rule bind_iretq_inv [OF _ that [unfolded irq_stub_run_def]])
      (use handlers.irq_handler_inv [OF inv] in blast)
qed

lemma kernel_inv_sys [simp]:
  "kernel_inv (s\<lparr>resume_kernel_func := f\<rparr>) = kernel_inv s" "kernel_inv (s\<lparr>saved_kernel_rsp := r\<rparr>) = kernel_inv s"
  by (simp_all add: kernel_inv_def tty_inv_def kbd_inv_def memory_ok_def task_inv_def table_inv_def live_def
      stacks_owned_def heap_inv_def owns_def heap_rel_def)

lemma kernel_inv_low:
  assumes "kernel_inv s" and "only_changes 0 0x800000 (mem s) m"
  shows "kernel_inv (s\<lparr>mem := m\<rparr>)"
  using memory_ok_low [OF kernel_invD(4) [OF assms(1)] assms(2)] assms(1)
  by (simp add: kernel_inv_def tty_inv_def kbd_inv_def)

lemma kernel_inv_store:
  assumes "kernel_inv s"
  shows "heap_beginning s \<noteq> 0 \<Longrightarrow> owns s p k \<Longrightarrow> x \<in> region p k \<Longrightarrow> kernel_inv (s\<lparr>mem := store8 (mem s) x v\<rparr>)"
    and "x < 0x800000 \<Longrightarrow> kernel_inv (s\<lparr>mem := store8 (mem s) x v\<rparr>)"
proof -
  show "kernel_inv (s\<lparr>mem := store8 (mem s) x v\<rparr>)" if "x < 0x800000"
  proof -
    have "only_changes 0 0x800000 (mem s) (store8 (mem s) x v)"
      using that by (intro only_changes_store8) (simp_all add: word_less_nat_alt)
    then show ?thesis by (rule kernel_inv_low [OF assms])
  qed
  assume heap: "heap_beginning s \<noteq> 0" and own: "owns s p k" and x: "x \<in> region p k"
  have "unat p \<le> unat x \<and> unat x < unat p + k"
    using x owns_bounds(2) [OF own] by (simp add: region_interval HEAP_LIMIT_def)
  then have w: "only_changes (unat p) (unat p + k) (mem s) (store8 (mem s) x v)"
    by (intro only_changes_store8) simp_all
  have "heap_inv (s\<lparr>mem := store8 (mem s) x v\<rparr>)" by (rule owns_heap_inv [OF owned_write_owns(1) [OF own w own]])
  then show "kernel_inv (s\<lparr>mem := store8 (mem s) x v\<rparr>)"
    by (intro kernel_inv_heap [OF assms heap]) (use owned_write_owns(1) [OF own w] in simp_all)
qed

lemma kernel_step_inv:
  assumes "kernel_step b s t" and "kernel_inv s"
  shows "kernel_inv t"
  using assms
proof (induction rule: kernel_step.induct)
  case (step_enable s)
  then show ?case by (simp add: scheduler_enable_def)
next
  case (step_task_exit s t)
  then show ?case using kernel_inv_task_exit [of s] by auto
next
  case (step_user_store x s v)
  then show ?case by (intro kernel_inv_store(2)) (simp_all add: USER_STACK_TOP_def)
qed (rule kernel_inv_put_chars kernel_inv_get_key kernel_inv_create kernel_inv_reap kernel_inv_malloc
    kernel_inv_free kernel_inv_store(1) stub_inv; assumption)+

text \<open>
  What a stub does when the handler of its vector is called in a good state: nothing but the
  undefined system call keeps an interrupt from returning or stopping the machine.
\<close>

lemma irq_stub_outcome:
  fixes s :: "'a sys_scheme"
  assumes "kernel_inv s" and "n < 16"
  shows "if open_exit b (interrupt_handlers s ! unat (32 + n)) frame then \<exists>e. irq_stub_run b n frame s = UB e
    else \<exists>frame' t. irq_stub_run b n frame s = Ok (frame', t)"
proof -
  define fr where "fr = frame\<lparr>fr_int_no := 32 + n, fr_err_code := 0\<rparr>"
  have inv: "kernel_inv (cli s)" using assms(1) by (simp add: cli_def)
  have cli: "interrupt_handlers (cli s) = interrupt_handlers s" by (simp add: cli_def)
  have "unat (32 + n) < 256" "fr_int_no fr = 32 + n"
    using assms(2) by (simp_all add: fr_def unat_word_ariths word_less_nat_alt)
  then have eq: "irq_handler (call_handler b) fr (cli s)
      = bind_ok (case interrupt_handlers s ! unat (32 + n) of
          Some h \<Rightarrow> call_handler b h fr (cli s) | None \<Rightarrow> Ok (fr, cli s))
        (\<lambda>(frame, s). Ok (frame, pic_send_eoi (ucast (fr_int_no frame - 32)) s))"
    by (simp add: irq_handler_def cli)
  have same: "open_exit b h fr = open_exit b h frame" for h by (simp add: open_exit_def fr_def)
  show ?thesis
  proof (cases "interrupt_handlers s ! unat (32 + n)")
    case None
    then show ?thesis
      unfolding irq_stub_run_def fr_def [symmetric] eq by (simp add: open_exit_def iretq_def)
  next
    case (Some h)
    then show ?thesis
      using open_exit_undefined [of b h fr "cli s"] call_handler_returns [of b h fr, OF _ inv]
      unfolding irq_stub_run_def fr_def [symmetric] eq by (auto simp: same iretq_def)
  qed
qed

lemma isr_stub_outcome:
  fixes s :: "'a sys_scheme"
  assumes "kernel_inv s" and "n < 256"
  shows "if n \<notin> {8, 13} \<and> open_exit b (interrupt_handlers s ! unat n) frame then \<exists>e. isr_stub_run b n frame s = UB e
    else \<exists>frame' t. isr_stub_run b n frame s \<in> {Ok (frame', t), Halt (frame', t)}"
proof -
  define fr where "fr = frame\<lparr>fr_int_no := n, fr_err_code := (if pushes_error n then fr_err_code frame else 0)\<rparr>"
  let ?x = "isr_handler (call_handler b) (slot_upper b) (cr2 b) fr (cli s)"
  have inv: "kernel_inv (cli s)" using assms(1) by (simp add: cli_def)
  have cli: "interrupt_handlers (cli s) = interrupt_handlers s" by (simp add: cli_def)
  have no: "fr_int_no fr = n" by (simp add: fr_def)
  have small: "unat n < 256" using assms(2) by (simp add: word_less_nat_alt)
  have same: "open_exit b h fr = open_exit b h frame" for h by (simp add: open_exit_def fr_def)
  show ?thesis
  proof (cases "n \<in> {8, 13} \<or> interrupt_handlers s ! unat n = None")
    case True
    then have fatal: "fr_int_no fr \<in> {8, 13} \<or> fr_int_no fr < 256
        \<and> interrupt_handlers (cli s) ! unat (fr_int_no fr) = None" using assms(2) by (simp add: no cli)
    have "\<not> (n \<notin> {8, 13} \<and> open_exit b (interrupt_handlers s ! unat n) frame)"
      using True by (auto simp: open_exit_def)
    then show ?thesis
      using isr_fatal [OF kernel_invD(1) [OF inv] fatal, of "call_handler b" "slot_upper b" "cr2 b"]
      unfolding isr_stub_run_def fr_def [symmetric] by auto
  next
    case False
    then obtain h where h: "interrupt_handlers s ! unat n = Some h" by auto
    have "?x = call_handler b h fr (cli s)"
      using False h small by (cases "n = 14") (simp_all add: isr_handler_def no cli)
    then show ?thesis
      using open_exit_undefined [of b h fr "cli s"] call_handler_returns [of b h fr, OF _ inv] False h
      unfolding isr_stub_run_def fr_def [symmetric] by (auto simp: same iretq_def)
  qed
qed

lemma kernel_steps_inv:
  assumes "(kernel_step b)\<^sup>*\<^sup>* s t" and "kernel_inv s"
  shows "kernel_inv t"
  using assms
proof (induction rule: rtranclp_induct)
  case (step t u)
  then show ?case using kernel_step_inv by blast
qed

section \<open>Properties\<close>

text \<open>
  C4: the kernel's invariant survives any interleaving of interrupts and kernel and user
  code: terminal, keyboard ring, handler table, task table and heap stay well formed, every
  task keeps a stack of its own, and nothing the user program does to its memory matters.
\<close>

theorem kernel_invariant:
  assumes "kernel_inv s" and "(kernel_step b)\<^sup>*\<^sup>* s t"
  shows "kernel_inv t"
  using assms(2,1) by (rule kernel_steps_inv)

definition example_board :: board where
  "example_board = \<lparr>devices = (\<lambda>_ _. 0x1E), slot_upper = 0, cr2 = 0, gdt_addr = 0x104000, tss_addr = 0x105000,
     kernel_stack_top = 0x90000, idt_addr = 0x106000, isr_stub = (\<lambda>n. 0x101000 + of_nat n),
     irq_stub = (\<lambda>n. 0x102000 + of_nat n), isr128_stub = 0x103000, kernel_end_addr = 0x110000,
     user_text_start = 0x108000, user_text_end = 0x108100, user_entry = 0x108010, resume_kernel = 0x100400\<rparr>"

lemma example_slots: "slots_ok example_board"
  by (simp add: slots_ok_def example_board_def)

lemma example_kernel_inv: "kernel_inv example_sys"
proof -
  have "heap_rel example_sys []"
    by (simp add: heap_rel_def example_sys_def fs.defs tasks.defs example_tasks_def HEAP_LOW_def HEAP_LIMIT_def)
  then have "heap_inv example_sys" by (auto simp: heap_inv_def)
  moreover have "live example_sys
      = [example_task 0 TASK_READY, example_task 1 TASK_DONE, example_task 2 TASK_READY]"
    by (simp add: live_def example_sys_def fs.defs tasks.defs example_tasks_def)
  moreover have "table_inv example_sys" "kbd_inv example_sys" "length (interrupt_handlers example_sys) = 256"
    "heap_beginning example_sys = 0x800000"
    by (simp_all add: table_inv_def kbd_inv_def example_sys_def fs.defs tasks.defs example_tasks_def)
  ultimately show ?thesis
    using example_sys_inv
    by (simp add: kernel_inv_def memory_ok_def task_inv_def numbered_def stacks_owned_def stacks_def
        example_task_def upt_conv_Cons)
qed

theorem kernel_invariant_witness:
  "kernel_inv (put_chars [65] (scheduler_enable example_sys))"
  by (rule kernel_invariant [OF example_kernel_inv, of example_board])
    (meson r_into_rtranclp rtranclp_trans step_enable step_print)

text \<open>
  C5: what an interrupt that arrives in a reachable state does: a hardware interrupt returns to
  the interrupted code (or the task chosen instead), and an exception or system call returns or
  stops the machine in a panic. There is one exception, and it is always undefined behaviour:
  the system call \<open>exit(0)\<close> when the half of the variadic slot that an \<open>int\<close> leaves open holds
  0x80000000, so that \<open>%d\<close> reads the smallest 64-bit integer.
\<close>

theorem interrupts_defined:
  assumes "kernel_inv s" and "(kernel_step b)\<^sup>*\<^sup>* s t" and "n < 16" and "m < 256"
  shows "(if open_exit b (interrupt_handlers t ! unat (32 + n)) frame then \<exists>e. irq_stub_run b n frame t = UB e
      else \<exists>frame' u. irq_stub_run b n frame t = Ok (frame', u))
    \<and> (if m \<notin> {8, 13} \<and> open_exit b (interrupt_handlers t ! unat m) frame then \<exists>e. isr_stub_run b m frame t = UB e
      else \<exists>frame' u. isr_stub_run b m frame t \<in> {Ok (frame', u), Halt (frame', u)})"
proof -
  have "kernel_inv t" using assms(2,1) by (rule kernel_steps_inv)
  then show ?thesis
    using irq_stub_outcome [OF _ assms(3), of t b frame] isr_stub_outcome [OF _ assms(4), of t b frame] by blast
qed

text \<open>A timer interrupt, and \<open>exit(0)\<close> on a board with the bad slot.\<close>

theorem interrupts_defined_witness:
  "(\<exists>frame' u. irq_stub_run example_board 0 example_frame (scheduler_enable example_sys) = Ok (frame', u))
    \<and> (\<exists>e. isr_stub_run (example_board\<lparr>slot_upper := 0x80000000\<rparr>) 0x80 (example_frame\<lparr>fr_rax := 60\<rparr>)
        (register_interrupt_handler 0x80 Syscall_handler example_sys) = UB e)"
proof
  show "\<exists>frame' u. irq_stub_run example_board 0 example_frame (scheduler_enable example_sys) = Ok (frame', u)"
    using interrupts_defined [OF example_kernel_inv, where b = example_board and t = "scheduler_enable example_sys"
        and n = 0 and m = 0 and frame = example_frame] step_enable [of example_board example_sys]
    by (auto simp: open_exit_def example_board_def)
  let ?s = "register_interrupt_handler 0x80 Syscall_handler example_sys"
  have "interrupt_handlers ?s ! 128 = Some Syscall_handler"
    using registered(1) [OF kernel_invD(3) [OF example_kernel_inv], of "0x80" Syscall_handler "0x80"] by simp
  then show "\<exists>e. isr_stub_run (example_board\<lparr>slot_upper := 0x80000000\<rparr>) 0x80 (example_frame\<lparr>fr_rax := 60\<rparr>) ?s = UB e"
    using interrupts_defined [OF kernel_inv_register [OF example_kernel_inv, of "0x80" Syscall_handler], where t = ?s
        and b = "example_board\<lparr>slot_upper := 0x80000000\<rparr>" and n = 0 and m = "0x80" and frame = "example_frame\<lparr>fr_rax := 60\<rparr>"]
    by (simp add: open_exit_def example_frame_def)
qed

end
