(* ===== verification/User_Program.thy ===== *)
theory User_Program
  imports Kernel_Invariant
begin

text \<open>
  The user program of \<open>kernel/kernel/user_code.c\<close> from its first instruction to the jump
  back into the kernel: its five lines reach the screen through the interrupt stub, the
  dispatcher, the system call handler and the terminal.
\<close>

section \<open>The screen and the rest of the memory\<close>

lemma cell_in_vga: "i < 2000 \<Longrightarrow> x \<in> region (VGA + 2 * of_nat i) 2 \<Longrightarrow> x \<in> vga_region"
proof -
  assume i: "i < 2000" and "x \<in> region (VGA + 2 * of_nat i) 2"
  then obtain k where "k < 2" "x = VGA + of_nat (2 * i + k)" by (auto elim!: region_member simp: add.assoc)
  with i show ?thesis using of_nat_in_region [of "2 * i + k" 4000 VGA] by (simp add: vga_region_def)
qed

lemma screen_of_mem:
  assumes "terminal_buffer s = VGA" and "\<And>x. x \<in> vga_region \<Longrightarrow> m x = mem s x"
  shows "screen_of (s\<lparr>mem := m\<rparr>) = screen_of s"
proof -
  have "load16 m (VGA + 2 * of_nat i) = load16 (mem s) (VGA + 2 * of_nat i)" if "i < 2000" for i
    by (rule load16_cong) (use cell_in_vga [OF that] assms(2) in blast)
  with assms(1) show ?thesis by (simp add: screen_of_def tty_cell_def)
qed

lemma screen_of_flags [simp]: "screen_of (s\<lparr>if_flag := f\<rparr>) = screen_of s"
  by (simp add: screen_of_def tty_cell_def)

lemma tty_inv_flags [simp]: "tty_inv (s\<lparr>if_flag := f\<rparr>) = tty_inv s" "tty_inv (s\<lparr>mem := m\<rparr>) = tty_inv s"
  by (simp_all add: tty_inv_def)

section \<open>One system call through the stub\<close>

text \<open>What stays the same from one call to the next.\<close>

definition user_env :: "'a sys_scheme \<Rightarrow> 'a sys_scheme \<Rightarrow> bool" where
  "user_env s t \<longleftrightarrow> tty_inv t \<and> terminal_color t = terminal_color s \<and> tty.more t = tty.more s"

lemma user_env_update [simp]:
  "user_env s (t\<lparr>if_flag := f\<rparr>) = user_env s t" "user_env s (t\<lparr>mem := m\<rparr>) = user_env s t"
  by (simp_all add: user_env_def)

lemma user_env_frame: "user_env s t \<Longrightarrow> tty_inv u \<Longrightarrow> tty_frame t u \<Longrightarrow> user_env s u"
  by (auto simp: user_env_def tty_frame_def)

lemma user_env_fields:
  assumes "user_env s t"
  shows "interrupt_handlers t = interrupt_handlers s" and "resume_kernel_func t = resume_kernel_func s"
    and "saved_kernel_rsp t = saved_kernel_rsp s" and "heap_beginning t = heap_beginning s"
    and "scheduling_enabled t = scheduling_enabled s"
  using assms by (cases s; cases t; simp add: user_env_def)+

lemma stub_syscall:
  fixes s :: "'a sys_scheme"
  assumes "interrupt_handlers s ! 128 = Some Syscall_handler"
  shows "isr_stub_run b 0x80 frame s
    = bind_ok (syscall_handler (slot_upper b) (frame\<lparr>fr_int_no := 0x80, fr_err_code := 0\<rparr>) (cli s)) iretq"
  using assms by (simp add: isr_stub_run_def isr_handler_def pushes_error_def cli_def)

lemma write_call:
  fixes s t :: "'a sys_scheme"
  assumes env: "user_env s t" and h: "interrupt_handlers s ! 128 = Some Syscall_handler"
    and buf: "0x400000 \<le> msg" "msg < 0x800000" "unat msg + unat len \<le> 0x800000"
  obtains frame' u where "system_call b 1 msg len (frame, t) = Ok (frame', u)" and "user_env s u"
    and "\<forall>x. x \<notin> vga_region \<longrightarrow> mem u x = mem t x"
    and "screen_of u = fold (put_spec (terminal_color s))
      (cstr ''[syscall] '' @ map (\<lambda>i. mem t (msg + of_nat i)) [0..<unat len]) (screen_of t)"
proof -
  let ?fr = "frame\<lparr>fr_rax := 1, fr_rdi := msg, fr_rsi := len, fr_int_no := 0x80, fr_err_code := 0\<rparr>"
  let ?out = "cstr ''[syscall] '' @ map (\<lambda>i. mem t (msg + of_nat i)) [0..<unat len]"
  let ?u = "put_chars ?out (cli t)"
  have inv: "tty_inv (cli t)" and handler: "interrupt_handlers t ! 128 = Some Syscall_handler"
    using env h user_env_fields(1) [OF env] by (simp_all add: user_env_def cli_def)
  have "syscall_handler (slot_upper b) ?fr (cli t) = Ok (?fr\<lparr>fr_rax := len\<rparr>, ?u)"
    using syscall_write [OF inv, of ?fr "slot_upper b"] buf by (simp add: cli_def)
  then have call: "system_call b 1 msg len (frame, t)
      = Ok (?fr\<lparr>fr_rax := len\<rparr>, ?u\<lparr>if_flag := bit (fr_rflags frame) 9\<rparr>)"
    by (simp add: system_call_def stub_syscall [OF handler] iretq_def)
  have frame: "tty_frame (cli t) ?u" by (rule put_chars_frame [OF inv])
  show thesis
  proof (rule that [OF call])
    have "user_env s (cli t)" using env by (simp add: cli_def)
    then show "user_env s (?u\<lparr>if_flag := bit (fr_rflags frame) 9\<rparr>)"
      using user_env_frame [OF _ put_chars_inv [OF inv] frame] by simp
    show "\<forall>x. x \<notin> vga_region \<longrightarrow> mem (?u\<lparr>if_flag := bit (fr_rflags frame) 9\<rparr>) x = mem t x"
      using frame_mem [OF frame] by (simp add: cli_def)
    show "screen_of (?u\<lparr>if_flag := bit (fr_rflags frame) 9\<rparr>) = fold (put_spec (terminal_color s)) ?out (screen_of t)"
      using put_chars_screen [OF inv, of ?out] env by (simp add: cli_def user_env_def)
  qed
qed

definition exit_text :: "u32 \<Rightarrow> u8 list" where
  "exit_text upper = cstr ''[syscall] user programm exited with code: ''
     @ signed_text (sint (push_bit 32 (ucast upper) :: u64)) @ [10]"

lemma exit_call:
  fixes s t :: "'a sys_scheme"
  assumes env: "user_env s t" and h: "interrupt_handlers s ! 128 = Some Syscall_handler"
    and slots: "slots_ok b"
  obtains frame' u where "system_call b 60 0 0 (frame, t) = Ok (frame', u)" and "if_flag u"
    and "fr_rip frame' = resume_kernel_func s" and "fr_cs frame' = 0x08" and "fr_ss frame' = 0x10"
    and "fr_rsp frame' = saved_kernel_rsp s"
    and "screen_of u = fold (put_spec (terminal_color s)) (exit_text (slot_upper b)) (screen_of t)"
    and "user_env s u"
proof -
  let ?fr = "frame\<lparr>fr_rax := 60, fr_rdi := 0, fr_rsi := 0, fr_int_no := 0x80, fr_err_code := 0\<rparr>"
  let ?u = "put_chars (exit_text (slot_upper b)) (cli t)"
  have inv: "tty_inv (cli t)" and handler: "interrupt_handlers t ! 128 = Some Syscall_handler"
    using env h user_env_fields(1) [OF env] by (simp_all add: user_env_def cli_def)
  have slot: "int_slot (slot_upper b) 0 = Slot (push_bit 32 (ucast (slot_upper b)))"
    by (simp add: int_slot_def)
  have min: "sint (push_bit 32 (ucast (slot_upper b)) :: u64) \<noteq> INT64_MIN"
    using int_slot_min [of "slot_upper b" 0] slot slots by (simp add: slots_ok_def)
  have "say ''[syscall] user programm exited with code: %d\<newline>'' [int_slot (slot_upper b) 0] (cli t) = Ok ?u"
    by (rule say_text, simp add: cstr_def, use min in \<open>simp add: cstr_def slot exit_text_def\<close>,
        use decimal_text_length [OF min] in \<open>simp add: exit_text_def cstr_def\<close>)
  moreover have frame: "tty_frame (cli t) ?u" by (rule put_chars_frame [OF inv])
  moreover from frame have "resume_kernel_func ?u = resume_kernel_func s" "saved_kernel_rsp ?u = saved_kernel_rsp s"
    using user_env_fields(2,3) [OF env] by (auto simp: tty_frame_def cli_def)
  ultimately have call: "system_call b 60 0 0 (frame, t)
      = Ok (?fr\<lparr>fr_rip := resume_kernel_func s, fr_cs := 0x08, fr_ss := 0x10, fr_rsp := saved_kernel_rsp s,
          fr_rflags := 0x202\<rparr>, ?u\<lparr>if_flag := True\<rparr>)"
    by (simp add: system_call_def stub_syscall [OF handler] syscall_handler_def SYS_WRITE_def SYS_EXIT_def iretq_def)
  have "user_env s (cli t)" using env by (simp add: cli_def)
  then have "user_env s ?u" by (rule user_env_frame [OF _ put_chars_inv [OF inv] frame])
  moreover have "screen_of ?u = fold (put_spec (terminal_color s)) (exit_text (slot_upper b)) (screen_of t)"
    using put_chars_screen [OF inv, of "exit_text (slot_upper b)"] env by (simp add: cli_def user_env_def)
  ultimately show thesis by (intro that [OF call]) simp_all
qed

section \<open>The loop\<close>

definition count_line :: "nat \<Rightarrow> u8 list" where
  "count_line k = cstr ''[syscall] count '' @ [of_nat (48 + k), 10]"

text \<open>\<open>out\<close> has been printed since state \<open>s\<close>, and the buffer is intact but for the digit.\<close>

definition counting :: "'a sys_scheme \<Rightarrow> u64 \<Rightarrow> u8 list \<Rightarrow> 'a sys_scheme \<Rightarrow> bool" where
  "counting s msg out t \<longleftrightarrow> user_env s t \<and> screen_of t = fold (put_spec (terminal_color s)) out (screen_of s)
     \<and> stored (mem t) msg (cstr ''count '') \<and> mem t (msg + 7) = 10"

lemma buffer_outside:
  assumes "0x400000 \<le> msg" and "msg < 0x800000" and "unat msg + 8 \<le> 0x800000" and "i < 8"
  shows "msg + of_nat i \<notin> vga_region"
  by (rule user_not_screen [OF assms(1,2), of 8]) 
    (use assms unat_minus_le [of msg "0x800000"] in \<open>simp_all add: word_le_nat_alt word_less_nat_alt\<close>)

lemma length_count: "length (cstr ''count '') = 6"
  by (simp add: cstr_def)

lemma user_round_counts:
  fixes s t :: "'a sys_scheme"
  assumes count: "counting s msg out t" and h: "interrupt_handlers s ! 128 = Some Syscall_handler"
    and buf: "0x400000 \<le> msg" "msg < 0x800000" "unat msg + 8 \<le> 0x800000"
  obtains frame' u where "user_round b msg k (frame, t) = Ok (frame', u)" and "counting s msg (out @ count_line k) u"
proof -
  let ?t = "t\<lparr>mem := store8 (mem t) (msg + 6) (of_nat (48 + k))\<rparr>"
  have env: "user_env s ?t" using count by (simp add: counting_def)
  note outside = buffer_outside [OF buf]
  have bytes: "mem ?t (msg + of_nat i) = (cstr ''count '' @ [of_nat (48 + k), 10]) ! i" if "i < 8" for i
  proof -
    have "i \<in> set [0..<8]" using that by simp
    then consider "i = 6" | "i = 7" | "i < 6" by fastforce
    then show ?thesis
    proof cases
      case 3
      then have "of_nat i \<noteq> (6 :: u64)" by (auto simp: word_unat_eq_iff unat_of_nat take_bit_nat_eq_self)
      with 3 count show ?thesis by (simp add: store8_def counting_def stored_def nth_append length_count)
    qed (use count in \<open>simp_all add: store8_def counting_def cstr_def\<close>)
  qed
  have room: "unat msg + unat (8 :: u64) \<le> 0x800000" using buf(3) by simp
  obtain frame' u where u: "system_call b 1 msg 8 (frame, ?t) = Ok (frame', u)" "user_env s u"
    "\<forall>x. x \<notin> vga_region \<longrightarrow> mem u x = mem ?t x"
    "screen_of u = fold (put_spec (terminal_color s))
      (cstr ''[syscall] '' @ map (\<lambda>i. mem ?t (msg + of_nat i)) [0..<unat (8 :: u64)]) (screen_of ?t)"
    by (rule write_call [OF env h buf(1,2) room, where b = b and frame = frame])
  have line: "cstr ''[syscall] '' @ map (\<lambda>i. mem ?t (msg + of_nat i)) [0..<unat (8 :: u64)] = count_line k"
  proof -
    have "map (\<lambda>i. mem ?t (msg + of_nat i)) [0..<8] = cstr ''count '' @ [of_nat (48 + k), 10]"
      by (rule nth_equalityI) (use bytes in \<open>simp_all add: cstr_def\<close>)
    then show ?thesis by (simp add: count_line_def cstr_def)
  qed
  have "screen_of ?t = screen_of t"
    by (rule screen_of_mem) (use count outside [of 6] in \<open>auto simp: counting_def user_env_def tty_inv_def store8_def\<close>)
  with u(4) [unfolded line] count have "screen_of u = fold (put_spec (terminal_color s)) (out @ count_line k) (screen_of s)"
    by (simp add: counting_def)
  moreover have "stored (mem u) msg (cstr ''count '')"
    using bytes u(3) outside by (auto simp: stored_def nth_append length_count)
  moreover have "mem u (msg + 7) = 10" using bytes [of 7] u(3) outside [of 7] by (simp add: cstr_def)
  ultimately show thesis using u(1,2) by (intro that) (simp_all add: user_round_def counting_def)
qed

lemma user_rounds_count:
  fixes s t :: "'a sys_scheme"
  assumes "counting s msg out t" and "interrupt_handlers s ! 128 = Some Syscall_handler"
    and "0x400000 \<le> msg" "msg < 0x800000" "unat msg + 8 \<le> 0x800000"
  shows "\<exists>frame' u. foldl bind_ok (Ok (frame, t)) (map (user_round b msg) ks) = Ok (frame', u)
    \<and> counting s msg (out @ concat (map count_line ks)) u"
  using assms(1)
proof (induction ks arbitrary: out frame t)
  case (Cons k ks)
  obtain frame' u where "user_round b msg k (frame, t) = Ok (frame', u)" "counting s msg (out @ count_line k) u"
    by (rule user_round_counts [OF Cons.prems assms(2-5)])
  with Cons.IH [of "out @ count_line k" u frame'] show ?case by simp
qed simp

lemma user_program_effect:
  fixes s :: "'a sys_scheme"
  assumes "tty_inv s" and "interrupt_handlers s ! 128 = Some Syscall_handler" and "slots_ok b"
    and "0x400000 \<le> msg" and "unat msg + 8 \<le> 0x800000"
  shows "\<exists>frame' t. user_test_entry b msg frame s = Ok (frame', t) \<and> if_flag t
    \<and> fr_rip frame' = resume_kernel_func s \<and> fr_cs frame' = 0x08 \<and> fr_ss frame' = 0x10
    \<and> fr_rsp frame' = saved_kernel_rsp s
    \<and> screen_of t = fold (put_spec (terminal_color s))
        (concat (map count_line [1, 2, 3, 4, 5]) @ exit_text (slot_upper b)) (screen_of s)
    \<and> user_env s t"
proof -
  have msg: "msg < 0x800000" using assms(5) by (simp add: word_less_nat_alt)
  let ?m = "fold (\<lambda>i m. store8 m (msg + of_nat i) (cstr ''count 0\<newline>'' ! i)) [0..<8] (mem s)"
  let ?s = "s\<lparr>mem := ?m\<rparr>"
  have other: "?m x = mem s x" if "x \<in> vga_region" for x
  proof -
    have "x \<noteq> msg + of_nat i" if "i < 8" for i
      using buffer_outside [OF assms(4) msg assms(5) that] \<open>x \<in> vga_region\<close> by blast
    then have "fold (\<lambda>i m. store8 m (msg + of_nat i) (bs ! i)) is m x = m x" if "set is \<subseteq> {0..<8}" for "is" bs m
      using that by (induction "is" arbitrary: m) (auto simp: store8_def)
    then show ?thesis by simp
  qed
  have "screen_of ?s = screen_of s"
    by (rule screen_of_mem) (use assms(1) other in \<open>simp_all add: tty_inv_def\<close>)
  moreover have "stored ?m msg (cstr ''count '')" "?m (msg + 7) = 10"
    by (simp_all add: stored_Cons cstr_def upt_conv_Cons store8_def add.assoc)
  ultimately have "counting s msg [] ?s" using assms(1) by (simp add: counting_def user_env_def)
  then obtain frame1 u where u: "foldl bind_ok (Ok (frame, ?s)) (map (user_round b msg) [1..<6]) = Ok (frame1, u)"
    "counting s msg (concat (map count_line [1..<6])) u"
    using user_rounds_count [OF _ assms(2,4) msg assms(5), of "[]" ?s frame b "[1..<6]"] by auto
  then have env: "user_env s u" by (simp add: counting_def)
  obtain frame' t where "system_call b 60 0 0 (frame1, u) = Ok (frame', t)" "if_flag t"
    "fr_rip frame' = resume_kernel_func s" "fr_cs frame' = 0x08" "fr_ss frame' = 0x10"
    "fr_rsp frame' = saved_kernel_rsp s"
    "screen_of t = fold (put_spec (terminal_color s)) (exit_text (slot_upper b)) (screen_of u)" "user_env s t"
    by (rule exit_call [OF env assms(2,3)])
  moreover have "user_test_entry b msg frame s = system_call b 60 0 0 (frame1, u)"
    unfolding user_test_entry_def Let_def u(1) by simp
  moreover have "[1..<6] = [1, 2, 3, 4, 5 :: nat]" by (simp add: upt_conv_Cons)
  ultimately show ?thesis using u(2) by (auto simp: counting_def)
qed

section \<open>Properties\<close>

text \<open>
  C19: the user program does what it is written to do: run in any state where the system call
  handler is registered and its buffer lies in user space, it prints the five lines
  \<open>count 1\<close> to \<open>count 5\<close>, each behind the prefix of the system call, then the exit message,
  and the frame it leaves leads to the registered continuation in the kernel with the kernel's
  segments, the saved stack and interrupts enabled.
\<close>

theorem user_program_runs:
  fixes s :: "'a sys_scheme"
  assumes "tty_inv s" and "interrupt_handlers s ! 128 = Some Syscall_handler" and "slots_ok b"
    and "0x400000 \<le> msg" and "unat msg + 8 \<le> 0x800000"
  shows "\<exists>frame' t. user_test_entry b msg frame s = Ok (frame', t) \<and> if_flag t
    \<and> fr_rip frame' = resume_kernel_func s \<and> fr_cs frame' = 0x08 \<and> fr_ss frame' = 0x10
    \<and> fr_rsp frame' = saved_kernel_rsp s
    \<and> screen_of t = fold (put_spec (terminal_color s))
        (concat (map count_line [1, 2, 3, 4, 5]) @ exit_text (slot_upper b)) (screen_of s)"
  using user_program_effect [OF assms, of frame] by blast

theorem user_program_runs_witness:
  "\<exists>frame' t. user_test_entry example_board 0x7FFFE0 example_frame (syscall_init 0x100400 example_sys) = Ok (frame', t)
    \<and> fr_rip frame' = 0x100400 \<and> fr_cs frame' = 0x08"
proof -
  let ?s = "syscall_init 0x100400 example_sys"
  have "tty_inv ?s" "resume_kernel_func ?s = 0x100400"
    using example_sys_inv by (simp_all add: syscall_init_def register_interrupt_handler_def tty_inv_def)
  moreover have "interrupt_handlers ?s ! 128 = Some Syscall_handler"
    using kernel_invD(3) [OF example_kernel_inv]
    by (simp add: syscall_init_def register_interrupt_handler_def)
  ultimately show ?thesis
    using user_program_runs [OF _ _ example_slots, of ?s "0x7FFFE0" example_frame] by auto
qed

end
