(* ===== verification/Kernel_Boot.thy ===== *)
theory Kernel_Boot
  imports User_Program
begin

text \<open>
  Hardware interrupts that find the boot code waiting in \<open>hlt\<close>: when they are delivered, and
  the wait of \<open>timer_kernel\<close> for timer interrupts that run through the controller, the gate,
  the stub, the dispatcher and the timer's handler.
\<close>

section \<open>Hardware interrupts\<close>

text \<open>
  What \<open>interrupt_kernel\<close> sets up: interrupts enabled, the master controller remapped, and
  the gates of the hardware interrupts leading to their stubs.
\<close>

definition interrupts_on :: "board \<Rightarrow> 'a kernel_scheme \<Rightarrow> bool" where
  "interrupts_on b s \<longleftrightarrow> if_flag s \<and> remapped (io_log s)
     \<and> (\<forall>n < 16. idt_entry b (32 + n) s = Some (irq_stub b n, 0x08, 0))"

text \<open>Requests on line \<open>n\<close> reach their stub.\<close>

definition line_on :: "board \<Rightarrow> nat \<Rightarrow> 'a kernel_scheme \<Rightarrow> bool" where
  "line_on b n s \<longleftrightarrow> interrupts_on b s \<and> request_vector (io_log s) n = Some (32 + n)"

text \<open>The variables this depends on.\<close>

definition same_lines :: "'a kernel_scheme \<Rightarrow> 'a kernel_scheme \<Rightarrow> bool" where
  "same_lines s t \<longleftrightarrow> if_flag t = if_flag s \<and> master (io_log t) = master (io_log s)
     \<and> k_idt t = k_idt s \<and> k_idtr t = k_idtr s"

lemma same_lines_trans: "same_lines s t \<Longrightarrow> same_lines t u \<Longrightarrow> same_lines s u"
  by (simp add: same_lines_def)

lemma same_lines_frame: "tty_frame s t \<Longrightarrow> same_lines s t"
  by (auto simp: tty_frame_def same_lines_def)

lemma idt_entry_same: "k_idt t = k_idt s \<Longrightarrow> k_idtr t = k_idtr s \<Longrightarrow> idt_entry b v t = idt_entry b v s"
  by (simp add: idt_entry_def)

lemma same_lines_on: "interrupts_on b s \<Longrightarrow> same_lines s t \<Longrightarrow> interrupts_on b t"
  using idt_entry_same [of t s b] by (simp add: same_lines_def interrupts_on_def remapped_def)

lemma line_on_same:
  assumes "line_on b n s" and "n < 8" and "same_lines s t"
  shows "line_on b n t"
proof -
  have "request_vector (io_log t) n = request_vector (io_log s) n"
    using assms(2,3) by (simp add: request_vector_def same_lines_def)
  with assms same_lines_on [of b s t] show ?thesis by (simp add: line_on_def)
qed

lemma flag_set [simp]: "bit (rflags OR 0x200 :: u64) 9"
  by (simp add: bit_simps)

lemma hw_irq_run:
  assumes "line_on b n s" and "n < 16"
    and "irq_stub_run b (of_nat n) (pushed_frame frame s) s
      = Ok ((pushed_frame frame s)\<lparr>fr_int_no := i, fr_err_code := e\<rparr>, t)"
  shows "hw_irq b n frame s = Some t"
  using assms by (simp add: hw_irq_def line_on_def interrupts_on_def resumes_def)

lemma pic_eoi_line:
  "irq < 8 \<Longrightarrow> pic_send_eoi irq u = u\<lparr>io_log := io_log u @ [Out 0x20 0x20]\<rparr>"
  using pic_send_eoi_events [of u irq] by (simp add: appends_def not_le)

lemma eoi_other_ports: "other_ports (evs @ [Out 0x20 0x20]) = other_ports evs"
  by (auto simp: other_ports_def)

section \<open>Timer interrupts\<close>

abbreviation tick :: "board \<Rightarrow> interrupt_frame \<Rightarrow> 'a kernel_scheme \<Rightarrow> 'a kernel_scheme option" where
  "tick b \<equiv> hw_irq b 0"

text \<open>The scheduler has nothing to switch to, or is off.\<close>

definition no_switch :: "'a tasks_scheme \<Rightarrow> bool" where
  "no_switch s \<longleftrightarrow> task_count s = 0 \<or> scheduling_enabled s = 0"

definition timed :: "board \<Rightarrow> 'a kernel_scheme \<Rightarrow> bool" where
  "timed b s \<longleftrightarrow> kernel_inv s \<and> interrupt_handlers s ! 32 = Some Pit_handler \<and> line_on b 0 s \<and> no_switch s"

lemma pit_no_switch:
  "no_switch s \<Longrightarrow> pit_handler frame s
    = Inr (frame, s\<lparr>ticks := ticks s + 1, kernel_frame_template := frame\<rparr>)"
  by (auto simp: no_switch_def pit_handler_def Let_def schedule_def)

text \<open>No memory but the screen has changed, and the heap is where it was.\<close>

definition same_memory :: "'a heap_scheme \<Rightarrow> 'a heap_scheme \<Rightarrow> bool" where
  "same_memory s t \<longleftrightarrow> (\<forall>x. x \<notin> vga_region \<longrightarrow> mem t x = mem s x) \<and> heap_beginning t = heap_beginning s"

lemma same_memory_trans: "same_memory s t \<Longrightarrow> same_memory t u \<Longrightarrow> same_memory s u"
  by (simp add: same_memory_def)

lemma same_memory_frame: "tty_frame s t \<Longrightarrow> same_memory s t"
  by (auto simp: tty_frame_def same_memory_def)

lemma tick_effect:
  fixes s :: "'a kernel_scheme"
  assumes "timed b s"
  obtains t where "tick b frame s = Some t" and "timed b t" and "ticks t = ticks s + 1" and "same_memory s t"
    and "same_lines s t"
proof -
  let ?p = "pushed_frame frame s"
  let ?fr = "?p\<lparr>fr_int_no := 32, fr_err_code := 0\<rparr>"
  let ?t = "s\<lparr>ticks := ticks s + 1, kernel_frame_template := ?fr, io_log := io_log s @ [Out 0x20 0x20], if_flag := True\<rparr>"
  have on: "line_on b 0 s" "if_flag s" using assms by (simp_all add: timed_def line_on_def interrupts_on_def)
  have h: "interrupt_handlers (cli s) ! 32 = Some Pit_handler" and no: "no_switch (cli s)"
    using assms by (simp_all add: timed_def cli_def no_switch_def)
  have "irq_stub_run b (of_nat 0) ?p s = Ok (?fr, ?t)"
    using h on(2) pit_no_switch [OF no, of ?fr]
    by (simp add: irq_stub_run_def irq_handler_def iretq_def pic_eoi_line cli_def) (simp add: pushed_frame_def)
  then have run: "tick b frame s = Some ?t" by (intro hw_irq_run [OF on(1)]) simp_all
  have same: "same_lines s ?t"
    using on(2) other_ports_master [of "[Out 0x20 0x20]" "io_log s"] by (simp add: same_lines_def other_ports_def)
  have "timed b ?t"
    using assms line_on_same [OF on(1) _ same] by (simp add: timed_def no_switch_def)
  then show thesis by (intro that [OF run]) (simp_all add: same same_memory_def)
qed

text \<open>The loop leaves after exactly as many interrupts as are missing.\<close>

lemma tick_loop_counts:
  fixes s :: "'a kernel_scheme"
  assumes "timed b s" and "unat (ticks s - start) + n = 300"
  shows "if length frames < n then tick_loop start (map (tick b) frames) s = None
    else \<exists>u. tick_loop start (map (tick b) frames) s = Some u \<and> timed b u \<and> ticks u = ticks s + of_nat n
      \<and> same_memory s u \<and> same_lines s u"
  using assms
proof (induction frames arbitrary: n s)
  case Nil
  then show ?case by (auto simp: tick_loop.simps word_less_nat_alt same_memory_def same_lines_def)
next
  case (Cons frame frames)
  show ?case
  proof (cases n)
    case 0
    with Cons.prems show ?thesis by (simp add: tick_loop.simps word_less_nat_alt same_memory_def same_lines_def)
  next
    case (Suc m)
    have less: "unat (ticks s - start) < 300" using Cons.prems(2) Suc by simp
    obtain t where t: "tick b frame s = Some t" "timed b t" "ticks t = ticks s + 1" "same_memory s t" "same_lines s t"
      by (rule tick_effect [OF Cons.prems(1)])
    have "ticks t - start = (ticks s - start) + 1" by (simp only: t(3) diff_add_eq)
    moreover have "unat ((ticks s - start) + 1) = unat (ticks s - start) + 1"
      using less by (subst unat_plus_no_wrap) simp_all
    ultimately have "unat (ticks t - start) + m = 300" using Cons.prems(2) Suc by presburger
    note IH = Cons.IH [OF t(2) this]
    have step: "tick_loop start (map (tick b) (frame # frames)) s = tick_loop start (map (tick b) frames) t"
      using less t(1) by (subst tick_loop.simps) (simp add: word_less_nat_alt)
    show ?thesis
      using IH same_memory_trans [OF t(4)] same_lines_trans [OF t(5)] unfolding step Suc
      by (auto simp: t(3) split: if_splits)
  qed
qed

lemma timed_put_chars:
  assumes "timed b s"
  shows "timed b (put_chars out s)" and "ticks (put_chars out s) = ticks s" and "same_memory s (put_chars out s)"
    and "same_lines s (put_chars out s)"
proof -
  have frame: "tty_frame s (put_chars out s)"
    using assms kernel_invD(1) by (auto simp: timed_def intro: put_chars_frame)
  then show "same_memory s (put_chars out s)" and same: "same_lines s (put_chars out s)"
    by (rule same_memory_frame, rule same_lines_frame)
  have "interrupt_handlers (put_chars out s) = interrupt_handlers s" "no_switch (put_chars out s) = no_switch s"
    and "ticks (put_chars out s) = ticks s"
    using frame by (auto simp: tty_frame_def no_switch_def)
  with assms show "timed b (put_chars out s)" "ticks (put_chars out s) = ticks s"
    using line_on_same [OF _ _ same] by (simp_all add: timed_def kernel_inv_put_chars)
qed

lemma timer_init_timed:
  fixes s :: "'a kernel_scheme"
  assumes "kernel_inv s" and "interrupts_on b s" and "no_switch s"
  obtains t where "timer_init dev 100 s = Inr t" and "timed b t" and "ticks t = 0" and "same_memory s t"
    and "interrupts_on b t"
proof -
  obtain evs old where evs: "other_ports evs"
    and init: "timer_init dev 100 s = Inr ((register_interrupt_handler 32 Pit_handler s)\<lparr>ticks := 0,
        io_log := io_log s @ evs @ [In 0x21 old, Out 0x21 (unmasked old)]\<rparr>)"
    by (rule that [OF _ timer_init_effect]) (simp_all add: other_ports_def)
  let ?t = "(register_interrupt_handler 32 Pit_handler s)\<lparr>ticks := 0,
    io_log := io_log s @ evs @ [In 0x21 old, Out 0x21 (unmasked old)]\<rparr>"
  have bit: "\<not> bit (unmasked old) 0" using unmasked_bits [of 0 old] by simp
  have line: "remapped (io_log ?t)" "request_vector (io_log ?t) 0 = Some (32 + 0)"
    using assms(2) remapped_mask [OF _ evs, of "io_log s" 0 "unmasked old" old] bit
    by (simp_all add: interrupts_on_def)
  have on: "interrupts_on b ?t"
    using assms(2) line(1) idt_entry_same [of ?t s b] by (simp add: interrupts_on_def register_interrupt_handler_def)
  have "kernel_inv (register_interrupt_handler 32 Pit_handler s)" by (rule kernel_inv_register [OF assms(1)])
  moreover have "interrupt_handlers (register_interrupt_handler 32 Pit_handler s) ! 32 = Some Pit_handler"
    using registered(1) [OF kernel_invD(3) [OF assms(1)], of 32 Pit_handler 32] by simp
  moreover have "no_switch ?t" using assms(3) by (simp add: no_switch_def register_interrupt_handler_def)
  moreover have "line_on b 0 ?t" unfolding line_on_def using on line(2) by blast
  ultimately have "timed b ?t" by (simp add: timed_def)
  moreover have "ticks ?t = 0" "same_memory s ?t" by (simp_all add: register_interrupt_handler_def same_memory_def)
  ultimately show thesis using on by (rule that [OF init])
qed

lemma timer_kernel_effect:
  fixes s :: "'a kernel_scheme"
  assumes "kernel_inv s" and "interrupts_on b s" and "no_switch s"
  shows "if length frames < 300 then timer_kernel b (map (tick b) frames) s = None
    else \<exists>t. timer_kernel b (map (tick b) frames) s = Some (Ok t) \<and> ticks t = 300 \<and> kernel_inv t \<and> same_memory s t
      \<and> interrupts_on b t \<and> k_idt t = k_idt s \<and> k_idtr t = k_idtr s"
proof -
  let ?s1 = "put_chars (cstr ''******TIMER******\<newline>'') s"
  have f1: "tty_frame s ?s1" by (rule put_chars_frame [OF kernel_invD(1) [OF assms(1)]])
  have no: "no_switch ?s1" using assms(3) f1 by (auto simp: tty_frame_def no_switch_def)
  obtain s2 where s2: "timer_init (devices b) 100 ?s1 = Inr s2" "timed b s2" "ticks s2 = 0" "same_memory ?s1 s2"
    "interrupts_on b s2"
    by (rule timer_init_timed [OF kernel_inv_put_chars [OF assms(1)] same_lines_on [OF assms(2) same_lines_frame [OF f1]] no])
  define s3 where "s3 = put_chars (cstr ''[timer] timer pit initialized with 100hz\<newline>'') s2"
  have s3: "timed b s3" "ticks s3 = 0" "same_memory s2 s3" "same_lines s2 s3"
    using timed_put_chars [OF s2(2)] s2(3) by (simp_all add: s3_def)
  let ?done_text = "''[timer] 300 ticks passed (3 seconds) so the timer is alive!\<newline>''"
  have out: "say ''******TIMER******\<newline>'' [] s = Ok ?s1" "say ''[timer] timer pit initialized with 100hz\<newline>'' [] s2 = Ok s3"
    "say ?done_text [] u = Ok (put_chars (cstr ?done_text) u)" for u :: "'a kernel_scheme"
    unfolding s3_def by (rule say_literal; simp add: cstr_def)+
  have loop: "if length frames < 300 then tick_loop (ticks s3) (map (tick b) frames) s3 = None
    else \<exists>u. tick_loop (ticks s3) (map (tick b) frames) s3 = Some u \<and> timed b u \<and> ticks u = ticks s3 + of_nat 300
      \<and> same_memory s3 u \<and> same_lines s3 u"
    by (rule tick_loop_counts [OF s3(1)]) simp
  show ?thesis
  proof (cases "length frames < 300")
    case True
    then show ?thesis using loop s2(1) out by (simp add: timer_kernel_def)
  next
    case False
    then obtain u where u: "tick_loop (ticks s3) (map (tick b) frames) s3 = Some u" "timed b u" "ticks u = 300"
      "same_memory s3 u" "same_lines s3 u" using loop s3(2) by auto
    let ?t = "put_chars (cstr ?done_text) u"
    note t = timed_put_chars [OF u(2), of "cstr ?done_text"]
    have "same_memory s ?s1" by (rule same_memory_frame [OF f1])
    then have mem: "same_memory s ?t" using s2(4) s3(3) u(4) t(3) same_memory_trans by blast
    have lines: "same_lines s2 ?t" using s3(4) u(5) t(4) same_lines_trans by blast
    have "k_idt s2 = k_idt ?s1" "k_idtr s2 = k_idtr ?s1"
      using s2(1) timer_init_effect [of 100 "devices b" ?s1] by (auto simp: register_interrupt_handler_def)
    then have "k_idt ?t = k_idt s" "k_idtr ?t = k_idtr s"
      using lines f1 by (auto simp: same_lines_def tty_frame_def)
    moreover have "timer_kernel b (map (tick b) frames) s = Some (Ok ?t)"
      using u(1) s2(1) out by (simp add: timer_kernel_def)
    ultimately show ?thesis
      using False t(1,2) u(3) mem same_lines_on [OF s2(5) lines] by (simp add: timed_def)
  qed
qed

text \<open>With interrupts disabled the loop never ends.\<close>

lemma tick_disabled:
  assumes "\<not> if_flag s"
  shows "tick_loop (ticks s) (map (tick b) frames) s = None"
  using assms by (induction frames) (simp_all add: tick_loop.simps hw_irq_def)

section \<open>An example\<close>

lemma kernel_inv_tables [simp]:
  "kernel_inv (s\<lparr>k_gdt := g\<rparr>) = kernel_inv s" "kernel_inv (s\<lparr>k_idt := i\<rparr>) = kernel_inv s"
  "kernel_inv (s\<lparr>k_idtr := r\<rparr>) = kernel_inv s"
  by (simp_all add: kernel_inv_def tty_inv_def kbd_inv_def memory_ok_def task_inv_def table_inv_def live_def
      stacks_owned_def heap_inv_def owns_def heap_rel_def)

definition example_kernel :: kernel where
  "example_kernel = sys.extend example_sys
     \<lparr>k_gdt = init_gdt 0x104000 0x105000 0x90000, k_idt = idt_zeroed, k_idtr = \<lparr>idtr_limit = 0, idtr_base = 0\<rparr>\<rparr>"

lemma kernel_inv_extend: "kernel_inv (sys.extend s x) = kernel_inv s"
  by (simp add: sys.extend_def kernel_inv_def tty_inv_def kbd_inv_def memory_ok_def task_inv_def table_inv_def
      live_def stacks_owned_def heap_inv_def owns_def heap_rel_def)

lemma example_kernel_ok: "kernel_inv example_kernel"
  by (simp add: example_kernel_def kernel_inv_extend example_kernel_inv)

text \<open>The same kernel after \<open>interrupt_kernel\<close> has set up its tables, before there are tasks.\<close>

definition example_running :: kernel where
  "example_running = example_kernel\<lparr>k_idt := fst (idt_init 0x106000 (isr_stub example_board) (irq_stub example_board) 0x103000 idt_zeroed),
     k_idtr := \<lparr>idtr_limit = 4095, idtr_base = 0x106000\<rparr>,
     io_log := [Out 0x20 0x11, Out 0x21 0x20, Out 0x21 4, Out 0x21 1], scheduling_enabled := 0\<rparr>"

section \<open>Properties\<close>

text \<open>
  C21: the timer test of the boot sequence waits for exactly 300 timer interrupts. Started with
  interrupts enabled, the controller remapped, the gates in place and the scheduler off or
  without tasks: with fewer than 300 requests it is still waiting, with 300 or more it goes on
  when the counter stands at 300, and the kernel's invariant holds, whatever registers the
  interrupts find.
\<close>

theorem timer_test_waits:
  fixes s :: "'a kernel_scheme"
  assumes "kernel_inv s" and "interrupts_on b s" and "task_count s = 0 \<or> scheduling_enabled s = 0"
  shows "if length frames < 300 then timer_kernel b (map (tick b) frames) s = None
    else \<exists>t. timer_kernel b (map (tick b) frames) s = Some (Ok t) \<and> ticks t = 300 \<and> kernel_inv t"
  using timer_kernel_effect [OF assms(1,2), of frames] assms(3) by (auto simp: no_switch_def split: if_splits)

lemma example_running_ok:
  "kernel_inv example_running" "interrupts_on example_board example_running" "scheduling_enabled example_running = 0"
proof -
  show "kernel_inv example_running" "scheduling_enabled example_running = 0"
    using example_kernel_ok by (simp_all add: example_running_def)
  have "if_flag example_running"
    by (simp add: example_running_def example_kernel_def sys.defs example_sys_def fs.defs tasks.defs example_tasks_def)
  moreover have "remapped (io_log example_running)"
    by (simp add: example_running_def remapped_def master_def bios_controller_def pic_consts)
  moreover have "idt_entry example_board (32 + n) example_running = Some (irq_stub example_board n, 0x08, 0)"
    if "n < 16" for n
    using that idt_gates [of "32 + n" "0x106000" "isr_stub example_board" "irq_stub example_board" "0x103000"]
    by (simp add: idt_entry_def example_running_def idt_init_parts)
      (simp add: example_board_def idt_zeroed_def)
  ultimately show "interrupts_on example_board example_running" by (simp add: interrupts_on_def)
qed

theorem timer_test_waits_witness:
  "timer_kernel example_board (map (tick example_board) (replicate 299 example_frame)) example_running = None
    \<and> (\<exists>t. timer_kernel example_board (map (tick example_board) (replicate 300 example_frame)) example_running = Some (Ok t)
        \<and> ticks t = 300)"
  using timer_test_waits [OF example_running_ok(1,2), of "replicate 299 example_frame"]
    timer_test_waits [OF example_running_ok(1,2), of "replicate 300 example_frame"] example_running_ok(3) by auto

end
