(* ===== verification/Boot_Keyboard.thy ===== *)
theory Boot_Keyboard
  imports Kernel_Boot
begin

text \<open>
  The keyboard test of the boot sequence: keyboard interrupts that run through the stub, the
  dispatcher and the driver, and the loop of \<open>keyboard_kernel\<close> that echoes keys until Escape.
\<close>

section \<open>Keyboard interrupts\<close>

abbreviation key_irq :: "board \<Rightarrow> interrupt_frame \<Rightarrow> 'a kernel_scheme \<Rightarrow> 'a kernel_scheme option" where
  "key_irq b \<equiv> hw_irq b 1"

text \<open>
  The codes that the device delivers to the next \<open>n\<close> keyboard interrupts when \<open>log\<close> are the
  port accesses so far: each interrupt reads the code and is acknowledged.
\<close>

fun scancodes :: "device \<Rightarrow> nat \<Rightarrow> io_event list \<Rightarrow> u8 list" where
  "scancodes dev 0 log = []"
| "scancodes dev (Suc n) log =
     (let c = dev log 0x60 in c # scancodes dev n (log @ [In 0x60 c, Out 0x20 0x20]))"

text \<open>
  A keyboard: the reads of its data port return the codes it has for them, one after the other.
\<close>

fun key_reads :: "io_event list \<Rightarrow> nat" where
  "key_reads [] = 0"
| "key_reads (In port v # log) = (if port = 0x60 then Suc (key_reads log) else key_reads log)"
| "key_reads (Out port v # log) = key_reads log"

definition keyboard_delivers :: "device \<Rightarrow> u8 list \<Rightarrow> bool" where
  "keyboard_delivers dev codes \<longleftrightarrow>
     (\<forall>log. key_reads log < length codes \<longrightarrow> dev log 0x60 = codes ! key_reads log)"

lemma key_reads_append [simp]: "key_reads (l @ l') = key_reads l + key_reads l'"
  by (induction l rule: key_reads.induct) simp_all

lemma scancodes_delivered:
  "keyboard_delivers dev codes \<Longrightarrow> c \<in> set (take n (drop (key_reads log) codes)) \<Longrightarrow>
    c \<in> set (scancodes dev n log)"
proof (induction n arbitrary: log)
  case (Suc n)
  let ?i = "key_reads log"
  have i: "?i < length codes" using Suc.prems(2) by (cases "?i < length codes") auto
  then have d: "dev log 0x60 = codes ! ?i" using Suc.prems(1) by (simp add: keyboard_delivers_def)
  have "c = codes ! ?i \<or> c \<in> set (take n (drop (Suc ?i) codes))"
    using Suc.prems(2) i by (auto simp: Cons_nth_drop_Suc [symmetric])
  then show ?case
    using Suc.IH [OF Suc.prems(1), of "log @ [In 0x60 (dev log 0x60), Out 0x20 0x20]"] d by (auto simp: Let_def)
qed simp

definition listening :: "board \<Rightarrow> 'a kernel_scheme \<Rightarrow> bool" where
  "listening b s \<longleftrightarrow> kernel_inv s \<and> interrupt_handlers s ! 33 = Some Keyboard_handler \<and> line_on b 1 s"

lemma listening_inv: "listening b s \<Longrightarrow> kbd_inv s"
  by (auto simp: listening_def dest: kernel_invD(2))

text \<open>What the driver leaves alone.\<close>

lemma scancode_fields [simp]:
  "mem (kbd_scancode c s) = mem s" "heap_beginning (kbd_scancode c s) = heap_beginning s"
  "interrupt_handlers (kbd_scancode c s) = interrupt_handlers s" "io_log (kbd_scancode c s) = io_log s"
  by (simp_all add: kbd_scancode_def kbd_buffer_push_def Let_def)

lemma scancode_tables:
  "k_idt (kbd_scancode c s) = k_idt s" "k_idtr (kbd_scancode c s) = k_idtr s"
  by (simp_all add: kbd_scancode_def kbd_buffer_push_def Let_def)

lemma kbd_if_flag [simp]:
  "kbd_queue (s\<lparr>if_flag := f\<rparr>) = kbd_queue s" "kbd_mods (s\<lparr>if_flag := f\<rparr>) = kbd_mods s"
  "kbd_inv (s\<lparr>if_flag := f\<rparr>) = kbd_inv s"
  by (simp_all add: kbd_queue_def pending_def kbd_mods_def kbd_inv_def)

lemma key_irq_effect:
  fixes s :: "'a kernel_scheme"
  assumes "listening b s" and "kbd_queue s = []"
  defines "c \<equiv> devices b (io_log s) 0x60"
  obtains u where "key_irq b frame s = Some u" and "listening b u" and "same_memory s u" and "same_lines s u"
    and "io_log u = io_log s @ [In 0x60 c, Out 0x20 0x20]" and "kbd_queue u = snd (press c (kbd_mods s))"
proof -
  let ?p = "pushed_frame frame s"
  let ?fr = "?p\<lparr>fr_int_no := 33, fr_err_code := 0\<rparr>"
  have on: "line_on b 1 s" "if_flag s" using assms(1) by (simp_all add: listening_def line_on_def interrupts_on_def)
  define t where "t = s\<lparr>if_flag := False, io_log := io_log s @ [In 0x60 c]\<rparr>"
  have t: "kbd_inv t" "kbd_mods t = kbd_mods s" "kbd_queue t = []"
    using assms(1,2) kernel_invD(2) by (auto simp: t_def listening_def)
  have h: "interrupt_handlers (cli s) ! 33 = Some Keyboard_handler" using assms(1) by (simp add: listening_def cli_def)
  have handler: "keyboard_handler (devices b) ?fr (cli s) = kbd_scancode c t"
    by (simp add: handler_scancode cli_def t_def c_def)
  define u where "u = (kbd_scancode c t)\<lparr>io_log := io_log t @ [Out 0x20 0x20], if_flag := True\<rparr>"
  have stub: "irq_stub_run b (of_nat 1) ?p s = Ok (?fr, u)"
    using h on(2) by (simp add: irq_stub_run_def irq_handler_def iretq_def handler pic_eoi_line u_def)
      (simp add: pushed_frame_def)
  then have run: "key_irq b frame s = Some u" by (intro hw_irq_run [OF on(1)]) simp_all
  have same: "same_lines s u"
    using on(2) other_ports_master [of "[In 0x60 c, Out 0x20 0x20]" "io_log s"]
    by (simp add: same_lines_def other_ports_def u_def t_def scancode_tables)
  have "kernel_inv u" using stub_inv(2) [of s b "of_nat 1" ?p ?fr u] stub assms(1) by (simp add: listening_def)
  then have "listening b u"
    using h line_on_same [OF on(1) _ same] by (simp add: listening_def) (simp add: u_def t_def cli_def)
  moreover have "same_memory s u" "io_log u = io_log s @ [In 0x60 c, Out 0x20 0x20]"
    by (simp_all add: u_def same_memory_def t_def)
  moreover have "kbd_queue u = snd (press c (kbd_mods s))"
  proof -
    obtain mods ks where p: "press c (kbd_mods t) = (mods, ks)" by (cases "press c (kbd_mods t)")
    moreover have "length ks \<le> 1" using p by (cases "kbd_mods t") (auto split: if_splits)
    ultimately show ?thesis using scancode_step(3) [OF t(1) p] t(2,3) by (simp add: u_def keep_last_all)
  qed
  ultimately show thesis using run same by (intro that)
qed

lemma press_cases:
  "snd (press c mods) = [] \<and> c \<noteq> 1 \<or> (\<exists>k. snd (press c mods) = [k] \<and> (c = 1 \<longrightarrow> k = 27))"
proof -
  have "press 1 mods = (mods, [27])"
    by (cases mods) (simp add: scancode_ascii_def scancode_ascii_shift_def glyph_def letter_def)
  then show ?thesis by (cases mods; cases "c = 1") (auto split: if_splits)
qed

section \<open>The echo loop\<close>

lemma get_key_empty:
  assumes "kbd_inv s" and "kbd_queue s = []"
    and "irq s = Some u"
  shows "keyboard_get_key (irq # irqs) s = keyboard_get_key irqs u"
  using queue_empty_iff [OF assms(1)] assms(2,3) by (subst keyboard_get_key.simps) simp

lemma get_key_one:
  assumes "kbd_inv s" and "kbd_queue s = [k]"
  shows "keyboard_get_key irqs s = Some (k, snd (kbd_pop s), irqs)" and "kbd_queue (snd (kbd_pop s)) = []"
proof -
  have "kbd_head s \<noteq> kbd_tail s" using queue_empty_iff [OF assms(1)] assms(2) by simp
  then show "keyboard_get_key irqs s = Some (k, snd (kbd_pop s), irqs)"
    using pop_queue(1) [OF assms(1)] assms(2) by (subst keyboard_get_key.simps) (simp add: kbd_pop_def)
  show "kbd_queue (snd (kbd_pop s)) = []" using pop_queue(2) [OF assms(1)] assms(2) by simp
qed

lemma typing_loop_empty:
  assumes "kbd_inv s" and "kbd_queue s = []" and "irq s = Some u"
  shows "typing_loop (irq # irqs) s = typing_loop irqs u"
  by (subst (1 2) typing_loop.simps) (simp add: get_key_empty [where irq = irq, OF assms])

lemma typing_loop_one:
  assumes "kbd_inv s" and "kbd_queue s = [k]"
  shows "typing_loop irqs s = (let t = terminal_put_char k (snd (kbd_pop s))
    in if k \<noteq> 27 then typing_loop irqs t else Some t)"
  by (subst typing_loop.simps) (simp add: get_key_one(1) [OF assms] Let_def)

text \<open>Echoing the key: the ring is empty again, and only ring and screen have changed.\<close>

lemma echo_effect:
  fixes s :: "'a kernel_scheme"
  assumes "listening b s" and "kbd_queue s = [k]"
  defines "t \<equiv> terminal_put_char k (snd (kbd_pop s))"
  shows "listening b t" and "same_memory s t" and "io_log t = io_log s" and "kbd_queue t = []" and "same_lines s t"
proof -
  let ?u = "snd (kbd_pop s)"
  have inv: "kernel_inv s" "kbd_inv s" using assms(1) kernel_invD(2) by (auto simp: listening_def)
  have "keyboard_get_key [] s = Some (k, ?u, [])" by (rule get_key_one(1) [OF inv(2) assms(2)])
  then have u: "kernel_inv ?u" by (rule kernel_inv_get_key [OF inv(1)])
  have put: "put_chars [k] ?u = t" by (simp add: put_chars_def t_def)
  have frame: "tty_frame ?u t" using put_chars_frame [OF kernel_invD(1) [OF u], of "[k]"] put by simp
  have "kernel_inv t" using kernel_inv_put_chars [OF u, of "[k]"] put by simp
  moreover have "interrupt_handlers t = interrupt_handlers s" using frame by (auto simp: tty_frame_def kbd_pop_def)
  moreover show lines: "same_lines s t" using frame by (auto simp: tty_frame_def same_lines_def kbd_pop_def)
  ultimately show "listening b t" using assms(1) line_on_same [OF _ _ lines] by (simp add: listening_def)
  show "same_memory s t" "io_log t = io_log s"
    using frame by (auto simp: tty_frame_def same_memory_def kbd_pop_def)
  have "kbd_queue t = kbd_queue ?u" using frame by (auto simp: tty_frame_def kbd_queue_def pending_def)
  then show "kbd_queue t = []" using get_key_one(2) [OF inv(2) assms(2)] by simp
qed

lemma typing_loop_returns:
  fixes s :: "'a kernel_scheme"
  assumes "listening b s" and "kbd_queue s = []"
    and "1 \<in> set (scancodes (devices b) (length frames) (io_log s))"
  shows "\<exists>t. typing_loop (map (key_irq b) frames) s = Some t \<and> kernel_inv t \<and> same_memory s t \<and> same_lines s t"
  using assms
proof (induction frames arbitrary: s)
  case (Cons frame frames)
  let ?c = "devices b (io_log s) 0x60"
  have inv: "kbd_inv s" using Cons.prems(1) by (rule listening_inv)
  obtain u where run: "key_irq b frame s = Some u" and u: "listening b u" "same_memory s u" "same_lines s u"
    "io_log u = io_log s @ [In 0x60 ?c, Out 0x20 0x20]" "kbd_queue u = snd (press ?c (kbd_mods s))"
    by (rule key_irq_effect [OF Cons.prems(1,2)])
  have uinv: "kbd_inv u" using u(1) by (rule listening_inv)
  have loop: "typing_loop (map (key_irq b) (frame # frames)) s = typing_loop (map (key_irq b) frames) u"
    using typing_loop_empty [where irq = "key_irq b frame", OF inv Cons.prems(2) run] by simp
  have more: "?c \<noteq> 1 \<Longrightarrow> 1 \<in> set (scancodes (devices b) (length frames) (io_log u))"
    using Cons.prems(3) by (auto simp: u(4) Let_def)
  consider "kbd_queue u = []" "?c \<noteq> 1" | k where "kbd_queue u = [k]" "?c = 1 \<longrightarrow> k = 27"
    using press_cases [of ?c "kbd_mods s"] u(5) by auto
  then show ?case
  proof cases
    case 1
    then show ?thesis
      using Cons.IH [OF u(1) 1(1) more] same_memory_trans [OF u(2)] same_lines_trans [OF u(3)] unfolding loop by blast
  next
    case 2
    let ?t = "terminal_put_char k (snd (kbd_pop u))"
    note e = echo_effect [OF u(1) 2(1)]
    have step: "typing_loop (map (key_irq b) frames) u
        = (if k \<noteq> 27 then typing_loop (map (key_irq b) frames) ?t else Some ?t)"
      by (simp add: typing_loop_one [OF uinv 2(1)] Let_def)
    have mem: "same_memory s ?t" "same_lines s ?t"
      by (rule same_memory_trans [OF u(2) e(2)], rule same_lines_trans [OF u(3) e(5)])
    show ?thesis
    proof (cases "k = 27")
      case True
      then show ?thesis using mem e(1) unfolding loop step by (simp add: listening_def)
    next
      case False
      with 2(2) have "?c \<noteq> 1" by blast
      then have "1 \<in> set (scancodes (devices b) (length frames) (io_log ?t))" using more e(3) by simp
      then show ?thesis
        using Cons.IH [OF e(1,4)] False same_memory_trans [OF mem(1)] same_lines_trans [OF mem(2)]
        unfolding loop step by auto
    qed
  qed
qed simp

end
