(* ===== verification/Boot_Filesystem.thy ===== *)
theory Boot_Filesystem
  imports User_Program
begin

text \<open>
  The file system test of the boot sequence end to end: \<open>filesystem_kernel\<close> on an archive that
  \<open>tools/pack_initrd.c\<close> wrote prints the contents of \<open>doom.txt\<close>.
\<close>

section \<open>Printing a file\<close>

lemma entry_size_frame:
  assumes "tty_frame s t" and "region e 40 \<inter> vga_region = {}"
  shows "entry_size (mem t) e = entry_size (mem s) e"
proof -
  have "(load_le (mem t) (e + 36) 4 :: u32) = load_le (mem s) (e + 36) 4"
  proof (rule load_le_cong)
    fix k :: nat assume "k < 4"
    then have "e + of_nat (36 + k) \<in> region e 40" using of_nat_in_region [of "36 + k" 40 e] by simp
    with assms(2) have "e + of_nat (36 + k) \<notin> vga_region" by blast
    from frame_mem [OF assms(1) this] show "mem t (e + 36 + of_nat k) = mem s (e + 36 + of_nat k)"
      by (simp add: add.assoc)
  qed
  then show ?thesis by (simp add: entry_size_def load32_def)
qed

lemma print_file_prints:
  fixes s :: "'a tty_scheme"
  assumes "tty_inv s" and "region e 40 \<inter> vga_region = {}"
    and "\<And>i. i < unat (entry_size (mem s) e) \<Longrightarrow> data + of_nat i \<notin> vga_region"
  shows "print_file e data i s
    = put_chars (map (\<lambda>j. mem s (data + of_nat j)) [unat i..<unat (entry_size (mem s) e)]) s"
  using assms
proof (induction e data i s rule: print_file.induct)
  case (1 e data i s)
  let ?n = "entry_size (mem s) e" and ?t = "terminal_put_char (mem s (data + ucast i)) s"
  show ?case
  proof (cases "i < ?n")
    case True
    then have less: "unat i < unat ?n" and "unat i + 1 < 4294967296"
      using unsigned_less [of ?n, where 'a = nat] by (simp_all add: word_less_nat_alt)
    then have suc: "unat (i + 1) = Suc (unat i)" by (simp add: unat_word_ariths)
    note frame = terminal_put_char_correct(2) [OF "1.prems"(1), of "mem s (data + ucast i)"]
    have size: "entry_size (mem ?t) e = ?n" by (rule entry_size_frame [OF frame "1.prems"(2)])
    have same: "mem ?t (data + of_nat j) = mem s (data + of_nat j)" if "j < unat ?n" for j
      by (rule frame_mem [OF frame "1.prems"(3) [OF that]])
    have "print_file e data (i + 1) ?t
        = put_chars (map (\<lambda>j. mem ?t (data + of_nat j)) [Suc (unat i)..<unat ?n]) ?t"
      using "1.IH" [OF True terminal_put_char_correct(1) [OF "1.prems"(1)] "1.prems"(2)] "1.prems"(3) size suc by simp
    also have "map (\<lambda>j. mem ?t (data + of_nat j)) [Suc (unat i)..<unat ?n]
        = map (\<lambda>j. mem s (data + of_nat j)) [Suc (unat i)..<unat ?n]"
      using same by simp
    also have "?t = terminal_put_char (mem s (data + of_nat (unat i))) s" by simp
    finally show ?thesis
      using True less by (simp add: print_file.simps [of e data i s] upt_conv_Cons put_chars_Cons)
  qed (simp add: print_file.simps [of e data i s] word_less_nat_alt)
qed

section \<open>Strings\<close>

lemma c_string_stored:
  assumes "stored m a (bs @ 0 # rest)" and "0 \<notin> set bs" and "length bs < 18446744073709551616"
  shows "c_string m a = Some bs"
proof -
  have st: "stored m a bs" "m (a + of_nat (length bs)) = 0"
    using assms(1) by (simp_all add: stored_append stored_Cons)
  then have "strlen (\<lambda>i. m (a + i)) = Some (of_nat (length bs))"
    using assms(2) by (intro strlen_cstring) (auto simp: stored_def in_set_conv_nth)
  moreover have "map (\<lambda>i. m (a + of_nat i)) [0..<length bs] = bs"
    using st(1) by (intro nth_equalityI) (simp_all add: stored_def)
  ultimately show ?thesis using assms(3) by (simp add: c_string_def)
qed

definition doom_name :: "u8 list" where
  "doom_name = cstr ''doom.txt'' @ replicate 24 0"

lemma doom_name_Cons: "doom_name = cstr ''doom.txt'' @ 0 # replicate 23 0"
  by (simp add: doom_name_def flip: replicate_Suc)

lemma doom_entry_name: "base_of path = cstr ''doom.txt'' \<Longrightarrow> entry_name_of path = doom_name"
  by (simp add: entry_name_of_def strncpy_def cstr_def doom_name_def zeros)

text \<open>The slot of a 32-bit argument that is read as 64 bits.\<close>

lemma unat_wide_slot:
  "unat (push_bit 32 (ucast (upper :: u32)) OR ucast (low :: u32) :: u64) = 4294967296 * unat upper + unat low"
proof -
  have "push_bit 32 (ucast upper) AND (ucast low :: u64) = 0"
    by (rule bit_word_eqI) (auto simp: bit_simps dest: bit_imp_le_length)
  then have or: "(push_bit 32 (ucast upper) OR ucast low :: u64) = push_bit 32 (ucast upper) + ucast low"
    by (simp add: disjunctive_add_eq_or)
  have up: "unat upper < 4294967296" "unat low < 4294967296"
    using unsigned_less [of upper, where 'a = nat] unsigned_less [of low, where 'a = nat] by simp_all
  have "unat (push_bit 32 (ucast upper) :: u64) = take_bit 64 (push_bit 32 (unat (ucast upper :: u64)))"
    by (simp only: unsigned_push_bit_eq) simp
  also have "\<dots> = 4294967296 * unat upper"
    using up(1) by (simp add: unsigned_ucast_eq push_bit_eq_mult [where 'a = nat] take_bit_nat_eq_self)
  finally have "unat (push_bit 32 (ucast upper) :: u64) = 4294967296 * unat upper" .
  moreover have "unat (ucast low :: u64) = unat low"
    using up(2) by (simp add: unsigned_ucast_eq take_bit_nat_eq_self)
  ultimately show ?thesis unfolding or using up by (subst unat_plus_no_wrap) simp_all
qed

definition size_line :: "u32 \<Rightarrow> nat \<Rightarrow> u8 list" where
  "size_line upper n = cstr ''[fs] doom.txt with size = 0x'' @ numeral_of 16 (4294967296 * unat upper + n) @ [10]"

lemma say_size_line:
  assumes "unat low = n"
  shows "say ''[fs] %s with size = %x\<newline>''
      [Str (cstr ''doom.txt''), Slot (push_bit 32 (ucast upper) OR ucast (low :: u32))] s
    = Ok (put_chars (size_line upper n) s)"
  using hex_text_length [of "push_bit 32 (ucast upper) OR ucast low"] unat_wide_slot [of upper low]
  by (intro say_text) (simp_all add: cstr_def size_line_def assms)

section \<open>The whole test\<close>

lemma length_archive: "length (archive fs) = 8 + 40 * length fs + offset_of fs"
proof -
  let ?es = "make_entries 0 (map fst fs) (map (length \<circ> snd) fs)"
  have "length (concat (map entry_bytes zs)) = 40 * length zs" if "named zs" for zs
    using that by (induction zs) (auto simp: named_def length_entry_bytes)
  moreover have "named ?es" by (rule make_entries_named)
  moreover have "length ?es = length fs"
    using make_entries_names [of "map (length \<circ> snd) fs" "map fst fs" 0] by (metis length_map)
  ultimately show ?thesis by (simp add: archive_def length_contents header_bytes_def cstr_def)
qed

lemma region_shift:
  assumes "k + n \<le> m" and "m \<le> 18446744073709551616"
  shows "region (a + of_nat k) n \<subseteq> region a m"
proof
  fix x assume "x \<in> region (a + of_nat k) n"
  then obtain i where "i < n" "x = a + of_nat (k + i)" by (auto elim!: region_member simp: add.assoc)
  with assms show "x \<in> region a m" using of_nat_in_region [of "k + i" m a] by simp
qed

lemma shifted_not_null:
  assumes "0 < k" and "unat a + k < 18446744073709551616"
  shows "a + of_nat k \<noteq> (0 :: u64)"
proof
  assume "a + of_nat k = 0"
  moreover have "unat (a + of_nat k) = unat a + k" using assms(2) by (subst unat_plus_no_wrap) simp_all
  ultimately show False using assms(1) by simp
qed

lemma stored_frame:
  assumes "stored (mem s) a bs" and "tty_frame s t" and "region a (length bs) \<inter> vga_region = {}"
    and "length bs \<le> 18446744073709551616"
  shows "stored (mem t) a bs"
  unfolding stored_def
proof (intro allI impI)
  fix i assume i: "i < length bs"
  then have "a + of_nat i \<in> region a (length bs)" using assms(4) by (intro of_nat_in_region) simp_all
  then have "mem t (a + of_nat i) = mem s (a + of_nat i)"
    using assms(3) by (intro frame_mem [OF assms(2)]) blast
  with assms(1) i show "mem t (a + of_nat i) = bs ! i" by (simp add: stored_def)
qed

text \<open>
  What \<open>filesystem_kernel\<close> prints once the entry has been found at \<open>e\<close> with its data at \<open>d\<close>.
\<close>

lemma print_entry:
  fixes t :: "'a fs_scheme"
  assumes "tty_inv t" and "e \<noteq> 0" and "region e 40 \<inter> vga_region = {}"
    and "region (fs_get_data e t) (length contents) \<inter> vga_region = {}"
    and "entry_size (mem t) e = of_nat (length contents)" and "length contents < 4294967296"
    and "stored (mem t) (fs_get_data e t) contents" and "stored (mem t) e doom_name"
  shows "(case c_string (mem t) e of
      None \<Rightarrow> UB Out_of_bounds
    | Some name \<Rightarrow>
        bind_ok (bind_ok (say ''[fs] %s with size = %x\<newline>''
            [Str name, Slot (push_bit 32 (ucast upper) OR ucast (entry_size (mem t) e))] t)
          (\<lambda>s. let data = fs_get_data e s in Ok (print_file e data 0 s)))
          (say ''\<newline>'' []))
    = Ok (put_chars (size_line upper (length contents) @ contents @ [10]) t)"
proof -
  let ?u = "put_chars (size_line upper (length contents)) t" and ?d = "fs_get_data e t"
  have frame: "tty_frame t ?u" and inv: "tty_inv ?u"
    by (rule put_chars_frame [OF assms(1)], rule put_chars_inv [OF assms(1)])
  have name: "c_string (mem t) e = Some (cstr ''doom.txt'')"
    by (rule c_string_stored [where rest = "replicate 23 0"])
      (use assms(8) in \<open>simp_all add: doom_name_Cons\<close>, simp_all add: cstr_def)
  have len: "unat (of_nat (length contents) :: u32) = length contents" by (rule unat_of_nat32 [OF assms(6)])
  have out: "?d + of_nat i \<notin> vga_region" if "i < length contents" for i
  proof -
    have "?d + of_nat i \<in> region ?d (length contents)" using that assms(6) by (intro of_nat_in_region) simp_all
    with assms(4) show ?thesis by blast
  qed
  have data: "fs_get_data e ?u = ?d"
  proof -
    have "load_le (mem ?u) (e + 32) 4 = (load_le (mem t) (e + 32) 4 :: u32)"
    proof (rule load_le_cong)
      fix k :: nat assume "k < 4"
      then have "e + of_nat (32 + k) \<in> region e 40" using of_nat_in_region [of "32 + k" 40 e] by simp
      with assms(3) have "e + of_nat (32 + k) \<notin> vga_region" by blast
      from frame_mem [OF frame this] show "mem ?u (e + 32 + of_nat k) = mem t (e + 32 + of_nat k)"
        by (simp add: add.assoc)
    qed
    moreover have "fs_data ?u = fs_data t" using frame by (auto simp: tty_frame_def)
    ultimately show ?thesis by (simp add: fs_get_data_def entry_offset_def load32_def)
  qed
  have size: "entry_size (mem ?u) e = of_nat (length contents)"
    using entry_size_frame [OF frame assms(3)] assms(5) by simp
  have bytes: "map (\<lambda>j. mem ?u (?d + of_nat j)) [0..<length contents] = contents"
    using frame_mem [OF frame out] assms(7) by (intro nth_equalityI) (simp_all add: stored_def)
  have shown: "print_file e ?d 0 ?u = put_chars contents ?u"
    using print_file_prints [OF inv assms(3), of ?d 0] out by (simp add: size len bytes)
  have line: "say ''\<newline>'' [] u = Ok (put_chars [10] u)" for u :: "'a fs_scheme"
    using say_literal [of "''\<newline>''" "[]" u] by (simp add: cstr_def)
  show ?thesis
    by (simp add: name say_size_line [OF len] assms(5) data shown line put_chars_append)
qed

lemma filesystem_kernel_effect:
  fixes s :: "'a fs_scheme"
  assumes "tty_inv s" and "pack_main files True (prog # out # ps @ path # qs) = (0, Some img)"
    and "files path = Some contents" and "base_of path = cstr ''doom.txt''"
    and "doom_name \<notin> entry_name_of ` set ps"
    and "stored (mem s) a img" and "length img < 4294967296" and "unat a + length img \<le> 18446744073709551616"
    and "region a (length img) \<inter> vga_region = {}"
  obtains n p d where "filesystem_kernel b a s
    = Ok (put_chars (size_line (slot_upper b) (length contents) @ contents @ [10])
        ((put_chars (cstr ''******FILESYSTEM******\<newline>'') s)\<lparr>fs_file_count := n, fs_entries := p, fs_data := d\<rparr>))"
proof -
  let ?xs = "inputs_of files ps" and ?ys = "inputs_of files qs"
  let ?all = "?xs @ (path, contents) # ?ys" and ?banner = "cstr ''******FILESYSTEM******\<newline>''"
  let ?s = "put_chars ?banner s" and ?e = "a + of_nat (8 + 40 * length ?xs)"
  have img: "img = archive ?all"
    using pack_main_archive(1) [OF assms(2)] assms(3) by (simp add: inputs_of_def)
  have small: "8 + 40 * length ?all + offset_of ?all < 4294967296" using assms(7) by (simp add: img length_archive)
  have stored: "stored (mem ?s) a (archive ?all)"
    using stored_frame [OF assms(6) put_chars_frame [OF assms(1)] assms(9)] assms(7) by (simp add: img)
  have name: "entry_name_of path = doom_name" by (rule doom_entry_name [OF assms(4)])
  have fresh: "entry_name_of path \<notin> entry_name_of ` fst ` set ?xs"
    using assms(5) by (simp add: name image_image inputs_of_def)
  have cnt: "length ?all < 4294967296" "offset_of ?all < 4294967296" using small by simp_all
  obtain t where t: "fs_init a ?s = Ok t" "mem t = mem ?s"
    "fs_read (\<lambda>i. entry_name_of path ! i) t = ?e" "entry_size (mem t) ?e = of_nat (length contents)"
    "stored (mem t) (fs_get_data ?e t) contents"
    "fs_get_data ?e t = a + of_nat (8 + 40 * length ?all + offset_of ?xs)"
    "stored (mem t) ?e (entry_name_of path)"
    "\<exists>n p d. t = ?s\<lparr>fs_file_count := n, fs_entries := p, fs_data := d\<rparr>"
    by (rule archive_lookup [OF stored cnt fresh])
  have tty: "tty_inv t" using t(8) put_chars_inv [OF assms(1), of ?banner] by (auto simp: tty_inv_def)
  have off: "offset_of ?all = offset_of ?xs + length contents + offset_of ?ys" by (simp add: offset_of_append)
  have inside: "region (a + of_nat k) n \<inter> vga_region = {}" if "k + n \<le> length img" for k n
  proof -
    have "region (a + of_nat k) n \<subseteq> region a (length img)"
      by (rule region_shift) (use that assms(7) in simp_all)
    with assms(9) show ?thesis by blast
  qed
  have e: "?e \<noteq> 0" by (rule shifted_not_null) (use assms(8) in \<open>simp_all add: img length_archive\<close>)
  have dat: "region (fs_get_data ?e t) (length contents) \<inter> vga_region = {}" "region ?e 40 \<inter> vga_region = {}"
    unfolding t(6) by (rule inside, simp add: img length_archive off)+
  have len: "length contents < 4294967296" using small off by simp
  note found = print_entry [OF tty e dat(2,1) t(4) len t(5) t(7) [unfolded name], of "slot_upper b"]
  have banner: "say ''******FILESYSTEM******\<newline>'' [] s = Ok ?s" by (rule say_literal) (simp_all add: cstr_def)
  have fin: "filesystem_kernel b a s = Ok (put_chars (size_line (slot_upper b) (length contents) @ contents @ [10]) t)"
    unfolding filesystem_kernel_def banner bind_ok.simps(1) t(1) Let_def t(3) [unfolded name doom_name_def]
    using e found [unfolded Let_def] by (simp only: if_True not_False_eq_True)
  from t(8) show thesis using fin that by blast
qed

section \<open>Properties\<close>

text \<open>
  C20: the file system test of the boot sequence prints the file the packing tool put into the
  archive: when the archive lies in memory outside the screen, is smaller than 4 GiB and holds
  \<open>doom.txt\<close>, \<open>filesystem_kernel\<close> prints its banner, the line with the name and size
  (whose upper half the C code leaves open) and the contents of the file byte for byte.
\<close>

theorem boot_prints_packed_file:
  fixes s :: "'a fs_scheme"
  assumes "tty_inv s" and "pack_main files True (prog # out # ps @ path # qs) = (0, Some img)"
    and "files path = Some contents" and "base_of path = cstr ''doom.txt''"
    and "doom_name \<notin> entry_name_of ` set ps"
    and "stored (mem s) a img" and "length img < 4294967296" and "unat a + length img \<le> 18446744073709551616"
    and "region a (length img) \<inter> vga_region = {}"
  shows "\<exists>t. filesystem_kernel b a s = Ok t \<and> tty_inv t
    \<and> screen_of t = fold (put_spec (terminal_color s))
        (cstr ''******FILESYSTEM******\<newline>'' @ size_line (slot_upper b) (length contents) @ contents @ [10])
        (screen_of s)"
proof -
  let ?banner = "cstr ''******FILESYSTEM******\<newline>''"
  let ?u = "\<lambda>n p d. (put_chars ?banner s)\<lparr>fs_file_count := n, fs_entries := p, fs_data := d\<rparr>"
  obtain n p d where run: "filesystem_kernel b a s
      = Ok (put_chars (size_line (slot_upper b) (length contents) @ contents @ [10]) (?u n p d))"
    using assms by (rule filesystem_kernel_effect [where b = b])
  have inv: "tty_inv (?u n p d)" using put_chars_inv [OF assms(1), of ?banner] by (simp add: tty_inv_def)
  have "screen_of (?u n p d) = screen_of (put_chars ?banner s)" by (simp add: screen_of_def tty_cell_def)
  moreover have "terminal_color (?u n p d) = terminal_color s"
    using put_chars_frame [OF assms(1), of ?banner] by (auto simp: tty_frame_def)
  ultimately show ?thesis
    using run put_chars_screen [OF inv] put_chars_screen [OF assms(1), of ?banner] put_chars_inv [OF inv] by simp
qed

theorem boot_prints_packed_file_witness:
  "\<exists>t. filesystem_kernel example_board 0x500000 example_fs = Ok t
    \<and> screen_of t = fold (put_spec 15) (cstr ''******FILESYSTEM******\<newline>'' @ cstr ''[fs] doom.txt with size = 0x4\<newline>''
        @ cstr ''DOOM'' @ [10]) (screen_of example_fs)"
proof -
  have "tty_inv example_fs" "terminal_color example_fs = 15"
    by (simp_all add: example_fs_def tasks.defs example_tasks_def tty_inv_def VGA_WIDTH_def VGA_HEIGHT_def)
  moreover have len: "length example_image = 52" by (simp add: example_image_def header_bytes_def bytes32_def cstr_def)
  moreover have "region (0x500000 :: u64) 52 \<inter> vga_region = {}"
    by (auto simp: vga_region_def region_interval VGA_def)
  moreover have "example_files (cstr ''initrd/doom.txt'') = Some (cstr ''DOOM'')" by (simp add: example_files_def)
  moreover have "base_of (cstr ''initrd/doom.txt'') = cstr ''doom.txt''"
    by (simp add: base_of_def strrchr_def cstr_def)
  moreover have "size_line 0 4 = cstr ''[fs] doom.txt with size = 0x4\<newline>''"
    by (simp add: size_line_def numeral_of.simps [of 16 4] digits_def cstr_def)
  moreover have "slot_upper example_board = 0" "length (cstr ''DOOM'') = 4"
    by (simp_all add: example_board_def cstr_def)
  ultimately show ?thesis
    using boot_prints_packed_file [where ps = "[]" and qs = "[]" and a = "0x500000" and b = example_board,
        of example_fs example_files "cstr ''pack''" "cstr ''initrd.bin''" "cstr ''initrd/doom.txt''" example_image "cstr ''DOOM''"]
      example_pack example_fs_stored
    by auto
qed

end
