(* ===== verification/Kernel_Main.thy ===== *)
theory Kernel_Main
  imports Boot_Keyboard Boot_Filesystem
begin

text \<open>
  The boot sequence of \<open>kernel/kernel/kernel.c\<close> as a whole: every stage of \<open>kernel_main\<close>
  returns and hands a kernel in good order to the next one.
\<close>

section \<open>Stages\<close>

text \<open>
  \<open>goes s x\<close>: the code went on, the kernel's invariant holds, and since \<open>s\<close> no memory but
  the screen has changed, the ports have not been accessed, and the interrupt flag and the
  interrupt table are as they were.
\<close>

definition quiet :: "'a kernel_scheme \<Rightarrow> 'a kernel_scheme \<Rightarrow> bool" where
  "quiet s t \<longleftrightarrow> same_memory s t \<and> same_lines s t \<and> io_log t = io_log s"

definition goes :: "'a kernel_scheme \<Rightarrow> 'a kernel_scheme outcome \<Rightarrow> bool" where
  "goes s x \<longleftrightarrow> (\<exists>t. x = Ok t \<and> kernel_inv t \<and> quiet s t)"

lemma quiet_trans: "quiet s t \<Longrightarrow> quiet t u \<Longrightarrow> quiet s u"
  using same_memory_trans same_lines_trans by (fastforce simp: quiet_def)

lemma quiet_frame: "tty_frame s t \<Longrightarrow> quiet s t"
  by (auto simp: quiet_def same_memory_def same_lines_def tty_frame_def)

lemma quietD:
  assumes "quiet s t"
  shows "same_memory s t" and "same_lines s t" and "io_log t = io_log s" and "k_idt t = k_idt s" and "k_idtr t = k_idtr s"
  using assms by (simp_all add: quiet_def same_lines_def)

lemma goes_Ok: "kernel_inv t \<Longrightarrow> quiet s t \<Longrightarrow> goes s (Ok t)"
  by (simp add: goes_def)

lemma goes_bind:
  assumes "goes s x" and "\<And>t. kernel_inv t \<Longrightarrow> quiet s t \<Longrightarrow> goes t (f t)"
  shows "goes s (bind_ok x f)"
proof -
  from assms(1) obtain t where t: "x = Ok t" "kernel_inv t" "quiet s t" by (auto simp: goes_def)
  with assms(2) [OF t(2,3)] quiet_trans [OF t(3)] show ?thesis by (auto simp: goes_def)
qed

lemma goes_prints: "kernel_inv s \<Longrightarrow> prints s x \<Longrightarrow> goes s x"
  using kernel_inv_put_chars quiet_frame [OF put_chars_frame [OF kernel_invD(1)]]
  unfolding prints_def goes_def by blast

lemma goes_say:
  assumes "kernel_inv s" and "0 \<notin> set (cstr fmt)" and "37 \<notin> set (cstr fmt)" and "length fmt \<le> 2147483647"
  shows "goes s (say fmt [] s)"
  by (rule goes_prints [OF assms(1) prints_literal [OF assms(2-4)]])

lemma goes_update: "goes t x \<Longrightarrow> quiet s t \<Longrightarrow> goes s x"
  using quiet_trans by (auto simp: goes_def)

section \<open>Terminal and segments\<close>

text \<open>The state in which the boot loader enters the kernel: static storage is zero.\<close>

definition power_on :: "'a kernel_scheme \<Rightarrow> bool" where
  "power_on s \<longleftrightarrow> kbd_inv s \<and> length (interrupt_handlers s) = 256 \<and> heap_beginning s = 0 \<and> table_inv s
     \<and> task_count s = 0 \<and> k_idt s = idt_zeroed"

lemma terminal_init_boots:
  assumes "power_on s"
  shows "kernel_inv (terminal_init s)" and "quiet s (terminal_init s)"
proof -
  let ?s = "s\<lparr>cursor_x := 0, cursor_y := 0, terminal_color := vga_entry VGA_WHITE VGA_BLACK,
    terminal_buffer := VGA\<rparr>"
  note clear = clear_screen_frame [of ?s]
  have frame: "tty_frame ?s (terminal_init s)" using clear(1) by (simp add: terminal_init_def)
  have "tty_inv ?s" by (simp add: tty_inv_def VGA_WIDTH_def VGA_HEIGHT_def)
  then have "kernel_inv ?s"
    using assms by (auto simp: power_on_def kernel_inv_def memory_ok_def kbd_inv_def table_inv_def)
  moreover have "tty_inv (terminal_init s)"
    using clear tty_frame_fields(2) [OF frame] by (simp add: terminal_init_def tty_inv_def VGA_WIDTH_def VGA_HEIGHT_def)
  ultimately show "kernel_inv (terminal_init s)" using frame by (rule kernel_inv_screen)
  show "quiet s (terminal_init s)"
    using quiet_frame [OF frame] by (simp add: quiet_def same_memory_def same_lines_def)
qed

lemma terminal_kernel_goes:
  assumes "power_on s"
  shows "goes s (terminal_kernel s)"
  unfolding terminal_kernel_def
  by (rule goes_update [OF goes_say [OF terminal_init_boots(1) [OF assms]] terminal_init_boots(2) [OF assms]])
    (simp_all add: cstr_def)

lemma gdt_kernel_goes:
  assumes "kernel_inv s"
  shows "goes s (gdt_kernel b s)"
  unfolding gdt_kernel_def
proof (rule goes_bind)
  show "goes s (say ''******GDT & TSS******\<newline>'' [] s)" by (rule goes_say [OF assms]) (simp_all add: cstr_def)
  fix t :: "'a kernel_scheme" assume t: "kernel_inv t"
  let ?t = "t\<lparr>k_gdt := init_gdt (gdt_addr b) (tss_addr b) (kernel_stack_top b)\<rparr>"
  have "goes ?t (say ''[gdt & tss] GDT and TSS successfully loaded\<newline>'' [] ?t)"
    by (rule goes_say) (use t in \<open>simp_all add: cstr_def\<close>)
  then show "goes t (say ''[gdt & tss] GDT and TSS successfully loaded\<newline>'' [] ?t)"
    by (rule goes_update) (simp add: quiet_def same_memory_def same_lines_def)
qed

section \<open>Interrupts\<close>

lemma quiet_register: "quiet s (register_interrupt_handler v h s)"
  by (simp add: register_interrupt_handler_def quiet_def same_memory_def same_lines_def)

text \<open>The gates that the kernel itself and its user program raise.\<close>

definition gates_on :: "board \<Rightarrow> 'a kernel_scheme \<Rightarrow> bool" where
  "gates_on b s \<longleftrightarrow> idt_entry b 3 s = Some (isr_stub b 3, 0x08, 0)
     \<and> idt_entry b 0x80 s = Some (isr128_stub b, 0x08, 3)"

lemma gates_on_same: "gates_on b s \<Longrightarrow> k_idt t = k_idt s \<Longrightarrow> k_idtr t = k_idtr s \<Longrightarrow> gates_on b t"
  using idt_entry_same [of t s b] by (simp add: gates_on_def)

lemma int3_goes:
  fixes s :: "'a kernel_scheme"
  assumes "kernel_inv s" and "interrupt_handlers s ! 3 = Some Breakpoint_handler" and "gates_on b s"
  shows "goes s (int3 b frame s)"
proof -
  let ?out = "cstr ''[handler] breakpoint caught, resuming execution\<newline>''"
  have inv: "kernel_inv (cli s)" using assms(1) by (simp add: cli_def)
  have "breakpoint_handler fr (cli s) = Ok (put_chars ?out (cli s))" for fr
    unfolding breakpoint_handler_def by (rule say_literal) (simp_all add: cstr_def)
  then have "map_outcome snd (isr_stub_run b 3 (pushed_frame frame s) s)
      = Ok ((put_chars ?out (cli s))\<lparr>if_flag := bit (fr_rflags (pushed_frame frame s)) 9\<rparr>)"
    using assms(2) by (simp add: isr_stub_run_def isr_handler_def pushes_error_def iretq_def cli_def)
  moreover have "bit (fr_rflags (pushed_frame frame s)) 9 = if_flag s"
    by (simp add: pushed_frame_def bit_simps)
  ultimately have run: "int3 b frame s = Ok ((put_chars ?out (cli s))\<lparr>if_flag := if_flag s\<rparr>)"
    using assms(3) by (simp add: int3_def gates_on_def)
  have "quiet (cli s) (put_chars ?out (cli s))"
    by (rule quiet_frame [OF put_chars_frame [OF kernel_invD(1) [OF inv]]])
  then have "quiet s ((put_chars ?out (cli s))\<lparr>if_flag := if_flag s\<rparr>)"
    by (simp add: quiet_def same_memory_def same_lines_def cli_def)
  then show ?thesis unfolding run using kernel_inv_put_chars [OF inv] by (intro goes_Ok) simp_all
qed

lemma bind_ok_assoc: "bind_ok (bind_ok x f) g = bind_ok x (\<lambda>r. bind_ok (f r) g)"
  by (cases x) simp_all

text \<open>The tables and controllers after \<open>idt_init\<close>, \<open>pic_remap\<close> and \<open>sti\<close>.\<close>

definition tables_set :: "board \<Rightarrow> 'a kernel_scheme \<Rightarrow> 'a kernel_scheme" where
  "tables_set b s =
     (let (tab, reg) = idt_init (idt_addr b) (isr_stub b) (irq_stub b) (isr128_stub b) (k_idt s)
      in sti (pic_remap (devices b) 0x20 0x28 (s\<lparr>k_idt := tab, k_idtr := reg\<rparr>)))"

lemma tables_set_on:
  fixes s :: "'a kernel_scheme"
  assumes "kernel_inv s" and "k_idt s = idt_zeroed"
  shows "kernel_inv (tables_set b s)" and "same_memory s (tables_set b s)" and "interrupts_on b (tables_set b s)"
    and "gates_on b (tables_set b s)" and "key_reads (io_log (tables_set b s)) = key_reads (io_log s)"
proof -
  let ?init = "idt_init (idt_addr b) (isr_stub b) (irq_stub b) (isr128_stub b) (k_idt s)"
  let ?s = "s\<lparr>k_idt := fst ?init, k_idtr := snd ?init\<rparr>"
  let ?u = "pic_remap (devices b) 0x20 0x28 ?s"
  have t: "tables_set b s = sti ?u" by (simp add: tables_set_def Let_def case_prod_beta)
  obtain evs where u: "?u = ?s\<lparr>io_log := io_log ?s @ evs\<rparr>"
    using pic_remap_events [of ?s "devices b" "0x20" "0x28"] by (auto simp: appends_def)
  have tab: "k_idt (tables_set b s) = fst ?init" "k_idtr (tables_set b s) = snd ?init" "if_flag (tables_set b s)"
    unfolding t u by (simp_all add: sti_def)
  show "kernel_inv (tables_set b s)" "same_memory s (tables_set b s)"
    unfolding t u using assms(1) by (simp_all add: sti_def same_memory_def)
  have entry: "idt_entry b v (tables_set b s) = gate (fst ?init ! v)" if "v < 256" for v
    using that unfolding idt_entry_def tab idt_init_parts by (simp add: assms(2) idt_zeroed_def)
  note gates = idt_gates [where idt_addr = "idt_addr b" and isr = "isr_stub b" and irq = "irq_stub b" and stub = "isr128_stub b"]
  show "gates_on b (tables_set b s)"
    using entry [of 3] entry [of "0x80"] gates [of 3] gates [of "0x80"] by (simp add: gates_on_def assms(2))
  have "remapped (io_log (tables_set b s))"
    using pic_remap_remaps [of "devices b" ?s] unfolding t by (simp add: sti_def)
  moreover have "idt_entry b (32 + n) (tables_set b s) = Some (irq_stub b n, 0x08, 0)" if "n < 16" for n
    using entry [of "32 + n"] gates [of "32 + n"] that by (simp add: assms(2))
  ultimately show "interrupts_on b (tables_set b s)" using tab(3) by (simp add: interrupts_on_def)
  show "key_reads (io_log (tables_set b s)) = key_reads (io_log s)"
    unfolding t by (simp add: sti_def pic_remap_def inb_eq outb_wait_def io_wait_def outb_def Let_def pic_consts)
qed

lemma breakpoint_test_goes:
  fixes t :: "'a kernel_scheme"
  assumes "kernel_inv t" and "gates_on b t"
  shows "goes t (bind_ok (say ''[test] triggering breakpoint\<newline>'' [] (register_breakpoint_handler t)) (int3 b frame))"
proof -
  let ?u = "register_interrupt_handler 3 Breakpoint_handler t"
  let ?v = "put_chars (cstr ''[test] triggering breakpoint\<newline>'') ?u"
  have inv: "kernel_inv ?u" by (rule kernel_inv_register [OF assms(1)])
  have frame: "tty_frame ?u ?v" by (rule put_chars_frame [OF kernel_invD(1) [OF inv]])
  have "interrupt_handlers ?u ! 3 = Some Breakpoint_handler"
    using registered(1) [OF kernel_invD(3) [OF assms(1)], of 3 Breakpoint_handler 3] by simp
  then have h: "interrupt_handlers ?v ! 3 = Some Breakpoint_handler" using frame by (auto simp: tty_frame_def)
  have quiet: "quiet t ?v" by (rule quiet_trans [OF quiet_register quiet_frame [OF frame]])
  have "gates_on b ?v" by (rule gates_on_same [OF assms(2) quietD(4,5) [OF quiet]])
  from int3_goes [OF kernel_inv_put_chars [OF inv] h this] have "goes t (int3 b frame ?v)"
    by (rule goes_update) (rule quiet)
  moreover have "say ''[test] triggering breakpoint\<newline>'' [] ?u = Ok ?v"
    by (rule say_literal) (simp_all add: cstr_def)
  ultimately show ?thesis by (simp add: register_breakpoint_handler_def)
qed

lemma interrupt_kernel_sets_up:
  fixes s :: "'a kernel_scheme"
  assumes "kernel_inv s" and "k_idt s = idt_zeroed"
  obtains t where "interrupt_kernel b frame s = Ok t" and "kernel_inv t" and "same_memory s t"
    and "interrupts_on b t" and "gates_on b t" and "key_reads (io_log t) = key_reads (io_log s)"
proof -
  let ?banner = "say ''******INTERRUPTS******\<newline>'' []" and ?alive = "say ''[test] we are still alive (no kernel panic)\<newline>'' []"
  let ?loaded = "say ''[interrupts] IDT loaded, PIC remapped, interrupts enabled\<newline>'' []"
  let ?bp = "\<lambda>u. bind_ok (say ''[test] triggering breakpoint\<newline>'' [] (register_breakpoint_handler u)) (int3 b frame)"
  have "goes s (?banner s)" by (rule goes_say [OF assms(1)]) (simp_all add: cstr_def)
  then obtain s1 where s1: "?banner s = Ok s1" "kernel_inv s1" "quiet s s1" by (auto simp: goes_def)
  have "k_idt s1 = idt_zeroed" using s1(3) assms(2) by (simp add: quiet_def same_lines_def)
  note s2 = tables_set_on [where b = b, OF s1(2) this]
  have rest: "goes u (bind_ok (?bp u) ?alive)" if "kernel_inv u" "gates_on b u" for u :: "'a kernel_scheme"
    by (rule goes_bind [OF breakpoint_test_goes [OF that]], rule goes_say) (simp_all add: cstr_def)
  have "goes (tables_set b s1) (bind_ok (?loaded (tables_set b s1)) (\<lambda>u. bind_ok (?bp u) ?alive))"
    by (rule goes_bind [OF goes_say [OF s2(1)]], simp_all add: cstr_def)
      (rule rest, assumption, rule gates_on_same [OF s2(4)], simp_all add: quiet_def same_lines_def)
  then obtain t where t: "bind_ok (?loaded (tables_set b s1)) (\<lambda>u. bind_ok (?bp u) ?alive) = Ok t" "kernel_inv t"
    "quiet (tables_set b s1) t" by (auto simp: goes_def)
  have "interrupt_kernel b frame s = Ok t"
    using t(1) unfolding interrupt_kernel_def bind_ok_assoc s1(1)
    by (simp add: tables_set_def Let_def case_prod_beta)
  moreover have "same_memory s t"
    using quietD(1) [OF s1(3)] s2(2) quietD(1) [OF t(3)] same_memory_trans by blast
  moreover have "interrupts_on b t" "gates_on b t"
    using same_lines_on [OF s2(3) quietD(2) [OF t(3)]] gates_on_same [OF s2(4) quietD(4,5) [OF t(3)]] by blast+
  moreover have "key_reads (io_log t) = key_reads (io_log s)" using s2(5) s1(3) t(3) by (simp add: quiet_def)
  ultimately show thesis using t(2) by (intro that)
qed

section \<open>Keyboard and timer\<close>

lemma keyboard_init_listens:
  fixes s :: "'a kernel_scheme"
  assumes "kernel_inv s" and "interrupts_on b s"
  obtains t where "keyboard_init dev s = Inr t" and "listening b t" and "kbd_queue t = []" and "same_memory s t"
    and "key_reads (io_log t) = key_reads (io_log s)" and "k_idt t = k_idt s" and "k_idtr t = k_idtr s"
proof -
  let ?s = "s\<lparr>kbd_head := 0, kbd_tail := 0, kbd_caps := 0, kbd_shift := 0\<rparr>"
  let ?old = "dev (io_log s) 0x21"
  let ?new = "ucast (ucast ?old AND NOT (push_bit 1 (1 :: u32))) :: u8"
  let ?l = "io_log s @ [] @ [In 0x21 ?old, Out 0x21 ?new]"
  let ?u = "(register_interrupt_handler 33 Keyboard_handler ?s)\<lparr>io_log := ?l, kbd_enabled := 1\<rparr>"
  have init: "keyboard_init dev s = Inr ?u"
    by (simp add: keyboard_init_def pic_clear_mask_def irq_line_def irq_port_def inb_eq outb_def Let_def
        register_interrupt_handler_def pic_consts)
  have "\<not> bit ?new 1" using mask_bits(2) [of 1 1 ?old] by simp
  note line = remapped_mask [of "io_log s" "[]" 1 ?new ?old, OF _ _ _ this]
  have on: "interrupts_on b ?u"
    using assms(2) line(1) idt_entry_same [of ?u s b]
    by (simp add: interrupts_on_def other_ports_def register_interrupt_handler_def)
  have "line_on b 1 ?u"
    unfolding line_on_def using on line(2) assms(2) by (simp add: interrupts_on_def other_ports_def)
  moreover have inv: "kernel_inv ?s" using assms(1) by (simp add: kernel_inv_def tty_inv_def kbd_inv_def)
  moreover have "interrupt_handlers (register_interrupt_handler 33 Keyboard_handler ?s) ! 33 = Some Keyboard_handler"
    using registered(1) [OF kernel_invD(3) [OF inv], of 33 Keyboard_handler 33] by simp
  ultimately have "listening b ?u"
    using kernel_inv_register [OF inv, of 33 Keyboard_handler] by (simp add: listening_def)
  moreover have "kbd_queue ?u = []" by (simp add: kbd_queue_def pending_def register_interrupt_handler_def)
  moreover have "same_memory s ?u" "key_reads (io_log ?u) = key_reads (io_log s)" "k_idt ?u = k_idt s" "k_idtr ?u = k_idtr s"
    by (simp_all add: same_memory_def register_interrupt_handler_def)
  ultimately show thesis by (rule that [OF init])
qed

lemma listening_put_chars:
  assumes "listening b s"
  shows "listening b (put_chars out s)" and "kbd_queue (put_chars out s) = kbd_queue s" and "quiet s (put_chars out s)"
proof -
  have inv: "kernel_inv s" using assms by (simp add: listening_def)
  have frame: "tty_frame s (put_chars out s)" by (rule put_chars_frame [OF kernel_invD(1) [OF inv]])
  have "interrupt_handlers (put_chars out s) = interrupt_handlers s" using frame by (auto simp: tty_frame_def)
  then show "listening b (put_chars out s)"
    using assms kernel_inv_put_chars [OF inv] line_on_same [OF _ _ same_lines_frame [OF frame]]
    by (simp add: listening_def)
  show "kbd_queue (put_chars out s) = kbd_queue s" using frame by (auto simp: tty_frame_def kbd_queue_def pending_def)
  show "quiet s (put_chars out s)" by (rule quiet_frame [OF frame])
qed

lemma keyboard_kernel_boots:
  fixes s :: "'a kernel_scheme"
  assumes "kernel_inv s" and "interrupts_on b s" and "keyboard_delivers (devices b) codes"
    and "1 \<in> set (take (length keys) (drop (key_reads (io_log s)) codes))"
  obtains t where "keyboard_kernel b (map (key_irq b) keys) s = Some (Ok t)" and "kernel_inv t" and "same_memory s t"
    and "interrupts_on b t" and "k_idt t = k_idt s" and "k_idtr t = k_idtr s"
proof -
  let ?s1 = "put_chars (cstr ''******KEYBOARD******\<newline>'') s"
  let ?out = "cstr ''[keyboard] irq1 registered\<newline>'' @ cstr ''[test] type something and press escape to stop\<newline>''"
  have q1: "quiet s ?s1" by (rule quiet_frame [OF put_chars_frame [OF kernel_invD(1) [OF assms(1)]]])
  then have on1: "interrupts_on b ?s1" using same_lines_on [OF assms(2)] by (simp add: quiet_def)
  obtain s2 where s2: "keyboard_init (devices b) ?s1 = Inr s2" "listening b s2" "kbd_queue s2 = []" "same_memory ?s1 s2"
    "key_reads (io_log s2) = key_reads (io_log ?s1)" "k_idt s2 = k_idt ?s1" "k_idtr s2 = k_idtr ?s1"
    by (rule keyboard_init_listens [OF kernel_inv_put_chars [OF assms(1)] on1])
  let ?s3 = "put_chars ?out s2"
  have s3: "listening b ?s3" "kbd_queue ?s3 = []" "quiet s2 ?s3"
    using listening_put_chars [OF s2(2)] s2(3) by simp_all
  have "key_reads (io_log ?s3) = key_reads (io_log s)" using s3(3) s2(5) q1 by (simp add: quiet_def)
  then have "1 \<in> set (scancodes (devices b) (length keys) (io_log ?s3))"
    using scancodes_delivered [OF assms(3)] assms(4) by simp
  then obtain t where t: "typing_loop (map (key_irq b) keys) ?s3 = Some t" "kernel_inv t" "same_memory ?s3 t"
    "same_lines ?s3 t" using typing_loop_returns [OF s3(1,2)] by blast
  have lit: "say ''******KEYBOARD******\<newline>'' [] u = Ok (put_chars (cstr ''******KEYBOARD******\<newline>'') u)"
    "say ''[keyboard] irq1 registered\<newline>'' [] u = Ok (put_chars (cstr ''[keyboard] irq1 registered\<newline>'') u)"
    "say ''[test] type something and press escape to stop\<newline>'' [] u
      = Ok (put_chars (cstr ''[test] type something and press escape to stop\<newline>'') u)"
    "say ''\<newline>'' [] u = Ok (put_chars (cstr ''\<newline>'') u)" for u :: "'a kernel_scheme"
    by (rule say_literal; simp add: cstr_def)+
  let ?t = "put_chars (cstr ''\<newline>'') t"
  have run: "keyboard_kernel b (map (key_irq b) keys) s = Some (Ok ?t)"
    using t(1) by (simp add: keyboard_kernel_def lit s2(1) put_chars_append)
  have qt: "quiet t ?t" by (rule quiet_frame [OF put_chars_frame [OF kernel_invD(1) [OF t(2)]]])
  have "same_memory s ?t"
    using quietD(1) [OF q1] s2(4) quietD(1) [OF s3(3)] t(3) quietD(1) [OF qt] same_memory_trans by blast
  moreover have lines: "same_lines s2 ?t"
    using quietD(2) [OF s3(3)] t(4) quietD(2) [OF qt] same_lines_trans by blast
  moreover have "interrupts_on b ?t"
    using s2(2) same_lines_on [OF _ lines] by (simp add: listening_def line_on_def)
  moreover have "k_idt ?t = k_idt s" "k_idtr ?t = k_idtr s"
    using lines s2(6,7) q1 by (simp_all add: same_lines_def quiet_def)
  ultimately show thesis using run kernel_inv_put_chars [OF t(2)] by (intro that)
qed

section \<open>Memory\<close>

lemma heap_more_fields:
  fixes s t :: "'a tasks_scheme"
  assumes "heap.more t = heap.more s"
  shows "interrupt_handlers t = interrupt_handlers s" and "kbd_inv t = kbd_inv s" and "table_inv t = table_inv s"
    and "task_count t = task_count s" and "scheduling_enabled t = scheduling_enabled s"
  using assms by (cases s; cases t; simp add: kbd_inv_def table_inv_def)+

lemma heap_more_tables:
  fixes s t :: "'a kernel_scheme"
  assumes "heap.more t = heap.more s"
  shows "k_idt t = k_idt s" and "k_idtr t = k_idtr s"
  using assms by (cases s; cases t; simp)+

lemma kernel_inv_new_heap:
  fixes s t :: "'a tasks_scheme"
  assumes "kernel_inv s" and "heap_beginning s = 0" and "tty_inv t" and "heap_rel t []" and "heap.more t = heap.more s"
  shows "kernel_inv t" and "heap_beginning t \<noteq> 0"
proof -
  note same = heap_more_fields [OF assms(5)]
  have low: "0x800000 \<le> unat (heap_beginning t)" using assms(4) by (simp add: heap_rel_def HEAP_LOW_def)
  then show hb: "heap_beginning t \<noteq> 0" by auto
  have "task_count s = 0" using kernel_invD(4) [OF assms(1)] assms(2) by (simp add: memory_ok_def)
  then have "live t = []" by (simp add: live_def same)
  moreover have "heap_inv t" using assms(4) by (auto simp: heap_inv_def)
  ultimately have "task_inv t"
    using kernel_invD(5) [OF assms(1)] by (simp add: task_inv_def same numbered_def stacks_owned_def stacks_def)
  then show "kernel_inv t" using kernel_invD(2,3) [OF assms(1)] assms(3) hb by (simp add: kernel_inv_def memory_ok_def same)
qed

lemma count_line_prints:
  "prints s (say ''[memory] BIOS reported %d usable memory map entries\<newline>'' [Slot (ucast (count :: u16))] s)"
proof -
  have "bit (0x8000000000000000 :: u64) 63" and "\<not> bit (ucast count :: u64) 63"
    by (auto simp: bit_simps dest: bit_imp_le_length)
  then have min: "sint (ucast count :: u64) \<noteq> INT64_MIN" by (metis sint_min_iff)
  show ?thesis
    by (rule prints_say(1), simp add: cstr_def, use min in \<open>simp add: cstr_def\<close>,
        use decimal_text_length [OF min] in simp)
qed

text \<open>The entries of the memory map do not wrap, and the table is not on the screen.\<close>

definition memory_map_ok :: "memory \<Rightarrow> u64 \<Rightarrow> u16 \<Rightarrow> bool" where
  "memory_map_ok m mmap count \<longleftrightarrow> table_apart mmap (unat count) \<and> (\<forall>i < unat count. no_wrap (mmap_at m mmap i))"

lemma memory_map_ok_frame:
  assumes "memory_map_ok (mem s) mmap count" and "same_memory s t"
  shows "memory_map_ok (mem t) mmap count"
proof -
  have "tty_frame s (s\<lparr>mem := mem t\<rparr>)"
    using assms(2) by (intro tty_frameI [where m = "mem t" and x = "cursor_x s" and y = "cursor_y s"])
      (simp_all add: same_memory_def)
  from mmap_at_frame [OF _ this, of mmap "unat count"] assms(1) show ?thesis by (simp add: memory_map_ok_def)
qed

definition unchanged_memory :: "'a tty_scheme \<Rightarrow> 'a tty_scheme \<Rightarrow> bool" where
  "unchanged_memory s t \<longleftrightarrow> (\<forall>x. x \<notin> vga_region \<longrightarrow> mem t x = mem s x)"

lemma memory_kernel_boots:
  fixes s :: "'a kernel_scheme"
  assumes "kernel_inv s" and "heap_beginning s = 0" and "unat (kernel_end_addr b) + 0x1000 \<le> 0x40000000"
    and "memory_map_ok (mem s) mmap count"
  obtains t where "memory_kernel b mmap (ucast count) s = Ok t" and "kernel_inv t" and "heap_beginning t \<noteq> 0"
    and "unchanged_memory s t" and "k_idt t = k_idt s" and "k_idtr t = k_idtr s"
proof -
  let ?count = "say ''[memory] BIOS reported %d usable memory map entries\<newline>'' [Slot (ucast count)]"
  have "goes s (bind_ok (say ''******MEMORY******\<newline>'' [] s) ?count)"
    by (rule goes_bind [OF goes_say [OF assms(1)] goes_prints [OF _ count_line_prints]]) (simp_all add: cstr_def)
  then obtain u where u: "bind_ok (say ''******MEMORY******\<newline>'' [] s) ?count = Ok u" "kernel_inv u" "same_memory s u"
    "quiet s u" by (auto simp: goes_def dest: quietD(1))
  have map: "memory_map_ok (mem u) mmap count" by (rule memory_map_ok_frame [OF assms(4) u(3)])
  obtain v where v: "memory_init (kernel_end_addr b) mmap count u = Ok v" "tty_inv v" "heap_rel v []"
    "\<forall>x. x \<notin> vga_region \<longrightarrow> mem v x = mem u x" "heap.more v = heap.more u"
  proof (rule memory_init_effect [OF kernel_invD(1) [OF u(2)] assms(3)])
    show "table_apart mmap (unat count)" using map by (simp add: memory_map_ok_def)
    show "no_wrap (mmap_at (mem u) mmap i)" if "i < unat count" for i using map that by (simp add: memory_map_ok_def)
  qed (use that in blast)
  have zero: "heap_beginning u = 0" using u(3) assms(2) by (simp add: same_memory_def)
  note inv = kernel_inv_new_heap [OF u(2) zero v(2,3,5)]
  let ?t = "put_chars (cstr ''[memory] heap beginning and end was set\<newline>'') v"
  have frame: "tty_frame v ?t" by (rule put_chars_frame [OF v(2)])
  have cast: "(ucast (ucast count :: u64) :: u16) = count" by (rule bit_word_eqI) (auto simp: bit_simps)
  have "say ''[memory] heap beginning and end was set\<newline>'' [] v = Ok ?t" by (rule say_literal) (simp_all add: cstr_def)
  then have "memory_kernel b mmap (ucast count) s = Ok ?t"
    unfolding memory_kernel_def u(1) cast by (simp add: v(1))
  moreover have "heap_beginning ?t \<noteq> 0" using frame inv(2) by (auto simp: tty_frame_def)
  moreover have "unchanged_memory s ?t"
    using u(3) v(4) frame_mem [OF frame] by (simp add: unchanged_memory_def same_memory_def)
  moreover have "k_idt ?t = k_idt s" "k_idtr ?t = k_idtr s"
    using quietD(4,5) [OF u(4)] heap_more_tables [OF v(5)] quietD(4,5) [OF quiet_frame [OF frame]] by simp_all
  ultimately show thesis using kernel_inv_put_chars [OF inv(1)] by (intro that)
qed

section \<open>File system and tasks\<close>

lemma kernel_inv_fs [simp]:
  "kernel_inv (s\<lparr>fs_file_count := n\<rparr>) = kernel_inv s" "kernel_inv (s\<lparr>fs_entries := p\<rparr>) = kernel_inv s"
  "kernel_inv (s\<lparr>fs_data := p\<rparr>) = kernel_inv s"
  by (simp_all add: kernel_inv_def tty_inv_def kbd_inv_def memory_ok_def task_inv_def table_inv_def live_def
      stacks_owned_def heap_inv_def owns_def heap_rel_def)

lemma filesystem_kernel_boots:
  fixes s :: "'a kernel_scheme"
  assumes "kernel_inv s" and "pack_main files True (prog # out # ps @ path # qs) = (0, Some img)"
    and "files path = Some contents" and "base_of path = cstr ''doom.txt''"
    and "doom_name \<notin> entry_name_of ` set ps"
    and "stored (mem s) a img" and "length img < 4294967296" and "unat a + length img \<le> 18446744073709551616"
    and "region a (length img) \<inter> vga_region = {}"
  shows "goes s (filesystem_kernel b a s)"
proof -
  let ?s = "put_chars (cstr ''******FILESYSTEM******\<newline>'') s"
  let ?out = "size_line (slot_upper b) (length contents) @ contents @ [10]"
  obtain n p d where run: "filesystem_kernel b a s
      = Ok (put_chars ?out (?s\<lparr>fs_file_count := n, fs_entries := p, fs_data := d\<rparr>))"
    using kernel_invD(1) [OF assms(1)] assms(2-9) by (rule filesystem_kernel_effect [where b = b])
  let ?u = "?s\<lparr>fs_file_count := n, fs_entries := p, fs_data := d\<rparr>"
  have inv: "kernel_inv ?u" using kernel_inv_put_chars [OF assms(1)] by simp
  have "quiet s ?s" by (rule quiet_frame [OF put_chars_frame [OF kernel_invD(1) [OF assms(1)]]])
  then have "quiet s ?u" by (simp add: quiet_def same_memory_def same_lines_def)
  then have "quiet s (put_chars ?out ?u)"
    by (rule quiet_trans [OF _ quiet_frame [OF put_chars_frame [OF kernel_invD(1) [OF inv]]]])
  then show ?thesis unfolding run by (rule goes_Ok [OF kernel_inv_put_chars [OF inv]])
qed

lemma tasks_kernel_boots:
  fixes s :: "'a kernel_scheme"
  assumes "kernel_inv s"
  obtains t where "tasks_kernel s = Ok t" and "kernel_inv t" and "scheduling_enabled t = 1" and "quiet s t"
proof -
  have "goes s (bind_ok (say ''******TASKS******\<newline>'' [] s) (say ''[tasks] created two test tasks which print A and B\<newline>'' []))"
    by (rule goes_bind [OF goes_say [OF assms] goes_say]; simp add: cstr_def)
  then obtain t where t: "bind_ok (say ''******TASKS******\<newline>'' [] s)
      (say ''[tasks] created two test tasks which print A and B\<newline>'' []) = Ok t" "kernel_inv t" "quiet s t"
    by (auto simp: goes_def)
  then have "tasks_kernel s = Ok (scheduler_enable t)" by (simp add: tasks_kernel_def)
  then show thesis
    by (rule that) (use t in \<open>simp_all add: scheduler_enable_def quiet_def same_memory_def same_lines_def\<close>)
qed

section \<open>User mode\<close>

lemma foldl_bind_inv:
  assumes "foldl bind_ok (Ok r) fs = Ok r'" and "P r"
    and "\<And>f r r'. f \<in> set fs \<Longrightarrow> P r \<Longrightarrow> f r = Ok r' \<Longrightarrow> P r'"
  shows "P r'"
  using assms(1,3)
proof (induction fs arbitrary: r' rule: rev_induct)
  case (snoc f fs)
  then obtain u where u: "foldl bind_ok (Ok r) fs = Ok u" "f u = Ok r'" by (auto simp: bind_ok_eq_Ok)
  have "P u" by (rule snoc.IH [OF u(1)]) (use snoc.prems(2) in auto)
  then show ?case using snoc.prems(2) u(2) by auto
qed (use assms(2) in simp)

lemma kernel_inv_stores:
  fixes s :: "'a sys_scheme"
  assumes "kernel_inv s" and "unat msg + 8 \<le> 0x800000" and "set is \<subseteq> {0..<8}"
  shows "kernel_inv (s\<lparr>mem := fold (\<lambda>i m. store8 m (msg + of_nat i) (bs ! i)) is (mem s)\<rparr>)"
  using assms(1,3)
proof (induction "is" arbitrary: s)
  case (Cons i js)
  have "unat (msg + of_nat i) = unat msg + i"
    using Cons.prems(2) assms(2) by (subst unat_plus_no_wrap) simp_all
  then have "msg + of_nat i < 0x800000" using Cons.prems(2) assms(2) by (simp add: word_less_nat_alt)
  from kernel_inv_store(2) [OF Cons.prems(1) this]
  have "kernel_inv (s\<lparr>mem := store8 (mem s) (msg + of_nat i) (bs ! i)\<rparr>)" .
  from Cons.IH [OF this] Cons.prems(2) show ?case by simp
qed simp

lemma user_test_entry_inv:
  fixes s :: "'a sys_scheme"
  assumes "slots_ok b" and "kernel_inv s" and "unat msg + 8 \<le> 0x800000"
    and "user_test_entry b msg frame s = Ok (frame', t)"
  shows "kernel_inv t"
proof -
  let ?P = "\<lambda>r :: interrupt_frame \<times> 'a sys_scheme. kernel_inv (snd r)"
  have call: "?P r'" if "?P r" "system_call b num x y r = Ok r'" for num x y r r'
  proof -
    obtain fr u fr' u' where r: "r = (fr, u)" "r' = (fr', u')" by (cases r; cases r')
    let ?fr = "fr\<lparr>fr_rax := num, fr_rdi := x, fr_rsi := y\<rparr>"
    have "outcome_state (isr_stub_run b 0x80 ?fr u) = Some (fr', u')" using that(2) by (simp add: system_call_def r)
    then show ?thesis using stub_inv(1) [of u "0x80" b ?fr fr' u'] that(1) by (simp add: r)
  qed
  have round: "?P r'" if "?P r" "user_round b msg k r = Ok r'" for k r r'
  proof -
    obtain fr u where r: "r = (fr, u)" by (cases r)
    have "unat (msg + 6) = unat msg + 6" using assms(3) by (subst unat_plus_no_wrap) simp_all
    then have "msg + 6 < 0x800000" using assms(3) by (simp add: word_less_nat_alt)
    then have "?P (fr, u\<lparr>mem := store8 (mem u) (msg + 6) (of_nat (48 + k))\<rparr>)"
      using kernel_inv_store(2) [of u] that(1) by (simp add: r)
    then show ?thesis by (rule call) (use that(2) in \<open>simp add: user_round_def r\<close>)
  qed
  let ?s = "s\<lparr>mem := fold (\<lambda>i m. store8 m (msg + of_nat i) (cstr ''count 0\<newline>'' ! i)) [0..<8] (mem s)\<rparr>"
  obtain r where r: "foldl bind_ok (Ok (frame, ?s)) (map (user_round b msg) [1..<6]) = Ok r"
    "system_call b 60 0 0 r = Ok (frame', t)"
    using assms(4) unfolding user_test_entry_def Let_def bind_ok_eq_Ok by blast
  have "kernel_inv ?s" by (rule kernel_inv_stores [OF assms(2,3)]) simp
  then have "?P r" by (intro foldl_bind_inv [OF r(1), of ?P]) (auto intro: round)
  from call [OF this r(2)] show ?thesis by simp
qed

text \<open>What user mode needs: a program that fits into user space and a message buffer there.\<close>

definition user_space_ok :: "board \<Rightarrow> u64 \<Rightarrow> bool" where
  "user_space_ok b msg \<longleftrightarrow> unat (user_text_end b - user_text_start b) \<le> 0x400000
     \<and> 0x400000 \<le> msg \<and> unat msg + 8 \<le> 0x800000"

lemma user_code_low:
  assumes "unat n \<le> 0x400000"
  shows "only_changes 0 0x800000 m (memcpy m USER_CODE_BASE src n)"
  unfolding only_changes_def
proof (intro allI impI)
  fix x :: u64 assume "unat x < 0 \<or> 0x800000 \<le> unat x"
  then have "x \<notin> region USER_CODE_BASE (unat n)" using assms by (simp add: region_interval USER_CODE_BASE_def)
  then show "memcpy m USER_CODE_BASE src n x = m x" by (rule libc.copy_outside)
qed

text \<open>
  The program's \<open>int 0x80\<close> needs a gate that ring 3 may use and that leads to the stub; the
  program does not change the table.
\<close>

definition through_gate ::
  "board \<Rightarrow> (interrupt_frame \<Rightarrow> 'a kernel_scheme \<Rightarrow> (interrupt_frame \<times> 'a kernel_scheme) outcome) \<Rightarrow>
    interrupt_frame \<Rightarrow> 'a kernel_scheme \<Rightarrow> (interrupt_frame \<times> 'a kernel_scheme) outcome" where
  "through_gate b program frame s =
     (if idt_entry b 0x80 s = Some (isr128_stub b, 0x08, 3) then program frame s else UB No_gate)"

lemma enter_user_mode_returns:
  fixes s :: "'a kernel_scheme"
  assumes "slots_ok b" and "kernel_inv s" and "interrupt_handlers s ! 128 = Some Syscall_handler"
    and "user_space_ok b msg" and "gates_on b s"
  obtains t where "enter_user_mode rsp rflags regs (through_gate b (user_test_entry b msg)) entry stack cs ds s = Ok t"
    and "kernel_inv t" and "heap_beginning t = heap_beginning s" and "scheduling_enabled t = scheduling_enabled s"
proof -
  let ?s = "s\<lparr>saved_kernel_rsp := rsp - 6 * 8, if_flag := True\<rparr>"
  let ?fr = "regs\<lparr>fr_rax := rflags OR 0x200, fr_rip := entry, fr_cs := ucast cs, fr_rflags := rflags OR 0x200,
    fr_rsp := stack, fr_ss := ucast ds\<rparr>"
  have inv: "kernel_inv ?s" using assms(2) by simp
  have h: "interrupt_handlers ?s ! 128 = Some Syscall_handler" using assms(3) by simp
  obtain fr t where t: "user_test_entry b msg ?fr ?s = Ok (fr, t)" "user_env ?s t"
    using user_program_effect [OF kernel_invD(1) [OF inv] h assms(1), of msg ?fr] assms(4)
    by (auto simp: user_space_ok_def)
  have "gates_on b ?s" by (rule gates_on_same [OF assms(5)]) simp_all
  then have "enter_user_mode rsp rflags regs (through_gate b (user_test_entry b msg)) entry stack cs ds s = Ok t"
    using t(1) by (simp add: enter_user_mode_def iretq_def Let_def through_gate_def gates_on_def)
  moreover have "kernel_inv t"
    by (rule user_test_entry_inv [OF assms(1) inv _ t(1)]) (use assms(4) in \<open>simp add: user_space_ok_def\<close>)
  ultimately show thesis using user_env_fields(4,5) [OF t(2)] by (intro that [of t]) simp_all
qed

lemma user_mode_kernel_boots:
  fixes s :: "'a kernel_scheme"
  assumes "slots_ok b" and "kernel_inv s" and "user_space_ok b msg" and "gates_on b s"
  obtains t where "user_mode_kernel b (enter_user_mode rsp rflags regs (through_gate b (user_test_entry b msg))) s = Ok t"
    and "kernel_inv t" and "heap_beginning t = heap_beginning s" and "scheduling_enabled t = scheduling_enabled s"
proof -
  let ?s1 = "put_chars (cstr ''******USER MODE******\<newline>'') s"
  let ?s2 = "?s1\<lparr>mem := memcpy (mem ?s1) USER_CODE_BASE (user_text_start b) (user_text_end b - user_text_start b)\<rparr>"
  let ?s3 = "syscall_init (resume_kernel b) ?s2"
  let ?s4 = "put_chars (cstr ''[user mode] jumping into user space\<newline>'') ?s3"
  have "kernel_inv ?s2"
    by (rule kernel_inv_low [OF kernel_inv_put_chars [OF assms(2)] user_code_low])
      (use assms(3) in \<open>simp add: user_space_ok_def\<close>)
  then have inv2: "kernel_inv (?s2\<lparr>resume_kernel_func := resume_kernel b\<rparr>)" by simp
  have inv3: "kernel_inv ?s3" unfolding syscall_init_def by (rule kernel_inv_register [OF inv2])
  have "interrupt_handlers ?s3 ! 128 = Some Syscall_handler"
    using registered(1) [OF kernel_invD(3) [OF inv2], of 128 Syscall_handler 128] by (simp add: syscall_init_def)
  moreover have f4: "tty_frame ?s3 ?s4" by (rule put_chars_frame [OF kernel_invD(1) [OF inv3]])
  ultimately have h: "interrupt_handlers ?s4 ! 128 = Some Syscall_handler" by (auto simp: tty_frame_def)
  have f1': "tty_frame s ?s1" by (rule put_chars_frame [OF kernel_invD(1) [OF assms(2)]])
  have "gates_on b ?s4"
    by (rule gates_on_same [OF assms(4)])
      (use quietD(4,5) [OF quiet_frame [OF f4]] quietD(4,5) [OF quiet_frame [OF f1']] in
        \<open>simp_all add: syscall_init_def register_interrupt_handler_def\<close>)
  note gates = this
  obtain t where t: "enter_user_mode rsp rflags regs (through_gate b (user_test_entry b msg))
      (USER_CODE_BASE + (user_entry b - user_text_start b)) USER_STACK_TOP 0x23 0x1B ?s4 = Ok t"
    "kernel_inv t" "heap_beginning t = heap_beginning ?s4" "scheduling_enabled t = scheduling_enabled ?s4"
    by (rule enter_user_mode_returns [OF assms(1) kernel_inv_put_chars [OF inv3] h assms(3) gates])
  let ?t = "put_chars (cstr ''[user mode] back from user mode\<newline>'') t"
  have f1: "tty_frame s ?s1" "tty_frame t ?t"
    by (rule put_chars_frame [OF kernel_invD(1) [OF assms(2)]], rule put_chars_frame [OF kernel_invD(1) [OF t(2)]])
  have fields: "heap_beginning ?t = heap_beginning s" "scheduling_enabled ?t = scheduling_enabled s"
  proof -
    have "heap_beginning ?s3 = heap_beginning ?s1" "scheduling_enabled ?s3 = scheduling_enabled ?s1"
      by (simp_all add: syscall_init_def register_interrupt_handler_def)
    then show "heap_beginning ?t = heap_beginning s" "scheduling_enabled ?t = scheduling_enabled s"
      using f1 f4 t(3,4) by (auto simp: tty_frame_def)
  qed
  have lit: "say ''******USER MODE******\<newline>'' [] u = Ok (put_chars (cstr ''******USER MODE******\<newline>'') u)"
    "say ''[user mode] jumping into user space\<newline>'' [] u
      = Ok (put_chars (cstr ''[user mode] jumping into user space\<newline>'') u)"
    "say ''[user mode] back from user mode\<newline>'' [] u
      = Ok (put_chars (cstr ''[user mode] back from user mode\<newline>'') u)" for u :: "'a kernel_scheme"
    by (rule say_literal; simp add: cstr_def)+
  have "user_mode_kernel b (enter_user_mode rsp rflags regs (through_gate b (user_test_entry b msg))) s = Ok ?t"
    unfolding user_mode_kernel_def Let_def by (simp add: lit t(1))
  then show thesis using kernel_inv_put_chars [OF t(2)] fields by (rule that)
qed

section \<open>Properties\<close>

text \<open>An archive of the packing tool with \<open>doom.txt\<close> in it, in memory and not on the screen.\<close>

definition initrd_ok :: "memory \<Rightarrow> u64 \<Rightarrow> bool" where
  "initrd_ok m a \<longleftrightarrow> (\<exists>files prog out ps path qs img contents.
     pack_main files True (prog # out # ps @ path # qs) = (0, Some img) \<and> files path = Some contents
     \<and> base_of path = cstr ''doom.txt'' \<and> doom_name \<notin> entry_name_of ` set ps
     \<and> stored m a img \<and> length img < 4294967296 \<and> unat a + length img \<le> 18446744073709551616
     \<and> region a (length img) \<inter> vga_region = {})"

lemma initrd_ok_boots:
  fixes s :: "'a kernel_scheme"
  assumes "kernel_inv s" and "initrd_ok (mem s) a"
  shows "goes s (filesystem_kernel b a s)"
  using assms(2) filesystem_kernel_boots [OF assms(1)] unfolding initrd_ok_def by blast

lemma initrd_ok_frame:
  assumes "initrd_ok (mem s) a" and "unchanged_memory s t"
  shows "initrd_ok (mem t) a"
proof -
  have frame: "tty_frame s (s\<lparr>mem := mem t\<rparr>)"
    using assms(2) by (intro tty_frameI [where m = "mem t" and x = "cursor_x s" and y = "cursor_y s"])
      (simp_all add: unchanged_memory_def)
  have "stored (mem t) a img"
    if "stored (mem s) a img" "length img < 4294967296" "region a (length img) \<inter> vga_region = {}" for img
    using stored_frame [OF that(1) frame that(3)] that(2) by simp
  with assms(1) show ?thesis unfolding initrd_ok_def by blast
qed

lemma boot_drivers:
  fixes s :: "'a kernel_scheme"
  assumes "power_on s" and "keyboard_delivers (devices b) codes" and "key_reads (io_log s) = 0"
    and "1 \<in> set (take (length keys) codes)" and "300 \<le> length frames"
  obtains t where "and_then (and_then
      (Some (bind_ok (bind_ok (terminal_kernel s) (gdt_kernel b)) (interrupt_kernel b frame)))
      (keyboard_kernel b (map (key_irq b) keys))) (timer_kernel b (map (tick b) frames)) = Some (Ok t)"
    and "kernel_inv t" and "same_memory s t" and "gates_on b t"
proof -
  have "goes s (bind_ok (terminal_kernel s) (gdt_kernel b))"
    by (rule goes_bind [OF terminal_kernel_goes [OF assms(1)] gdt_kernel_goes])
  then obtain t0 where t0: "bind_ok (terminal_kernel s) (gdt_kernel b) = Ok t0" "kernel_inv t0" "quiet s t0"
    by (auto simp: goes_def)
  have "k_idt t0 = idt_zeroed" using quietD(4) [OF t0(3)] assms(1) by (simp add: power_on_def)
  then obtain t1 where t1: "interrupt_kernel b frame t0 = Ok t1" "kernel_inv t1" "same_memory t0 t1"
    "interrupts_on b t1" "gates_on b t1" "key_reads (io_log t1) = key_reads (io_log t0)"
    by (rule interrupt_kernel_sets_up [OF t0(2)])
  have reads: "key_reads (io_log t1) = 0" using t1(6) quietD(3) [OF t0(3)] assms(3) by simp
  obtain t2 where t2: "keyboard_kernel b (map (key_irq b) keys) t1 = Some (Ok t2)" "kernel_inv t2" "same_memory t1 t2"
    "interrupts_on b t2" "k_idt t2 = k_idt t1" "k_idtr t2 = k_idtr t1"
    by (rule keyboard_kernel_boots [OF t1(2,4) assms(2), of keys]) (use reads assms(4) in simp_all)
  have mem2: "same_memory s t2" using quietD(1) [OF t0(3)] t1(3) t2(3) same_memory_trans by blast
  then have "heap_beginning t2 = 0" using assms(1) by (simp add: same_memory_def power_on_def)
  then have "no_switch t2" using kernel_invD(4) [OF t2(2)] by (simp add: memory_ok_def no_switch_def)
  then obtain t3 where t3: "timer_kernel b (map (tick b) frames) t2 = Some (Ok t3)" "kernel_inv t3" "same_memory t2 t3"
    "k_idt t3 = k_idt t2" "k_idtr t3 = k_idtr t2"
    using timer_kernel_effect [OF t2(2,4), of frames] assms(5) by (auto split: if_splits)
  have "gates_on b t3" by (rule gates_on_same [OF t1(5)]) (simp_all add: t3(4,5) t2(5,6))
  moreover have "same_memory s t3" using mem2 t3(3) same_memory_trans by blast
  ultimately show thesis using t0(1) t1(1) t2(1) t3(1,2) by (intro that [of t3]) simp_all
qed

text \<open>
  C6: the kernel boots. Started with zeroed static storage, a sane memory map, a packed archive
  and a user program that fits, on a keyboard that delivers some list of codes with Escape
  among the first ones (as many as there are keyboard interrupts), with at least 300 timer
  interrupts, and not on the one bad value of the variadic slot (\<open>slots_ok\<close>): \<open>kernel_main\<close>
  passes every stage and reaches its idle loop with the kernel's invariant, a heap and the
  scheduler enabled. The breakpoint of the interrupt test and the system calls of the user
  program find their gates; the interrupts that wake the waiting loops are delivered only if
  the interrupt flag, the mask and vectors of the controller and the gates, as the code has
  set them up by then, let them through.
\<close>

theorem kernel_boots:
  fixes s :: "'a kernel_scheme"
  assumes "slots_ok b" and "power_on s"
    and "keyboard_delivers (devices b) codes" and "key_reads (io_log s) = 0" and "1 \<in> set (take (length keys) codes)"
    and "300 \<le> length frames" and "unat (kernel_end_addr b) + 0x1000 \<le> 0x40000000"
    and "memory_map_ok (mem s) mmap count" and "initrd_ok (mem s) initrd" and "user_space_ok b msg"
  shows "\<exists>t. kernel_main b frame (map (key_irq b) keys) (map (tick b) frames)
      (enter_user_mode rsp rflags regs (through_gate b (user_test_entry b msg))) mmap count initrd s = Some (Ok t)
    \<and> kernel_inv t \<and> heap_beginning t \<noteq> 0 \<and> scheduling_enabled t = 1"
proof -
  obtain t3 where t3: "and_then (and_then
      (Some (bind_ok (bind_ok (terminal_kernel s) (gdt_kernel b)) (interrupt_kernel b frame)))
      (keyboard_kernel b (map (key_irq b) keys))) (timer_kernel b (map (tick b) frames)) = Some (Ok t3)"
    "kernel_inv t3" "same_memory s t3" "gates_on b t3"
    by (rule boot_drivers [OF assms(2-6)])
  have zero: "heap_beginning t3 = 0" using t3(3) assms(2) by (simp add: same_memory_def power_on_def)
  have map: "memory_map_ok (mem t3) mmap count" by (rule memory_map_ok_frame [OF assms(8) t3(3)])
  obtain t4 where t4: "memory_kernel b mmap (ucast count) t3 = Ok t4" "kernel_inv t4" "heap_beginning t4 \<noteq> 0"
    "unchanged_memory t3 t4" "k_idt t4 = k_idt t3" "k_idtr t4 = k_idtr t3"
    by (rule memory_kernel_boots [OF t3(2) zero assms(7) map])
  have "unchanged_memory s t4" using t3(3) t4(4) by (simp add: unchanged_memory_def same_memory_def)
  then have "initrd_ok (mem t4) initrd" by (rule initrd_ok_frame [OF assms(9)])
  then obtain t5 where t5: "filesystem_kernel b initrd t4 = Ok t5" "kernel_inv t5" "quiet t4 t5"
    using initrd_ok_boots [OF t4(2), where b = b] by (auto simp: goes_def)
  obtain t6 where t6: "tasks_kernel t5 = Ok t6" "kernel_inv t6" "scheduling_enabled t6 = 1" "quiet t5 t6"
    by (rule tasks_kernel_boots [OF t5(2)])
  have "gates_on b t6"
    by (rule gates_on_same [OF t3(4)]) (use quietD(4,5) [OF t6(4)] quietD(4,5) [OF t5(3)] t4(5,6) in simp_all)
  then obtain t7 where t7: "user_mode_kernel b (enter_user_mode rsp rflags regs (through_gate b (user_test_entry b msg))) t6 = Ok t7"
    "kernel_inv t7" "heap_beginning t7 = heap_beginning t6" "scheduling_enabled t7 = scheduling_enabled t6"
    by (rule user_mode_kernel_boots [OF assms(1) t6(2) assms(10)])
  let ?t = "put_chars (cstr ''[kernel] Successfully booted into the kernel!\<newline>'') t7"
  have fin: "say ''[kernel] Successfully booted into the kernel!\<newline>'' [] t7 = Ok ?t"
    by (rule say_literal) (simp_all add: cstr_def)
  have frame7: "tty_frame t7 ?t" by (rule put_chars_frame [OF kernel_invD(1) [OF t7(2)]])
  have "kernel_main b frame (map (key_irq b) keys) (map (tick b) frames)
      (enter_user_mode rsp rflags regs (through_gate b (user_test_entry b msg))) mmap count initrd s = Some (Ok ?t)"
    unfolding kernel_main_def t3(1) by (simp add: t4(1) t5(1) t6(1) t7(1) fin)
  moreover have "heap_beginning ?t \<noteq> 0" "scheduling_enabled ?t = 1"
    using frame7 t7(3,4) t6(3) t4(3) quietD(1) [OF t6(4)] quietD(1) [OF t5(3)] by (auto simp: tty_frame_def same_memory_def)
  ultimately show ?thesis using kernel_inv_put_chars [OF t7(2)] by blast
qed

definition example_boot :: kernel where
  "example_boot = sys.extend (fs.extend (tasks.extend
     (example_tasks\<lparr>mem := mem example_fs, heap_beginning := 0, heap_end := 0, last_alloc := 0, task_count := 0,
        scheduling_enabled := 0, scheduler_started := 0\<rparr>)
     \<lparr>fs_entries = 0, fs_data = 0, fs_file_count = 0\<rparr>) \<lparr>resume_kernel_func = 0, saved_kernel_rsp = 0\<rparr>)
     \<lparr>k_gdt = init_gdt 0 0 0, k_idt = idt_zeroed, k_idtr = \<lparr>idtr_limit = 0, idtr_base = 0\<rparr>\<rparr>"

lemma example_boot_on: "power_on example_boot" "mem example_boot = mem example_fs" "io_log example_boot = []"
  by (simp_all add: example_boot_def power_on_def sys.defs fs.defs tasks.defs example_tasks_def kbd_inv_def table_inv_def)

lemma example_initrd: "initrd_ok (mem example_fs) 0x500000"
proof -
  have len: "length example_image = 52" by (simp add: example_image_def header_bytes_def bytes32_def cstr_def)
  have "region (0x500000 :: u64) 52 \<inter> vga_region = {}" by (auto simp: vga_region_def region_interval VGA_def)
  moreover have "example_files (cstr ''initrd/doom.txt'') = Some (cstr ''DOOM'')" by (simp add: example_files_def)
  moreover have "base_of (cstr ''initrd/doom.txt'') = cstr ''doom.txt''" by (simp add: base_of_def strrchr_def cstr_def)
  ultimately show ?thesis
    unfolding initrd_ok_def using example_pack example_fs_stored len
    by (intro exI [of _ example_files] exI [of _ "cstr ''pack''"] exI [of _ "cstr ''initrd.bin''"] exI [of _ "[]"]
        exI [of _ "cstr ''initrd/doom.txt''"] exI [of _ "[]"] exI [of _ example_image] exI [of _ "cstr ''DOOM''"]) simp
qed

text \<open>A keyboard on which A is pressed and released, then Escape.\<close>

definition example_keyboard :: device where
  "example_keyboard log port = (if key_reads log < 3 then [0x1E, 0x9E, 1] ! key_reads log else 0)"

theorem kernel_boots_witness:
  "\<exists>t. kernel_main (example_board\<lparr>devices := example_keyboard\<rparr>) example_frame
      (map (key_irq (example_board\<lparr>devices := example_keyboard\<rparr>)) (replicate 3 example_frame))
      (map (tick (example_board\<lparr>devices := example_keyboard\<rparr>)) (replicate 300 example_frame))
      (enter_user_mode 0x90000 0x202 example_frame
        (through_gate (example_board\<lparr>devices := example_keyboard\<rparr>)
          (user_test_entry (example_board\<lparr>devices := example_keyboard\<rparr>) 0x7FFFE0)))
      0x500 0 0x500000 example_boot = Some (Ok t) \<and> kernel_inv t \<and> scheduling_enabled t = 1"
proof -
  let ?b = "example_board\<lparr>devices := example_keyboard\<rparr>"
  have "slots_ok ?b" "unat (kernel_end_addr ?b) + 0x1000 \<le> 0x40000000" "user_space_ok ?b 0x7FFFE0"
    by (simp_all add: slots_ok_def example_board_def user_space_ok_def)
  moreover have "keyboard_delivers (devices ?b) [0x1E, 0x9E, 1]"
    by (simp add: keyboard_delivers_def example_keyboard_def)
  moreover have "key_reads (io_log example_boot) = 0" by (simp add: example_boot_on(3))
  moreover have "1 \<in> set (take (length (replicate 3 example_frame)) [0x1E, 0x9E, 1 :: u8])" by simp
  moreover have "memory_map_ok (mem example_boot) 0x500 0" by (simp add: memory_map_ok_def table_apart_def)
  moreover have "initrd_ok (mem example_boot) 0x500000" by (simp add: example_boot_on(2) example_initrd)
  moreover have "300 \<le> length (replicate 300 example_frame)" by simp
  ultimately show ?thesis
    using kernel_boots [of ?b example_boot "[0x1E, 0x9E, 1]" "replicate 3 example_frame" "replicate 300 example_frame"
        "0x500" 0 "0x500000" "0x7FFFE0"] example_boot_on(1) by blast
qed

end
