(* ===== verification/Cpu.thy ===== *)
theory Cpu
  imports Syscall
begin

text \<open>
  The part of the x86-64 instruction set that the kernel's assembly files use: registers,
  a stack in byte memory, the instructions as a datatype and their execution, the entry of
  an interrupt, and calls of C functions under the System V calling convention. The stack
  the assembly works on is a memory of its own, beside the memory of the kernel state.
  Protection checks of selectors and the clearing of unusable data segments are not modelled.
\<close>

section \<open>Words in memory\<close>

definition load_words :: "memory \<Rightarrow> u64 \<Rightarrow> nat \<Rightarrow> u64 list" where
  "load_words m a n = map (\<lambda>i. load64 m (a + 8 * of_nat i)) [0..<n]"

fun store_words :: "memory \<Rightarrow> u64 \<Rightarrow> u64 list \<Rightarrow> memory" where
  "store_words m a [] = m"
| "store_words m a (w # ws) = store_words (store64 m a w) (a + 8) ws"

section \<open>The CPU\<close>

datatype reg = RAX | RBX | RCX | RDX | RSI | RDI | RBP | RSP | R8 | R9 | R10 | R11 | R12 | R13 | R14 | R15

datatype seg = CS | DS | ES | FS | GS | SS

record cpu =
  c_gpr :: "reg \<Rightarrow> u64"
  c_seg :: "seg \<Rightarrow> u16"
  c_rip :: u64
  c_rflags :: u64
  c_stack :: memory
  c_gdtr :: "u16 \<times> u64"
  c_idtr :: "u16 \<times> u64"
  c_tr :: u16

definition set_gpr :: "reg \<Rightarrow> u64 \<Rightarrow> cpu \<Rightarrow> cpu" where
  "set_gpr r v c = c\<lparr>c_gpr := (c_gpr c)(r := v)\<rparr>"

definition set_seg :: "seg \<Rightarrow> u16 \<Rightarrow> cpu \<Rightarrow> cpu" where
  "set_seg r v c = c\<lparr>c_seg := (c_seg c)(r := v)\<rparr>"

definition push :: "u64 \<Rightarrow> cpu \<Rightarrow> cpu" where
  "push w c = set_gpr RSP (c_gpr c RSP - 8) (c\<lparr>c_stack := store64 (c_stack c) (c_gpr c RSP - 8) w\<rparr>)"

definition at_rsp :: "nat \<Rightarrow> cpu \<Rightarrow> u64" where
  "at_rsp i c = load64 (c_stack c) (c_gpr c RSP + 8 * of_nat i)"

definition drop_words :: "nat \<Rightarrow> cpu \<Rightarrow> cpu" where
  "drop_words n c = set_gpr RSP (c_gpr c RSP + 8 * of_nat n) c"

section \<open>Interrupt frames in memory\<close>

text \<open>The fields of \<open>interrupt_frame_t\<close> in the order of the declaration, 8 bytes each.\<close>

definition frame_words :: "interrupt_frame \<Rightarrow> u64 list" where
  "frame_words f = [fr_r15 f, fr_r14 f, fr_r13 f, fr_r12 f, fr_r11 f, fr_r10 f, fr_r9 f, fr_r8 f, fr_rbp f, fr_rdi f,
     fr_rsi f, fr_rdx f, fr_rcx f, fr_rbx f, fr_rax f, fr_int_no f, fr_err_code f, fr_rip f, fr_cs f, fr_rflags f,
     fr_rsp f, fr_ss f]"

definition words_frame :: "u64 list \<Rightarrow> interrupt_frame" where
  "words_frame ws = \<lparr>fr_r15 = ws ! 0, fr_r14 = ws ! 1, fr_r13 = ws ! 2, fr_r12 = ws ! 3, fr_r11 = ws ! 4,
     fr_r10 = ws ! 5, fr_r9 = ws ! 6, fr_r8 = ws ! 7, fr_rbp = ws ! 8, fr_rdi = ws ! 9, fr_rsi = ws ! 10,
     fr_rdx = ws ! 11, fr_rcx = ws ! 12, fr_rbx = ws ! 13, fr_rax = ws ! 14, fr_int_no = ws ! 15,
     fr_err_code = ws ! 16, fr_rip = ws ! 17, fr_cs = ws ! 18, fr_rflags = ws ! 19, fr_rsp = ws ! 20, fr_ss = ws ! 21\<rparr>"

definition load_frame :: "memory \<Rightarrow> u64 \<Rightarrow> interrupt_frame" where
  "load_frame m p = words_frame (load_words m p 22)"

definition store_frame :: "memory \<Rightarrow> u64 \<Rightarrow> interrupt_frame \<Rightarrow> memory" where
  "store_frame m p f = store_words m p (frame_words f)"

section \<open>Calls of C functions\<close>

text \<open>
  A C function that gets a pointer to a frame in \<open>rdi\<close> changes the frame and the kernel
  state. By the calling convention it keeps \<open>rbx\<close>, \<open>rbp\<close>, \<open>rsp\<close> and \<open>r12\<close> to \<open>r15\<close>; what it
  leaves in the other registers, in the flags and in the \<open>depth\<close> bytes of stack it uses is
  open (\<open>c_env\<close>).
\<close>

record c_env =
  clobber :: "reg \<Rightarrow> u64"
  flags_left :: u64
  junk :: memory
  depth :: nat

definition callee_saved :: "reg \<Rightarrow> bool" where
  "callee_saved r \<longleftrightarrow> r \<in> {RBX, RBP, RSP, R12, R13, R14, R15}"

definition scribble :: "c_env \<Rightarrow> u64 \<Rightarrow> memory \<Rightarrow> memory" where
  "scribble e a m = (\<lambda>x. if x \<in> region (a - of_nat (depth e)) (depth e) then junk e x else m x)"

definition c_return :: "c_env \<Rightarrow> cpu \<Rightarrow> interrupt_frame \<Rightarrow> cpu" where
  "c_return e c f = c\<lparr>c_gpr := (\<lambda>r. if callee_saved r then c_gpr c r else clobber e r), c_rflags := flags_left e,
     c_stack := store_frame (scribble e (c_gpr c RSP) (c_stack c)) (c_gpr c RDI) f\<rparr>"

section \<open>Instructions\<close>

datatype 'f instr =
    Push reg | Push_imm u64 | Pop reg | Pushfq | Mov reg reg | Mov_imm16 reg u16 | Mov_seg seg reg
  | Lea reg u64 | Or_imm reg u64 | Add_imm reg u64 | Cld | Save_rsp | Call 'f
  | Lgdt reg | Lidt reg | Ltr reg | Ret | Retfq | Iretq

text \<open>
  \<open>call\<close> gives the C functions their meaning. \<open>Save_rsp\<close> is the store to the variable
  \<open>saved_kernel_rsp\<close>. \<open>Mov_imm16\<close> writes the low 16 bits of a register.
\<close>

fun exec1 ::
  "('f \<Rightarrow> interrupt_frame \<Rightarrow> 'a sys_scheme \<Rightarrow> (interrupt_frame \<times> 'a sys_scheme) outcome) \<Rightarrow> c_env \<Rightarrow>
    'f instr \<Rightarrow> cpu \<times> 'a sys_scheme \<Rightarrow> (cpu \<times> 'a sys_scheme) outcome" where
  "exec1 call e (Push r) (c, s) = Ok (push (c_gpr c r) c, s)"
| "exec1 call e (Push_imm w) (c, s) = Ok (push w c, s)"
| "exec1 call e (Pop r) (c, s) = Ok (set_gpr r (at_rsp 0 c) (drop_words 1 c), s)"
| "exec1 call e Pushfq (c, s) = Ok (push (c_rflags c) c, s)"
| "exec1 call e (Mov r r') (c, s) = Ok (set_gpr r (c_gpr c r') c, s)"
| "exec1 call e (Mov_imm16 r w) (c, s) = Ok (set_gpr r (c_gpr c r AND NOT 0xFFFF OR ucast w) c, s)"
| "exec1 call e (Mov_seg sg r) (c, s) = Ok (set_seg sg (ucast (c_gpr c r)) c, s)"
| "exec1 call e (Lea r a) (c, s) = Ok (set_gpr r a c, s)"
| "exec1 call e (Or_imm r w) (c, s) = Ok (set_gpr r (c_gpr c r OR w) c, s)"
| "exec1 call e (Add_imm r w) (c, s) = Ok (set_gpr r (c_gpr c r + w) c, s)"
| "exec1 call e Cld (c, s) = Ok (c\<lparr>c_rflags := c_rflags c AND NOT 0x400\<rparr>, s)"
| "exec1 call e Save_rsp (c, s) = Ok (c, s\<lparr>saved_kernel_rsp := c_gpr c RSP\<rparr>)"
| "exec1 call e (Call f) (c, s) =
     map_outcome (\<lambda>(fr, t). (c_return e c fr, t)) (call f (load_frame (c_stack c) (c_gpr c RDI)) s)"
| "exec1 call e (Lgdt r) (c, s) = Ok (c\<lparr>c_gdtr := (load16 (mem s) (c_gpr c r), load64 (mem s) (c_gpr c r + 2))\<rparr>, s)"
| "exec1 call e (Lidt r) (c, s) = Ok (c\<lparr>c_idtr := (load16 (mem s) (c_gpr c r), load64 (mem s) (c_gpr c r + 2))\<rparr>, s)"
| "exec1 call e (Ltr r) (c, s) = Ok (c\<lparr>c_tr := ucast (c_gpr c r)\<rparr>, s)"
| "exec1 call e Ret (c, s) = Ok ((drop_words 1 c)\<lparr>c_rip := at_rsp 0 c\<rparr>, s)"
| "exec1 call e Retfq (c, s) = Ok (set_seg CS (ucast (at_rsp 1 c)) ((drop_words 2 c)\<lparr>c_rip := at_rsp 0 c\<rparr>), s)"
| "exec1 call e Iretq (c, s) =
     Ok (set_seg CS (ucast (at_rsp 1 c)) (set_seg SS (ucast (at_rsp 4 c)) (set_gpr RSP (at_rsp 3 c)
           (c\<lparr>c_rip := at_rsp 0 c, c_rflags := at_rsp 2 c\<rparr>))),
         s\<lparr>if_flag := bit (at_rsp 2 c) 9\<rparr>)"

fun exec ::
  "('f \<Rightarrow> interrupt_frame \<Rightarrow> 'a sys_scheme \<Rightarrow> (interrupt_frame \<times> 'a sys_scheme) outcome) \<Rightarrow> c_env \<Rightarrow>
    'f instr list \<Rightarrow> cpu \<times> 'a sys_scheme \<Rightarrow> (cpu \<times> 'a sys_scheme) outcome" where
  "exec call e [] r = Ok r"
| "exec call e (i # is) r = bind_ok (exec1 call e i r) (exec call e is)"

text \<open>
  An interrupt or exception through an interrupt gate: a change of privilege switches to
  the stack \<open>rsp0\<close> of the TSS, the stack pointer is aligned to 16 bytes, the CPU pushes
  \<open>ss\<close>, \<open>rsp\<close>, the flags, \<open>cs\<close> and \<open>rip\<close> and for some exceptions an error code, and goes on at
  the stub with interrupts off (the flags TF, IF, NT and RF are cleared). \<open>cpu_error_code\<close> is
  the rule of the processor manuals for error codes: double fault, the five faults from
  invalid TSS to page fault, alignment check and security exception; the vectors 21 and 29
  have one only with control-flow enforcement and encrypted virtual machines, which nobody
  turns on here.
\<close>

definition cpu_error_code :: "u64 \<Rightarrow> bool" where
  "cpu_error_code n \<longleftrightarrow> n = 8 \<or> (10 \<le> n \<and> n \<le> 14) \<or> n = 17 \<or> n = 30"

definition int_entry :: "u64 \<Rightarrow> u64 option \<Rightarrow> u64 \<Rightarrow> cpu \<times> 'a sys_scheme \<Rightarrow> cpu \<times> 'a sys_scheme" where
  "int_entry rsp0 err stub r =
     (case r of (c, s) \<Rightarrow>
        let outer = (c_seg c CS AND 3 \<noteq> 0);
            c1 = set_gpr RSP ((if outer then rsp0 else c_gpr c RSP) AND NOT 15) c;
            c2 = fold push [ucast (c_seg c SS), c_gpr c RSP, c_rflags c, ucast (c_seg c CS), c_rip c] c1;
            c3 = (case err of None \<Rightarrow> c2 | Some w \<Rightarrow> push w c2);
            c4 = (if outer then set_seg SS 0 c3 else c3)
        in ((set_seg CS 0x08 c4)\<lparr>c_rip := stub, c_rflags := c_rflags c AND NOT 0x14300\<rparr>, cli s))"

section \<open>The stack as a list of words\<close>

text \<open>The words \<open>ws\<close> are in memory from \<open>a\<close> on.\<close>

definition on_stack :: "memory \<Rightarrow> u64 \<Rightarrow> u64 list \<Rightarrow> bool" where
  "on_stack m a ws \<longleftrightarrow> load_words m a (length ws) = ws"

lemma load_words_Suc: "load_words m a (Suc n) = load64 m a # load_words m (a + 8) n"
  by (rule nth_equalityI) (auto simp: load_words_def nth_Cons algebra_simps simp del: upt_Suc split: nat.splits)

lemma on_stack_Nil [simp]: "on_stack m a []"
  by (simp add: on_stack_def load_words_def)

lemma on_stack_Cons [simp]: "on_stack m a (w # ws) \<longleftrightarrow> load64 m a = w \<and> on_stack m (a + 8) ws"
  by (simp add: on_stack_def load_words_Suc)

lemma on_stack_append: "on_stack m a (vs @ ws) \<longleftrightarrow> on_stack m a vs \<and> on_stack m (a + 8 * of_nat (length vs)) ws"
  by (induction vs arbitrary: a) (auto simp: algebra_simps)

lemma on_stack_nth:
  assumes "on_stack m a ws" and "i < length ws"
  shows "load64 m (a + 8 * of_nat i) = ws ! i"
proof -
  have "load_words m a (length ws) ! i = load64 m (a + 8 * of_nat i)" using assms(2) by (simp add: load_words_def)
  then show ?thesis using assms(1) by (simp add: on_stack_def)
qed

lemma region_split:
  assumes "x \<notin> region a (k + n)"
  shows "x \<notin> region a k" and "x \<notin> region (a + of_nat k) n"
proof -
  have d: "k + n \<le> unat (x - a)" using assms by (simp add: region_iff)
  then show "x \<notin> region a k" by (simp add: region_iff)
  have "k < 18446744073709551616" using d unat_less_2_64 [of "x - a"] by linarith
  then have k: "unat (of_nat k :: u64) = k" by (simp add: unat_of_nat)
  have "(of_nat k :: u64) \<le> x - a" using d k by (simp add: word_le_nat_alt)
  then have "unat ((x - a) - of_nat k) = unat (x - a) - k" by (simp add: unat_minus_le k)
  moreover have "x - (a + of_nat k) = (x - a) - of_nat k" by simp
  ultimately have "unat (x - (a + of_nat k)) = unat (x - a) - k" by presburger
  then show "x \<notin> region (a + of_nat k) n" using d by (simp add: region_iff)
qed

lemmas region_tail = region_split [where k = 8, simplified]

lemma on_stack_cong:
  "on_stack m a ws \<Longrightarrow> (\<And>x. x \<in> region a (8 * length ws) \<Longrightarrow> m' x = m x) \<Longrightarrow> 8 * length ws \<le> 18446744073709551616 \<Longrightarrow>
    on_stack m' a ws"
proof (induction ws arbitrary: a)
  case (Cons w ws)
  have in8: "x \<in> region a (8 * length (w # ws))" if "x \<in> region a 8 \<or> x \<in> region (a + 8) (8 * length ws)" for x
    using region_tail [of x a "8 * length ws"] that by auto
  have "load64 m' a = load64 m a" by (rule load64_cong) (use Cons.prems(2) in8 in blast)
  moreover have "on_stack m' (a + 8) ws"
    using Cons.prems in8 by (intro Cons.IH) auto
  ultimately show ?case using Cons.prems(1) by simp
qed simp

lemma store_words_other:
  "x \<notin> region a (8 * length ws) \<Longrightarrow> 8 * length ws \<le> 18446744073709551616 \<Longrightarrow> store_words m a ws x = m x"
proof (induction ws arbitrary: m a)
  case (Cons w ws)
  have "x \<notin> region a 8" "x \<notin> region (a + 8) (8 * length ws)"
    using region_tail [of x a "8 * length ws"] Cons.prems by auto
  then show ?case using Cons by (simp add: store64_other)
qed simp

lemma region_apart:
  assumes "k + n \<le> 18446744073709551616"
  shows "region a k \<inter> region (a + of_nat k) n = {}"
proof -
  have "x \<notin> region (a + of_nat k) n" if x: "unat (x - a) < k" for x
  proof (cases "n = 0")
    case False
    then have k: "unat (of_nat k :: u64) = k" using assms by (simp add: unat_of_nat)
    have eq: "x - (a + of_nat k) = (x - a) - of_nat k" by simp
    have "unat ((x - a) - of_nat k) = unat (x - a) + 18446744073709551616 - k"
      using x k by (subst unat_sub_if') simp
    then show ?thesis using assms x by (simp add: region_iff eq)
  qed simp
  then show ?thesis by (auto simp: region_iff)
qed

lemmas below_region = region_apart [where k = 8, simplified]

lemma on_stack_store_words:
  "8 * length ws \<le> 18446744073709551616 \<Longrightarrow> on_stack (store_words m a ws) a ws"
proof (induction ws arbitrary: m a)
  case (Cons w ws)
  have "load64 (store_words (store64 m a w) (a + 8) ws) a = load64 (store64 m a w) a"
    by (rule load64_cong, rule store_words_other)
      (use below_region [of "8 * length ws" a] Cons.prems in auto)
  with Cons show ?case by simp
qed simp

section \<open>Pushing and popping\<close>

lemma exec_append: "exec call e (is @ js) r = bind_ok (exec call e is r) (exec call e js)"
proof (induction "is" arbitrary: r)
  case (Cons i "is")
  show ?case by (cases "exec1 call e i r") (simp_all add: Cons)
qed simp

lemma bind_exec_Nil [simp]: "bind_ok x (exec call e []) = x"
  by (cases x) simp_all

lemma set_gpr_simps [simp]:
  "c_gpr (set_gpr r v c) = (c_gpr c)(r := v)" "c_seg (set_gpr r v c) = c_seg c" "c_rip (set_gpr r v c) = c_rip c"
  "c_rflags (set_gpr r v c) = c_rflags c" "c_stack (set_gpr r v c) = c_stack c" "c_gdtr (set_gpr r v c) = c_gdtr c"
  "c_idtr (set_gpr r v c) = c_idtr c" "c_tr (set_gpr r v c) = c_tr c"
  by (simp_all add: set_gpr_def)

lemma set_seg_simps [simp]:
  "c_seg (set_seg r w c) = (c_seg c)(r := w)" "c_gpr (set_seg r w c) = c_gpr c" "c_rip (set_seg r w c) = c_rip c"
  "c_rflags (set_seg r w c) = c_rflags c" "c_stack (set_seg r w c) = c_stack c" "c_gdtr (set_seg r w c) = c_gdtr c"
  "c_idtr (set_seg r w c) = c_idtr c" "c_tr (set_seg r w c) = c_tr c"
  by (simp_all add: set_seg_def)

text \<open>The stack pointer stands on \<open>ws\<close>.\<close>

definition stacked :: "u64 list \<Rightarrow> cpu \<Rightarrow> bool" where
  "stacked ws c \<longleftrightarrow> on_stack (c_stack c) (c_gpr c RSP) ws"

text \<open>
  \<open>pushed n c d\<close>: \<open>d\<close> differs from \<open>c\<close> at most in the \<open>n\<close> words below the stack pointer of \<open>c\<close>,
  where its own stack pointer stands.
\<close>

definition pushed :: "nat \<Rightarrow> cpu \<Rightarrow> cpu \<Rightarrow> bool" where
  "pushed n c d \<longleftrightarrow> (\<exists>m. d = set_gpr RSP (c_gpr c RSP - 8 * of_nat n) (c\<lparr>c_stack := m\<rparr>)
     \<and> (\<forall>x. x \<notin> region (c_gpr c RSP - 8 * of_nat n) (8 * n) \<longrightarrow> m x = c_stack c x))"

lemma push_on_stack:
  assumes "on_stack m a ws" and "8 * length ws + 8 \<le> 18446744073709551616"
  shows "on_stack (store64 m (a - 8) w) (a - 8) (w # ws)"
proof -
  have "on_stack (store64 m (a - 8) w) a ws"
    by (rule on_stack_cong [OF assms(1)], rule store64_other)
      (use below_region [of "8 * length ws" "a - 8"] assms(2) in auto)
  then show ?thesis by simp
qed

lemma push_stacked:
  assumes "stacked ws c" and "8 * length ws + 8 \<le> 18446744073709551616"
  shows "stacked (w # ws) (push w c)"
  using push_on_stack [OF assms(1) [unfolded stacked_def] assms(2)] by (simp add: stacked_def push_def)

lemma push_all_stacked:
  "stacked ws c \<Longrightarrow> 8 * (length vs + length ws) \<le> 18446744073709551616 \<Longrightarrow> stacked (rev vs @ ws) (fold push vs c)"
proof (induction vs arbitrary: ws c)
  case (Cons v vs)
  have "stacked (v # ws) (push v c)" by (rule push_stacked) (use Cons.prems in auto)
  from Cons.IH [OF this] Cons.prems(2) show ?case by simp
qed simp

lemma push_simps [simp]:
  "c_gpr (push w c) = (c_gpr c)(RSP := c_gpr c RSP - 8)" "c_seg (push w c) = c_seg c" "c_rip (push w c) = c_rip c"
  "c_rflags (push w c) = c_rflags c" "c_gdtr (push w c) = c_gdtr c" "c_idtr (push w c) = c_idtr c" "c_tr (push w c) = c_tr c"
  by (simp_all add: push_def)

lemma drop_words_simps [simp]:
  "c_gpr (drop_words n c) = (c_gpr c)(RSP := c_gpr c RSP + 8 * of_nat n)" "c_seg (drop_words n c) = c_seg c"
  "c_rip (drop_words n c) = c_rip c" "c_rflags (drop_words n c) = c_rflags c" "c_stack (drop_words n c) = c_stack c"
  "c_gdtr (drop_words n c) = c_gdtr c" "c_idtr (drop_words n c) = c_idtr c" "c_tr (drop_words n c) = c_tr c"
  by (simp_all add: drop_words_def)

lemma at_rsp_push [simp]: "at_rsp 0 (push w c) = w"
  by (simp add: at_rsp_def push_def)

lemma set_gpr_twice [simp]: "set_gpr r v (set_gpr r w c) = set_gpr r v c"
  by (simp add: set_gpr_def)

lemma pushed_0 [simp]: "pushed 0 c c"
  by (auto simp: pushed_def set_gpr_def intro: exI [of _ "c_stack c"])

lemma pushed_push:
  assumes "pushed n c d" and "8 * n + 8 \<le> 18446744073709551616"
  shows "pushed (Suc n) c (push w d)"
proof -
  let ?a = "c_gpr c RSP - 8 * of_nat n"
  obtain m where m: "d = set_gpr RSP ?a (c\<lparr>c_stack := m\<rparr>)" "\<And>x. x \<notin> region ?a (8 * n) \<Longrightarrow> m x = c_stack c x"
    using assms(1) by (auto simp: pushed_def)
  have a: "?a - 8 = c_gpr c RSP - 8 * of_nat (Suc n)" by (simp add: algebra_simps)
  have "push w d = set_gpr RSP (?a - 8) (c\<lparr>c_stack := store64 m (?a - 8) w\<rparr>)"
    by (simp add: push_def m(1) set_gpr_def)
  moreover have "store64 m (?a - 8) w x = c_stack c x" if "x \<notin> region (?a - 8) (8 * Suc n)" for x
  proof -
    have "x \<notin> region (?a - 8) 8" and "x \<notin> region ?a (8 * n)"
      using region_tail [of x "?a - 8" "8 * n"] that assms(2) by auto
    then show ?thesis using m(2) by (simp add: store64_other)
  qed
  ultimately show ?thesis unfolding pushed_def a by blast
qed

lemma pushed_all: "8 * length vs \<le> 18446744073709551616 \<Longrightarrow> pushed (length vs) c (fold push vs c)"
proof (induction vs rule: rev_induct)
  case (snoc v vs)
  then show ?case using pushed_push [of "length vs" c "fold push vs c" v] by simp
qed simp

lemma exec_push_all:
  "RSP \<notin> set rs \<Longrightarrow> exec call e (map Push rs) (c, s) = Ok (fold push (map (c_gpr c) rs) c, s)"
proof (induction rs arbitrary: c)
  case (Cons r rs)
  moreover from Cons.prems have "map (c_gpr (push (c_gpr c r) c)) rs = map (c_gpr c) rs" by auto
  ultimately show ?case by simp
qed simp

lemma exec_pop_all:
  assumes "stacked (vs @ ws) c" and "length rs = length vs" and "distinct rs" and "RSP \<notin> set rs"
  obtains g where "exec call e (map Pop rs) (c, s) = Ok (c\<lparr>c_gpr := g\<rparr>, s)" and "map g rs = vs"
    and "g RSP = c_gpr c RSP + 8 * of_nat (length vs)" and "\<And>r. r \<notin> set rs \<Longrightarrow> r \<noteq> RSP \<Longrightarrow> g r = c_gpr c r"
proof -
  have "\<exists>g. exec call e (map Pop rs) (c, s) = Ok (c\<lparr>c_gpr := g\<rparr>, s) \<and> map g rs = vs
      \<and> g RSP = c_gpr c RSP + 8 * of_nat (length vs) \<and> (\<forall>r. r \<notin> set rs \<and> r \<noteq> RSP \<longrightarrow> g r = c_gpr c r)"
    using assms
  proof (induction rs arbitrary: vs c)
    case Nil
    then show ?case by (auto intro: exI [of _ "c_gpr c"])
  next
    case (Cons r rs)
    then obtain v us where vs: "vs = v # us" by (cases vs) auto
    let ?d = "set_gpr r v (drop_words 1 c)"
    have rsp: "r \<noteq> RSP" and v: "at_rsp 0 c = v" and us: "stacked (us @ ws) ?d"
      using Cons.prems by (auto simp: vs stacked_def at_rsp_def drop_words_def)
    obtain g where g: "exec call e (map Pop rs) (?d, s) = Ok (?d\<lparr>c_gpr := g\<rparr>, s)" "map g rs = us"
      "g RSP = c_gpr ?d RSP + 8 * of_nat (length us)" "\<forall>q. q \<notin> set rs \<and> q \<noteq> RSP \<longrightarrow> g q = c_gpr ?d q"
      using Cons.IH [OF us] Cons.prems vs by auto
    have "?d\<lparr>c_gpr := g\<rparr> = c\<lparr>c_gpr := g\<rparr>" by (simp add: set_gpr_def drop_words_def)
    moreover have "g r = v" using g(4) Cons.prems(3) rsp by simp
    ultimately show ?case
      using g rsp v by (intro exI [of _ g]) (auto simp: vs drop_words_def algebra_simps)
  qed
  then show thesis using that by blast
qed

section \<open>Frames\<close>

lemma length_frame_words [simp]: "length (frame_words f) = 22"
  by (simp add: frame_words_def)

lemma words_frame_words [simp]: "words_frame (frame_words f) = f"
  by (simp add: words_frame_def frame_words_def)

lemma load_frame_on_stack: "on_stack m p (frame_words f) \<Longrightarrow> load_frame m p = f"
  by (simp add: load_frame_def on_stack_def)

lemma store_frame_on_stack: "on_stack (store_frame m p f) p (frame_words f)"
  unfolding store_frame_def by (rule on_stack_store_words) simp

lemma store_frame_other: "x \<notin> region p 176 \<Longrightarrow> store_frame m p f x = m x"
  unfolding store_frame_def by (rule store_words_other) simp_all

end
