(* ===== verification/Assembly.thy ===== *)
theory Assembly
  imports Cpu Kernel
begin

text \<open>
  The interrupt stubs, instruction by instruction
  (\<open>interrupts/idt_asm.asm\<close>). They build the C struct \<open>interrupt_frame_t\<close> on the
  stack and refine the passage of frames as values in \<open>Kernel\<close>.
\<close>

section \<open>The interrupt stubs\<close>

datatype c_fun = Isr_handler_c | Irq_handler_c

definition SAVE_CPU :: "c_fun instr list" where
  "SAVE_CPU = map Push [RAX, RBX, RCX, RDX, RSI, RDI, RBP, R8, R9, R10, R11, R12, R13, R14, R15]"

definition RESTORE_CPU :: "c_fun instr list" where
  "RESTORE_CPU = map Pop [R15, R14, R13, R12, R11, R10, R9, R8, RBP, RDI, RSI, RDX, RCX, RBX, RAX]"

definition isr_common_stub :: "c_fun instr list" where
  "isr_common_stub = SAVE_CPU @ [Cld, Mov RDI RSP, Call Isr_handler_c] @ RESTORE_CPU @ [Add_imm RSP 16, Iretq]"

definition irq_common_stub :: "c_fun instr list" where
  "irq_common_stub = SAVE_CPU @ [Mov RDI RSP, Call Irq_handler_c] @ RESTORE_CPU @ [Add_imm RSP 16, Iretq]"

text \<open>The stubs that the macros \<open>ISR_NOERR\<close>, \<open>ISR_ERR\<close> and \<open>IRQ\<close> expand to.\<close>

definition isr_code :: "u64 \<Rightarrow> c_fun instr list" where
  "isr_code n = (if pushes_error n then [] else [Push_imm 0]) @ [Push_imm n] @ isr_common_stub"

definition irq_code :: "u64 \<Rightarrow> c_fun instr list" where
  "irq_code n = [Push_imm 0, Push_imm (32 + n)] @ irq_common_stub"

fun asm_call :: "board \<Rightarrow> c_fun \<Rightarrow> interrupt_frame \<Rightarrow> 'a sys_scheme \<Rightarrow> (interrupt_frame \<times> 'a sys_scheme) outcome" where
  "asm_call b Isr_handler_c = isr_handler (call_handler b) (slot_upper b) (cr2 b)"
| "asm_call b Irq_handler_c = irq_handler (call_handler b)"

section \<open>The frame on the stack\<close>

text \<open>The registers of a CPU as a frame.\<close>

definition cpu_frame :: "u64 \<Rightarrow> u64 \<Rightarrow> cpu \<Rightarrow> interrupt_frame" where
  "cpu_frame n err c = words_frame (map (c_gpr c) [R15, R14, R13, R12, R11, R10, R9, R8, RBP, RDI, RSI, RDX, RCX, RBX, RAX]
     @ [n, err, c_rip c, ucast (c_seg c CS), c_rflags c, c_gpr c RSP, ucast (c_seg c SS)])"

fun fr_gpr :: "interrupt_frame \<Rightarrow> reg \<Rightarrow> u64" where
  "fr_gpr f RAX = fr_rax f"
| "fr_gpr f RBX = fr_rbx f"
| "fr_gpr f RCX = fr_rcx f"
| "fr_gpr f RDX = fr_rdx f"
| "fr_gpr f RSI = fr_rsi f"
| "fr_gpr f RDI = fr_rdi f"
| "fr_gpr f RBP = fr_rbp f"
| "fr_gpr f RSP = fr_rsp f"
| "fr_gpr f R8 = fr_r8 f"
| "fr_gpr f R9 = fr_r9 f"
| "fr_gpr f R10 = fr_r10 f"
| "fr_gpr f R11 = fr_r11 f"
| "fr_gpr f R12 = fr_r12 f"
| "fr_gpr f R13 = fr_r13 f"
| "fr_gpr f R14 = fr_r14 f"
| "fr_gpr f R15 = fr_r15 f"

text \<open>The CPU after a return with the registers of a frame and stack memory \<open>m\<close>.\<close>

definition resumed :: "interrupt_frame \<Rightarrow> memory \<Rightarrow> cpu \<Rightarrow> cpu" where
  "resumed f m c = c\<lparr>c_gpr := fr_gpr f, c_seg := (c_seg c)(CS := ucast (fr_cs f), SS := ucast (fr_ss f)),
     c_rip := fr_rip f, c_rflags := fr_rflags f, c_stack := m\<rparr>"

text \<open>The stack pointer on entry of an interrupt.\<close>

definition entry_rsp :: "u64 \<Rightarrow> cpu \<Rightarrow> u64" where
  "entry_rsp kstack c = (if c_seg c CS AND 3 \<noteq> 0 then kstack else c_gpr c RSP) AND NOT 15"

definition entered :: "u64 \<Rightarrow> u64 \<Rightarrow> cpu \<Rightarrow> cpu" where
  "entered kstack stub c = c\<lparr>c_gpr := (c_gpr c)(RSP := entry_rsp kstack c),
     c_seg := (if c_seg c CS AND 3 \<noteq> 0 then (c_seg c)(SS := 0) else c_seg c)(CS := 0x08),
     c_rip := stub, c_rflags := c_rflags c AND NOT 0x14300\<rparr>"

lemma push_update [simp]:
  "push w (c\<lparr>c_rip := a\<rparr>) = (push w c)\<lparr>c_rip := a\<rparr>" "push w (c\<lparr>c_rflags := f\<rparr>) = (push w c)\<lparr>c_rflags := f\<rparr>"
  "push w (c\<lparr>c_seg := g\<rparr>) = (push w c)\<lparr>c_seg := g\<rparr>"
  by (simp_all add: push_def set_gpr_def)

lemma int_entry_eq:
  "int_entry kstack err stub (c, s) = (fold push ([ucast (c_seg c SS), c_gpr c RSP, c_rflags c, ucast (c_seg c CS), c_rip c]
     @ (case err of None \<Rightarrow> [] | Some w \<Rightarrow> [w])) (entered kstack stub c), cli s)"
proof -
  have "entered kstack stub c = (set_gpr RSP (entry_rsp kstack c) c)\<lparr>c_seg := (if c_seg c CS AND 3 \<noteq> 0 then (c_seg c)(SS := 0)
      else c_seg c)(CS := 0x08), c_rip := stub, c_rflags := c_rflags c AND NOT 0x14300\<rparr>"
    by (simp add: entered_def set_gpr_def)
  then show ?thesis by (simp add: int_entry_def entry_rsp_def set_seg_def split: option.splits)
qed

text \<open>The CPU when a stub has saved all registers.\<close>

definition saved :: "u64 \<Rightarrow> u64 \<Rightarrow> u64 \<Rightarrow> u64 \<Rightarrow> cpu \<Rightarrow> cpu" where
  "saved kstack stub n err c = fold push (rev (frame_words (cpu_frame n err c))) (entered kstack stub c)"

lemma fold_push_gpr: "r \<noteq> RSP \<Longrightarrow> c_gpr (fold push vs c) r = c_gpr c r"
  by (induction vs arbitrary: c) auto

lemma frame_pushes:
  "rev (frame_words (cpu_frame n err c))
    = [ucast (c_seg c SS), c_gpr c RSP, c_rflags c, ucast (c_seg c CS), c_rip c, err, n]
      @ map (c_gpr c) [RAX, RBX, RCX, RDX, RSI, RDI, RBP, R8, R9, R10, R11, R12, R13, R14, R15]"
  by (simp add: cpu_frame_def words_frame_def frame_words_def)

lemma save_cpu:
  "exec call e SAVE_CPU (push n (push err (push (c_rip c) (push (ucast (c_seg c CS)) (push (c_rflags c)
     (push (c_gpr c RSP) (push (ucast (c_seg c SS)) (entered kstack stub c))))))), s) = Ok (saved kstack stub n err c, s)"
proof -
  let ?rs = "[RAX, RBX, RCX, RDX, RSI, RDI, RBP, R8, R9, R10, R11, R12, R13, R14, R15]"
  let ?d = "fold push [ucast (c_seg c SS), c_gpr c RSP, c_rflags c, ucast (c_seg c CS), c_rip c, err, n]
    (entered kstack stub c)"
  have "map (c_gpr ?d) ?rs = map (c_gpr c) ?rs"
    using fold_push_gpr [of _ _ "entered kstack stub c"] by (intro map_cong) (auto simp: entered_def)
  then have "exec call e SAVE_CPU (?d, s) = Ok (saved kstack stub n err c, s)"
    unfolding SAVE_CPU_def saved_def frame_pushes fold_append o_apply by (subst exec_push_all) simp_all
  then show ?thesis by simp
qed

text \<open>The stubs without a dummy error code are those of the exceptions that bring one.\<close>

lemma error_stubs: "pushes_error n = cpu_error_code n"
proof -
  have "10 \<le> n \<and> n \<le> 14 \<longleftrightarrow> n \<in> {10, 11, 12, 13, 14}"
  proof
    assume "10 \<le> n \<and> n \<le> 14"
    then have "10 \<le> unat n" "unat n \<le> 14" by (simp_all add: word_le_nat_alt)
    then have "unat n \<in> {10, 11, 12, 13, 14}" by (simp add: numeral_eq_Suc) linarith
    then show "n \<in> {10, 11, 12, 13, 14}" by (auto simp: word_unat_eq_iff)
  qed auto
  then show ?thesis unfolding pushes_error_def cpu_error_code_def by auto
qed

lemma isr_prologue:
  "exec call e ((if pushes_error n then [] else [Push_imm 0]) @ [Push_imm n] @ SAVE_CPU)
     (int_entry kstack (if cpu_error_code n then Some err else None) stub (c, s))
   = Ok (saved kstack stub n (if cpu_error_code n then err else 0) c, cli s)"
  by (simp add: exec_append int_entry_eq save_cpu error_stubs)

lemma irq_prologue:
  "exec call e ([Push_imm 0, Push_imm (32 + n)] @ SAVE_CPU) (int_entry kstack None stub (c, s))
   = Ok (saved kstack stub (32 + n) 0 c, cli s)"
  by (simp add: exec_append int_entry_eq save_cpu)

lemma saved_state:
  shows "stacked (frame_words (cpu_frame n err c)) (saved kstack stub n err c)"
    and "pushed 22 (entered kstack stub c) (saved kstack stub n err c)"
    and "c_gpr (saved kstack stub n err c) RSP = entry_rsp kstack c - 176"
proof -
  let ?ws = "frame_words (cpu_frame n err c)"
  show "stacked ?ws (saved kstack stub n err c)"
    using push_all_stacked [of "[]" "entered kstack stub c" "rev ?ws"] by (simp add: saved_def stacked_def)
  show p: "pushed 22 (entered kstack stub c) (saved kstack stub n err c)"
    using pushed_all [of "rev ?ws" "entered kstack stub c"] by (simp add: saved_def)
  then show "c_gpr (saved kstack stub n err c) RSP = entry_rsp kstack c - 176"
    by (auto simp: pushed_def entered_def)
qed

section \<open>The way back\<close>

lemma restore:
  assumes "stacked (frame_words f) c"
  shows "exec call e (RESTORE_CPU @ [Add_imm RSP 16, Iretq]) (c, s)
    = Ok (resumed f (c_stack c) c, s\<lparr>if_flag := bit (fr_rflags f) 9\<rparr>)"
proof -
  let ?rs = "[R15, R14, R13, R12, R11, R10, R9, R8, RBP, RDI, RSI, RDX, RCX, RBX, RAX]"
  let ?vs = "take 15 (frame_words f)" and ?ws = "drop 15 (frame_words f)"
  have st: "stacked (?vs @ ?ws) c" using assms by simp
  have len: "length ?rs = length ?vs" and "distinct ?rs" and "RSP \<notin> set ?rs" by simp_all
  then obtain g where g: "exec call e (map Pop ?rs) (c, s) = Ok (c\<lparr>c_gpr := g\<rparr>, s)" "map g ?rs = ?vs"
    "g RSP = c_gpr c RSP + 8 * of_nat (length ?vs)"
    by (rule exec_pop_all [OF st]) (rule that)
  have regs: "g(RSP := fr_rsp f) = fr_gpr f"
  proof
    fix r show "(g(RSP := fr_rsp f)) r = fr_gpr f r" using g(2) by (cases r) (simp_all add: frame_words_def)
  qed
  have top: "load64 (c_stack c) (c_gpr c RSP + 8 * of_nat i) = frame_words f ! i" if "i < 22" for i
    using on_stack_nth [OF assms [unfolded stacked_def]] that by simp
  have at: "at_rsp i (set_gpr RSP (g RSP + 16) (c\<lparr>c_gpr := g\<rparr>)) = frame_words f ! (17 + i)" if "i < 5" for i
    using top [of "17 + i"] that g(3) by (simp add: at_rsp_def algebra_simps)
  have w: "frame_words f ! 17 = fr_rip f" "frame_words f ! 18 = fr_cs f" "frame_words f ! 19 = fr_rflags f"
    "frame_words f ! 20 = fr_rsp f" "frame_words f ! 21 = fr_ss f"
    by (simp_all add: frame_words_def)
  have "set_seg CS cs (set_seg SS ss (set_gpr RSP (fr_rsp f) ((set_gpr RSP (g RSP + 16) (c\<lparr>c_gpr := g\<rparr>))
      \<lparr>c_rip := i, c_rflags := l\<rparr>))) = c\<lparr>c_gpr := g(RSP := fr_rsp f), c_seg := (c_seg c)(CS := cs, SS := ss),
      c_rip := i, c_rflags := l\<rparr>" for cs ss i l
    by (simp add: set_seg_def set_gpr_def fun_upd_twist)
  then show ?thesis
    unfolding RESTORE_CPU_def exec_append g(1)
    by (simp add: at w regs resumed_def)
qed

text \<open>The bytes of stack that an interrupt may change.\<close>

definition stack_use :: "u64 \<Rightarrow> c_env \<Rightarrow> cpu \<Rightarrow> u64 set" where
  "stack_use kstack e c = region (entry_rsp kstack c - of_nat (depth e + 176)) (depth e + 176)"

lemma handler_returns:
  assumes "d = (saved kstack stub n err c)\<lparr>c_rflags := l\<rparr>"
  obtains m where "exec call e (RESTORE_CPU @ [Add_imm RSP 16, Iretq]) (c_return e (set_gpr RDI (c_gpr d RSP) d) f, s)
      = Ok (resumed f m c, s\<lparr>if_flag := bit (fr_rflags f) 9\<rparr>)"
    and "\<And>x. x \<notin> stack_use kstack e c \<Longrightarrow> m x = c_stack c x"
proof -
  let ?d = "c_return e (set_gpr RDI (c_gpr d RSP) d) f" and ?a = "entry_rsp kstack c - 176"
  obtain m0 where m0: "saved kstack stub n err c = set_gpr RSP ?a ((entered kstack stub c)\<lparr>c_stack := m0\<rparr>)"
    "\<And>x. x \<notin> region ?a 176 \<Longrightarrow> m0 x = c_stack c x"
    using saved_state(2) [of kstack stub c n err] by (auto simp: pushed_def entered_def)
  have stack: "c_stack ?d = store_frame (scribble e ?a m0) ?a f" and rsp: "c_gpr ?d RSP = ?a"
    by (simp_all add: c_return_def callee_saved_def assms m0(1))
  have "stacked (frame_words f) ?d" unfolding stacked_def stack rsp by (rule store_frame_on_stack)
  note run = restore [OF this, of call e s]
  have "resumed f (c_stack ?d) ?d = resumed f (c_stack ?d) c"
    by (simp add: resumed_def c_return_def assms m0(1) set_gpr_def entered_def fun_upd_twist fun_upd_idem)
  moreover have "c_stack ?d x = c_stack c x" if "x \<notin> stack_use kstack e c" for x
  proof -
    have "x \<notin> region (?a - of_nat (depth e)) (depth e + 176)"
      using that by (simp add: stack_use_def algebra_simps)
    from region_split [OF this] have "x \<notin> region (?a - of_nat (depth e)) (depth e)" "x \<notin> region ?a 176" by simp_all
    then show ?thesis by (simp add: stack store_frame_other scribble_def m0(2))
  qed
  ultimately show thesis using run by (intro that [of "c_stack ?d"]) simp_all
qed

section \<open>The whole path of an interrupt\<close>

definition isr_path :: "board \<Rightarrow> c_env \<Rightarrow> u64 \<Rightarrow> u64 \<Rightarrow> u64 \<Rightarrow> cpu \<times> 'a sys_scheme \<Rightarrow> (cpu \<times> 'a sys_scheme) outcome" where
  "isr_path b e kstack n err r = exec (asm_call b) e (isr_code n)
     (int_entry kstack (if cpu_error_code n then Some err else None) (if n = 128 then isr128_stub b else isr_stub b (unat n)) r)"

definition irq_path :: "board \<Rightarrow> c_env \<Rightarrow> u64 \<Rightarrow> u64 \<Rightarrow> cpu \<times> 'a sys_scheme \<Rightarrow> (cpu \<times> 'a sys_scheme) outcome" where
  "irq_path b e kstack n r = exec (asm_call b) e (irq_code n) (int_entry kstack None (irq_stub b (unat n)) r)"

text \<open>
  \<open>tracks kstack e c x y\<close>: the run \<open>y\<close> of CPU \<open>c\<close> ends as the run \<open>x\<close> on frames does, and if
  it returns, it returns with the registers of the frame and leaves the stack above alone.
\<close>

fun tracks :: "u64 \<Rightarrow> c_env \<Rightarrow> cpu \<Rightarrow> (interrupt_frame \<times> 's) outcome \<Rightarrow> (cpu \<times> 's) outcome \<Rightarrow> bool" where
  "tracks kstack e c (Ok (f, t)) y \<longleftrightarrow>
     (\<exists>m. y = Ok (resumed f m c, t) \<and> (\<forall>x. x \<notin> stack_use kstack e c \<longrightarrow> m x = c_stack c x))"
| "tracks kstack e c (Halt (f, t)) y \<longleftrightarrow> (\<exists>d. y = Halt (d, t))"
| "tracks kstack e c (Nested (f, t)) y \<longleftrightarrow> (\<exists>d. y = Nested (d, t))"
| "tracks kstack e c (UB u) y \<longleftrightarrow> y = UB u"

lemma handler_tracks:
  fixes s :: "'a sys_scheme"
  assumes "d = (saved kstack stub n err c)\<lparr>c_rflags := l\<rparr>"
  shows "tracks kstack e c (bind_ok (call f (cpu_frame n err c) s) iretq)
    (exec call e ([Mov RDI RSP, Call f] @ RESTORE_CPU @ [Add_imm RSP 16, Iretq]) (d, s))"
proof -
  have "load_frame (c_stack d) (c_gpr d RSP) = cpu_frame n err c"
    using load_frame_on_stack saved_state(1) [of n err c kstack stub] by (simp add: stacked_def assms)
  then have run: "exec call e ([Mov RDI RSP, Call f] @ RESTORE_CPU @ [Add_imm RSP 16, Iretq]) (d, s)
      = bind_ok (map_outcome (\<lambda>(fr, t). (c_return e (set_gpr RDI (c_gpr d RSP) d) fr, t)) (call f (cpu_frame n err c) s))
          (exec call e (RESTORE_CPU @ [Add_imm RSP 16, Iretq]))"
    by simp
  show ?thesis
  proof (cases "call f (cpu_frame n err c) s")
    case (Ok r)
    obtain fr t where r: "r = (fr, t)" by (cases r)
    obtain m where "exec call e (RESTORE_CPU @ [Add_imm RSP 16, Iretq]) (c_return e (set_gpr RDI (c_gpr d RSP) d) fr, t)
        = Ok (resumed fr m c, t\<lparr>if_flag := bit (fr_rflags fr) 9\<rparr>)" "\<And>x. x \<notin> stack_use kstack e c \<Longrightarrow> m x = c_stack c x"
      by (rule handler_returns [OF assms, where call = call and e = e and f = fr and s = t]) (rule that)
    then show ?thesis unfolding run by (auto simp: Ok r iretq_def)
  next
    case (Halt r)
    then show ?thesis unfolding run by (cases r) simp
  next
    case (Nested r)
    then show ?thesis unfolding run by (cases r) simp
  next
    case (UB u)
    then show ?thesis unfolding run by simp
  qed
qed

lemma cpu_frame_numbers [simp]:
  "(cpu_frame n err c)\<lparr>fr_int_no := k, fr_err_code := w\<rparr> = cpu_frame k w c" "fr_err_code (cpu_frame n err c) = err"
  by (simp_all add: cpu_frame_def words_frame_def)

lemma isr_path_tracks:
  fixes s :: "'a sys_scheme"
  shows "tracks kstack e c (isr_stub_run b n (cpu_frame n err c) s) (isr_path b e kstack n err (c, s))"
proof -
  let ?stub = "if n = 128 then isr128_stub b else isr_stub b (unat n)" and ?err = "if cpu_error_code n then err else 0"
  let ?ending = "[Mov RDI RSP, Call Isr_handler_c] @ RESTORE_CPU @ [Add_imm RSP 16, Iretq]"
  let ?d = "(saved kstack ?stub n ?err c)\<lparr>c_rflags := c_rflags (saved kstack ?stub n ?err c) AND NOT 0x400\<rparr>"
  have code: "isr_code n = ((if pushes_error n then [] else [Push_imm 0]) @ [Push_imm n] @ SAVE_CPU) @ [Cld] @ ?ending"
    by (simp add: isr_code_def isr_common_stub_def)
  have "isr_path b e kstack n err (c, s) = exec (asm_call b) e ?ending (?d, cli s)"
    unfolding isr_path_def code by (subst exec_append, subst isr_prologue) simp
  moreover have "isr_stub_run b n (cpu_frame n err c) s
      = bind_ok (asm_call b Isr_handler_c (cpu_frame n ?err c) (cli s)) iretq"
    by (simp add: isr_stub_run_def error_stubs)
  ultimately show ?thesis using handler_tracks [OF refl, of kstack e c "asm_call b" Isr_handler_c n ?err "cli s"] by simp
qed

lemma irq_path_tracks:
  fixes s :: "'a sys_scheme"
  shows "tracks kstack e c (irq_stub_run b n (cpu_frame (32 + n) 0 c) s) (irq_path b e kstack n (c, s))"
proof -
  let ?d = "saved kstack (irq_stub b (unat n)) (32 + n) 0 c"
  let ?ending = "[Mov RDI RSP, Call Irq_handler_c] @ RESTORE_CPU @ [Add_imm RSP 16, Iretq]"
  have code: "irq_code n = ([Push_imm 0, Push_imm (32 + n)] @ SAVE_CPU) @ ?ending"
    by (simp add: irq_code_def irq_common_stub_def)
  have "irq_path b e kstack n (c, s) = exec (asm_call b) e ?ending (?d, cli s)"
    unfolding irq_path_def code by (subst exec_append, subst irq_prologue) simp
  moreover have "irq_stub_run b n (cpu_frame (32 + n) 0 c) s
      = bind_ok (asm_call b Irq_handler_c (cpu_frame (32 + n) 0 c) (cli s)) iretq"
    by (simp add: irq_stub_run_def)
  moreover have "tracks kstack e c (bind_ok (asm_call b Irq_handler_c (cpu_frame (32 + n) 0 c) (cli s)) iretq)
      (exec (asm_call b) e ?ending (?d, cli s))"
    by (rule handler_tracks [where stub = "irq_stub b (unat n)" and l = "c_rflags ?d"]) simp
  ultimately show ?thesis by simp
qed

section \<open>Alignment and flags\<close>

lemma aligned_down: "((x :: u64) AND NOT 15) - 176 AND 15 = 0"
proof -
  have mask: "(15 :: u64) = mask 4" by (simp add: mask_eq_exp_minus_1)
  have "x AND NOT 15 = push_bit 4 (drop_bit 4 x)"
    unfolding mask by (rule bit_word_eqI) (auto simp: bit_simps)
  then have "(x AND NOT 15) - 176 = push_bit 4 (drop_bit 4 x - 11)" by (simp add: push_bit_eq_mult algebra_simps)
  then show ?thesis unfolding mask by (simp only:) (rule bit_word_eqI, auto simp: bit_simps)
qed

lemma fold_push_rflags: "c_rflags (fold push vs c) = c_rflags c"
  by (induction vs arbitrary: c) auto

lemma saved_rflags: "c_rflags (saved kstack stub n err c) = c_rflags c AND NOT 0x14300"
  by (simp add: saved_def fold_push_rflags entered_def)

lemma saved_pointer:
  assumes "d = set_gpr RDI (c_gpr (saved kstack stub n err c) RSP) ((saved kstack stub n err c)\<lparr>c_rflags := l\<rparr>)"
  shows "c_gpr d RDI = c_gpr d RSP" and "load_frame (c_stack d) (c_gpr d RDI) = cpu_frame n err c"
    and "c_gpr d RSP AND 15 = 0"
proof -
  show "c_gpr d RDI = c_gpr d RSP" by (simp add: assms)
  show "load_frame (c_stack d) (c_gpr d RDI) = cpu_frame n err c"
    using saved_state(1) [of n err c kstack stub] by (simp add: assms stacked_def load_frame_on_stack)
  have "c_gpr d RSP = entry_rsp kstack c - 176" by (simp add: assms saved_state(3))
  then show "c_gpr d RSP AND 15 = 0" unfolding entry_rsp_def by (simp only: aligned_down)
qed

section \<open>Properties\<close>

text \<open>
  C10: the stubs hand the C handlers what they declare to take: when a stub calls its handler,
  \<open>rdi\<close> points to an \<open>interrupt_frame_t\<close> whose fields, in the order of the struct, are the
  registers of the interrupted code, the vector and the error code (0 where the CPU pushes
  none), and the stack is aligned to 16 bytes as the calling convention demands. The direction
  flag is clear for exceptions and system calls, but as the interrupted code had it for hardware
  interrupts.
\<close>

theorem interrupt_frame_layout:
  "(\<exists>pre post d. isr_code n = pre @ Call Isr_handler_c # post
     \<and> exec call e pre (int_entry kstack (if cpu_error_code n then Some err else None) stub (c, s)) = Ok (d, cli s)
     \<and> c_gpr d RDI = c_gpr d RSP
     \<and> load_frame (c_stack d) (c_gpr d RDI) = cpu_frame n (if cpu_error_code n then err else 0) c
     \<and> c_gpr d RSP AND 15 = 0 \<and> \<not> bit (c_rflags d) 10)
   \<and> (\<exists>pre post d. irq_code k = pre @ Call Irq_handler_c # post
     \<and> exec call e pre (int_entry kstack None stub (c, s)) = Ok (d, cli s)
     \<and> c_gpr d RDI = c_gpr d RSP \<and> load_frame (c_stack d) (c_gpr d RDI) = cpu_frame (32 + k) 0 c
     \<and> c_gpr d RSP AND 15 = 0 \<and> bit (c_rflags d) 10 = bit (c_rflags c) 10)"
proof (rule conjI)
  let ?pre = "((if pushes_error n then [] else [Push_imm 0]) @ [Push_imm n] @ SAVE_CPU) @ [Cld, Mov RDI RSP]"
  let ?err = "if cpu_error_code n then err else 0"
  let ?l = "c_rflags (saved kstack stub n ?err c) AND NOT 0x400"
  let ?d = "set_gpr RDI (c_gpr (saved kstack stub n ?err c) RSP) ((saved kstack stub n ?err c)\<lparr>c_rflags := ?l\<rparr>)"
  have code: "isr_code n = ?pre @ Call Isr_handler_c # (RESTORE_CPU @ [Add_imm RSP 16, Iretq])"
    by (simp add: isr_code_def isr_common_stub_def)
  have run: "exec call e ?pre (int_entry kstack (if cpu_error_code n then Some err else None) stub (c, s)) = Ok (?d, cli s)"
    by (subst exec_append, subst isr_prologue) simp
  have df: "\<not> bit (c_rflags ?d) 10" by (simp add: bit_simps)
  show "\<exists>pre post d. isr_code n = pre @ Call Isr_handler_c # post
     \<and> exec call e pre (int_entry kstack (if cpu_error_code n then Some err else None) stub (c, s)) = Ok (d, cli s)
     \<and> c_gpr d RDI = c_gpr d RSP
     \<and> load_frame (c_stack d) (c_gpr d RDI) = cpu_frame n (if cpu_error_code n then err else 0) c
     \<and> c_gpr d RSP AND 15 = 0 \<and> \<not> bit (c_rflags d) 10"
    using code run saved_pointer [OF refl, of kstack stub n ?err c ?l] df by blast
next
  let ?pre = "([Push_imm 0, Push_imm (32 + k)] @ SAVE_CPU) @ [Mov RDI RSP]"
  let ?l = "c_rflags (saved kstack stub (32 + k) 0 c)"
  let ?d = "set_gpr RDI (c_gpr (saved kstack stub (32 + k) 0 c) RSP) ((saved kstack stub (32 + k) 0 c)\<lparr>c_rflags := ?l\<rparr>)"
  have code: "irq_code k = ?pre @ Call Irq_handler_c # (RESTORE_CPU @ [Add_imm RSP 16, Iretq])"
    by (simp add: irq_code_def irq_common_stub_def)
  have run: "exec call e ?pre (int_entry kstack None stub (c, s)) = Ok (?d, cli s)"
    by (subst exec_append, subst irq_prologue) simp
  have df: "bit (c_rflags ?d) 10 = bit (c_rflags c) 10" by (simp add: saved_rflags bit_simps)
  show "\<exists>pre post d. irq_code k = pre @ Call Irq_handler_c # post
     \<and> exec call e pre (int_entry kstack None stub (c, s)) = Ok (d, cli s)
     \<and> c_gpr d RDI = c_gpr d RSP \<and> load_frame (c_stack d) (c_gpr d RDI) = cpu_frame (32 + k) 0 c
     \<and> c_gpr d RSP AND 15 = 0 \<and> bit (c_rflags d) 10 = bit (c_rflags c) 10"
    using code run saved_pointer [OF refl, of kstack stub "32 + k" 0 c ?l] df by blast
qed

text \<open>
  C8: the interrupt path of the machine, from the CPU's entry through the instructions of the
  stub, the C dispatcher on the frame in memory, and back with \<open>iretq\<close>, refines the path on
  frames as values: it ends the same way with the same kernel state, and when it returns, the
  CPU has exactly the registers of the frame the handler left. Stack memory other than the
  frame and the handler's own stack use is as it was.
\<close>

theorem interrupt_stubs_refine:
  fixes s :: "'a sys_scheme"
  shows "tracks kstack e c (isr_stub_run b n (cpu_frame n err c) s) (isr_path b e kstack n err (c, s))
    \<and> tracks kstack e c (irq_stub_run b k (cpu_frame (32 + k) 0 c) s) (irq_path b e kstack k (c, s))"
  using isr_path_tracks irq_path_tracks by blast

end
