(* ===== verification/Descriptor_Load.thy ===== *)
theory Descriptor_Load
  imports Assembly Kernel_Boot
begin

text \<open>
  Loading the descriptor tables: \<open>load_gdt\<close> and \<open>load_tss\<close> of \<open>gdt/gdt_asm.asm\<close> and \<open>idt_flush\<close> of
  \<open>interrupts/idt_asm.asm\<close>. After \<open>load_gdt\<close> the CPU runs on the segments of the new table.
\<close>

section \<open>Loading the descriptor tables\<close>

text \<open>\<open>load_gdt\<close> up to its far return, whose target is the label \<open>.reload_cs\<close>, and the code there.\<close>

definition load_gdt_code :: "u64 \<Rightarrow> c_fun instr list" where
  "load_gdt_code reload_cs = [Lgdt RDI, Mov_seg DS RDX, Mov_seg ES RDX, Mov_seg FS RDX, Mov_seg GS RDX, Mov_seg SS RDX,
     Push RSI, Lea RAX reload_cs, Push RAX, Retfq]"

definition reload_cs_code :: "c_fun instr list" where
  "reload_cs_code = [Ret]"

definition load_tss_code :: "c_fun instr list" where
  "load_tss_code = [Ltr RDI, Ret]"

definition idt_flush_code :: "c_fun instr list" where
  "idt_flush_code = [Lidt RDI, Ret]"

lemma load_gdt_exec:
  assumes "stacked [ret] c"
  obtains c1 c2 where "exec call e (load_gdt_code lab) (c, s) = Ok (c1, s)" and "c_rip c1 = lab"
    and "exec call e reload_cs_code (c1, s) = Ok (c2, s)" and "c_rip c2 = ret"
    and "c_gpr c2 = (c_gpr c)(RAX := lab, RSP := c_gpr c RSP + 8)"
    and "c_gdtr c2 = (load16 (mem s) (c_gpr c RDI), load64 (mem s) (c_gpr c RDI + 2))"
    and "c_seg c2 = (\<lambda>r. if r = CS then ucast (c_gpr c RSI) else ucast (c_gpr c RDX))"
proof -
  let ?ds = "ucast (c_gpr c RDX)"
  let ?c0 = "set_seg SS ?ds (set_seg GS ?ds (set_seg FS ?ds (set_seg ES ?ds (set_seg DS ?ds
    (c\<lparr>c_gdtr := (load16 (mem s) (c_gpr c RDI), load64 (mem s) (c_gpr c RDI + 2))\<rparr>)))))"
  let ?p = "push lab (set_gpr RAX lab (push (c_gpr c RSI) ?c0))"
  let ?c1 = "set_seg CS (ucast (c_gpr c RSI)) ((drop_words 2 ?p)\<lparr>c_rip := lab\<rparr>)"
  let ?c2 = "(drop_words 1 ?c1)\<lparr>c_rip := ret\<rparr>"
  have "stacked [ret] ?c0" using assms by (simp add: stacked_def)
  then have "stacked [c_gpr c RSI, ret] (push (c_gpr c RSI) ?c0)" by (rule push_stacked) simp
  then have "stacked [c_gpr c RSI, ret] (set_gpr RAX lab (push (c_gpr c RSI) ?c0))" by (simp add: stacked_def)
  then have "stacked [lab, c_gpr c RSI, ret] ?p" by (rule push_stacked) simp
  then have at: "at_rsp 1 ?p = c_gpr c RSI" "at_rsp 0 ?c1 = ret" by (simp_all add: stacked_def at_rsp_def)
  show thesis
  proof (rule that)
    show "exec call e (load_gdt_code lab) (c, s) = Ok (?c1, s)" using at(1) by (simp add: load_gdt_code_def)
    show "exec call e reload_cs_code (?c1, s) = Ok (?c2, s)" using at(2) by (simp add: reload_cs_code_def)
    show "c_gpr ?c2 = (c_gpr c)(RAX := lab, RSP := c_gpr c RSP + 8)" by (auto simp: fun_eq_iff)
    show "c_seg ?c2 = (\<lambda>r. if r = CS then ucast (c_gpr c RSI) else ?ds)"
    proof
      fix r show "c_seg ?c2 r = (if r = CS then ucast (c_gpr c RSI) else ?ds)" by (cases r) simp_all
    qed
  qed simp_all
qed

lemma load_register_exec:
  assumes "stacked [ret] c"
  shows "exec call e load_tss_code (c, s) = Ok ((drop_words 1 c)\<lparr>c_tr := ucast (c_gpr c RDI), c_rip := ret\<rparr>, s)"
    and "exec call e idt_flush_code (c, s) = Ok ((drop_words 1 c)
      \<lparr>c_idtr := (load16 (mem s) (c_gpr c RDI), load64 (mem s) (c_gpr c RDI + 2)), c_rip := ret\<rparr>, s)"
  using assms by (simp_all add: load_tss_code_def idt_flush_code_def stacked_def at_rsp_def drop_words_def set_gpr_def)

section \<open>Properties\<close>

text \<open>
  C37: \<open>load_gdt\<close>, called as \<open>init_gdt\<close> calls it, returns to its caller on the kernel's own
  segments: the register GDTR describes the new table, \<open>cs\<close> is the ring 0 code segment and all
  other segment registers are the ring 0 data segment of that table, and no register but
  \<open>rax\<close> has changed.
\<close>

theorem load_gdt_reloads:
  assumes "g = init_gdt (gdt_addr b) (tss_addr b) (kernel_stack_top b)" and "stacked [ret] c"
    and "c_gpr c RSI = 0x08" and "c_gpr c RDX = 0x10"
    and "load16 (mem s) (c_gpr c RDI) = gdtp_limit (gdtp g)" and "load64 (mem s) (c_gpr c RDI + 2) = gdtp_base (gdtp g)"
  shows "\<exists>c1 c2. exec call e (load_gdt_code lab) (c, s) = Ok (c1, s) \<and> c_rip c1 = lab
    \<and> exec call e reload_cs_code (c1, s) = Ok (c2, s) \<and> c_rip c2 = ret
    \<and> c_gpr c2 = (c_gpr c)(RAX := lab, RSP := c_gpr c RSP + 8)
    \<and> c_gdtr c2 = (of_nat (8 * length (gdt g) - 1), gdt_addr b)
    \<and> code_segment 0 (selected g (c_seg c2 CS)) \<and> (\<forall>r. r = CS \<or> data_segment 0 (selected g (c_seg c2 r)))"
proof -
  obtain c1 c2 where run: "exec call e (load_gdt_code lab) (c, s) = Ok (c1, s)" "c_rip c1 = lab"
    "exec call e reload_cs_code (c1, s) = Ok (c2, s)" "c_rip c2 = ret"
    "c_gpr c2 = (c_gpr c)(RAX := lab, RSP := c_gpr c RSP + 8)"
    "c_gdtr c2 = (load16 (mem s) (c_gpr c RDI), load64 (mem s) (c_gpr c RDI + 2))"
    "c_seg c2 = (\<lambda>r. if r = CS then ucast (c_gpr c RSI) else ucast (c_gpr c RDX))"
    by (rule load_gdt_exec [OF assms(2)]) (rule that)
  moreover have "code_segment 0 (selected g 0x08)" "data_segment 0 (selected g 0x10)"
    by (simp_all add: assms(1) selected_def init_gdt_def code_segment_def data_segment_def set_gdt_entry_def)
  moreover have "gdtp_limit (gdtp g) = of_nat (8 * length (gdt g) - 1)" "gdtp_base (gdtp g) = gdt_addr b"
    by (simp_all add: assms(1) init_gdt_def)
  ultimately show ?thesis
    using assms(3-6) by (intro exI [of _ c1] exI [of _ c2]) simp
qed

definition example_cpu :: cpu where
  "example_cpu = \<lparr>c_gpr = (\<lambda>r. if r = RSP then 0x20000 else if r = RSI then 0x08 else if r = RDX then 0x10 else 0),
     c_seg = (\<lambda>_. 0), c_rip = 0x8000, c_rflags = 2, c_stack = (\<lambda>_. 0), c_gdtr = (0, 0), c_idtr = (0, 0), c_tr = 0\<rparr>"

definition example_env :: c_env where
  "example_env = \<lparr>clobber = (\<lambda>_. 7), flags_left = 0, junk = (\<lambda>_. 9), depth = 512\<rparr>"

theorem load_gdt_reloads_witness:
  "\<exists>c1 c2. exec (asm_call example_board) example_env (load_gdt_code 0x9000)
      (example_cpu, example_sys\<lparr>mem := store64 (store16 (\<lambda>_. 0) 0 55) 2 0x104000\<rparr>)
      = Ok (c1, example_sys\<lparr>mem := store64 (store16 (\<lambda>_. 0) 0 55) 2 0x104000\<rparr>)
    \<and> exec (asm_call example_board) example_env reload_cs_code (c1, example_sys\<lparr>mem := store64 (store16 (\<lambda>_. 0) 0 55) 2 0x104000\<rparr>)
      = Ok (c2, example_sys\<lparr>mem := store64 (store16 (\<lambda>_. 0) 0 55) 2 0x104000\<rparr>)
    \<and> c_rip c2 = 0 \<and> c_gdtr c2 = (55, 0x104000)"
proof -
  let ?m = "store64 (store16 (\<lambda>_. 0) 0 55) 2 0x104000" and ?g = "init_gdt (gdt_addr example_board) (tss_addr example_board) (kernel_stack_top example_board)"
  have st: "stacked [0] example_cpu" by (simp add: stacked_def example_cpu_def load64_def load_le_numeral)
  have "load16 ?m 0 = load16 (store16 (\<lambda>_. 0) 0 55) 0"
    by (rule load16_cong, rule store64_other) (auto simp: region_interval)
  then have m: "load16 ?m 0 = gdtp_limit (gdtp ?g)" "load64 ?m 2 = gdtp_base (gdtp ?g)" by (simp_all add: init_gdt_def example_board_def)
  have "length (gdt ?g) = 7" by (simp add: init_gdt_def)
  then show ?thesis
    using load_gdt_reloads [OF refl st, where s = "example_sys\<lparr>mem := ?m\<rparr>" and b = example_board
      and call = "asm_call example_board" and e = example_env and lab = "0x9000"] m
    by (auto simp: example_cpu_def example_board_def)
qed

end
