(* ===== verification/Ring_Switch.thy ===== *)
theory Ring_Switch
  imports Descriptor_Load
begin

text \<open>
  The ring switch of \<open>kernel/switch_ring.asm\<close>: \<open>enter_user_mode\<close> parks the kernel's registers on
  its stack and enters ring 3, the exit system call leads to \<open>resume_kernel\<close>, which returns to
  the caller of \<open>enter_user_mode\<close>.
\<close>

section \<open>The code\<close>

definition enter_user_mode_code :: "c_fun instr list" where
  "enter_user_mode_code = map Push [RBX, RBP, R12, R13, R14, R15]
     @ [Save_rsp, Mov_seg DS RCX, Mov_seg ES RCX, Mov_seg FS RCX, Mov_seg GS RCX,
        Push RCX, Push RSI, Pushfq, Pop RAX, Or_imm RAX 0x200, Push RAX, Push RDX, Push RDI, Iretq]"

definition resume_kernel_code :: "c_fun instr list" where
  "resume_kernel_code = [Mov_imm16 RAX 0x10, Mov_seg DS RAX, Mov_seg ES RAX, Mov_seg GS RAX, Mov_seg FS RAX]
     @ map Pop [R15, R14, R13, R12, RBP, RBX] @ [Ret]"

section \<open>Into user mode\<close>

lemma region_word:
  assumes "x \<notin> region a (8 * n)" and "i < n"
  shows "x \<notin> region (a + 8 * of_nat i) 8"
proof -
  have n: "8 * n = 8 * i + (8 + 8 * (n - Suc i))" using assms(2) by simp
  have "x \<notin> region (a + of_nat (8 * i)) (8 + 8 * (n - Suc i))"
    using assms(1) unfolding n by (rule region_split(2))
  then show ?thesis using region_split(1) [of x "a + of_nat (8 * i)" 8] by simp
qed

lemma stacked_drop: "stacked (w # ws) c \<Longrightarrow> stacked ws (drop_words 1 c)"
  by (simp add: stacked_def drop_words_def)

text \<open>The CPU as it enters user mode, with stack memory \<open>m\<close>.\<close>

definition user_cpu :: "cpu \<Rightarrow> memory \<Rightarrow> cpu" where
  "user_cpu c m = (let ds = ucast (c_gpr c RCX); fl = c_rflags c OR 0x200 in
     c\<lparr>c_gpr := (c_gpr c)(RAX := fl, RSP := c_gpr c RSI),
       c_seg := (c_seg c)(DS := ds, ES := ds, FS := ds, GS := ds, CS := ucast (c_gpr c RDX), SS := ds),
       c_rip := c_gpr c RDI, c_rflags := fl, c_stack := m\<rparr>)"

lemma set_seg_frame [simp]:
  "stacked ws (set_seg r v c) = stacked ws c" "q \<noteq> RSP \<Longrightarrow> stacked ws (set_gpr q w c) = stacked ws c"
  by (simp_all add: stacked_def)

lemma enter_user_mode_exec:
  fixes s :: "'a sys_scheme"
  obtains m where "exec call e enter_user_mode_code (c, s)
      = Ok (user_cpu c m, s\<lparr>saved_kernel_rsp := c_gpr c RSP - 48, if_flag := True\<rparr>)"
    and "on_stack m (c_gpr c RSP - 48) (map (c_gpr c) [R15, R14, R13, R12, RBP, RBX])"
    and "\<And>x. x \<notin> region (c_gpr c RSP - 88) 88 \<Longrightarrow> m x = c_stack c x"
proof -
  let ?fl = "c_rflags c OR 0x200" and ?ds = "ucast (c_gpr c RCX)"
  let ?c1 = "fold push (map (c_gpr c) [RBX, RBP, R12, R13, R14, R15]) c"
  let ?c2 = "set_seg GS ?ds (set_seg FS ?ds (set_seg ES ?ds (set_seg DS ?ds ?c1)))"
  let ?c3 = "push (c_rflags c) (push (c_gpr c RSI) (push (c_gpr c RCX) ?c2))"
  let ?p = "push (c_gpr c RDI) (push (c_gpr c RDX) (push ?fl (set_gpr RAX ?fl (drop_words 1 ?c3))))"
  let ?saved = "[c_gpr c R15, c_gpr c R14, c_gpr c R13, c_gpr c R12, c_gpr c RBP, c_gpr c RBX]"
  have "stacked [] c" by (simp add: stacked_def)
  then have "stacked ?saved ?c1"
    using push_all_stacked [of "[]" c "map (c_gpr c) [RBX, RBP, R12, R13, R14, R15]"] by simp
  then have c3: "stacked ([c_rflags c, c_gpr c RSI, c_gpr c RCX] @ ?saved) ?c3"
    by (simp only: append_Cons append_Nil) (intro push_stacked; simp)
  then have "stacked ([c_gpr c RSI, c_gpr c RCX] @ ?saved) (set_gpr RAX ?fl (drop_words 1 ?c3))"
    using stacked_drop [of "c_rflags c" "[c_gpr c RSI, c_gpr c RCX] @ ?saved" ?c3] by simp
  then have p: "stacked ([c_gpr c RDI, c_gpr c RDX, ?fl, c_gpr c RSI, c_gpr c RCX] @ ?saved) ?p"
    by (simp only: append_Cons append_Nil) (intro push_stacked; simp)
  have code: "enter_user_mode_code = map Push [RBX, RBP, R12, R13, R14, R15]
      @ [Save_rsp, Mov_seg DS RCX, Mov_seg ES RCX, Mov_seg FS RCX, Mov_seg GS RCX, Push RCX, Push RSI, Pushfq, Pop RAX,
        Or_imm RAX 0x200, Push RAX, Push RDX, Push RDI] @ [Iretq]"
    by (simp add: enter_user_mode_code_def)
  have run: "exec call e enter_user_mode_code (c, s) = exec1 call e Iretq (?p, s\<lparr>saved_kernel_rsp := c_gpr c RSP - 48\<rparr>)"
    unfolding code exec_append
    by (subst exec_push_all) (simp_all del: exec1.simps(19))
  have "on_stack (c_stack ?p) (c_gpr ?p RSP) ([c_gpr c RDI, c_gpr c RDX, ?fl, c_gpr c RSI, c_gpr c RCX] @ ?saved)"
    using p by (simp only: stacked_def)
  note words = on_stack_nth [OF this]
  have at: "at_rsp 0 ?p = c_gpr c RDI" "at_rsp 1 ?p = c_gpr c RDX" "at_rsp 2 ?p = ?fl" "at_rsp 3 ?p = c_gpr c RSI"
    "at_rsp 4 ?p = c_gpr c RCX"
    unfolding at_rsp_def by (subst words; simp)+
  have "set_seg CS (ucast (at_rsp 1 ?p)) (set_seg SS (ucast (at_rsp 4 ?p)) (set_gpr RSP (at_rsp 3 ?p)
      (?p\<lparr>c_rip := at_rsp 0 ?p, c_rflags := at_rsp 2 ?p\<rparr>))) = user_cpu c (c_stack ?p)"
    unfolding at by (rule cpu.equality) (auto simp: user_cpu_def Let_def fun_eq_iff)
  then have "exec1 call e Iretq (?p, s\<lparr>saved_kernel_rsp := c_gpr c RSP - 48\<rparr>)
      = Ok (user_cpu c (c_stack ?p), s\<lparr>saved_kernel_rsp := c_gpr c RSP - 48, if_flag := True\<rparr>)"
    using at(3) by (simp add: bit_simps)
  moreover have "on_stack (c_stack ?p) (c_gpr c RSP - 48) (map (c_gpr c) [R15, R14, R13, R12, RBP, RBX])"
    using p by (simp add: stacked_def)
  moreover have "c_stack ?p x = c_stack c x" if "x \<notin> region (c_gpr c RSP - 88) 88" for x
  proof -
    have "x \<notin> region (c_gpr c RSP - 88 + 8 * of_nat i) 8" if "i < 11" for i
      using region_word [of x "c_gpr c RSP - 88" 11 i] \<open>x \<notin> _\<close> that by simp
    from this [of 0] this [of 1] this [of 2] this [of 3] this [of 4] this [of 5] this [of 6] this [of 7] this [of 8]
      this [of 9] this [of 10]
    show ?thesis by (simp add: push_def store64_other)
  qed
  ultimately show thesis using run by (intro that [of "c_stack ?p"]) simp_all
qed

section \<open>Back into the kernel\<close>

lemma resume_kernel_exec:
  assumes "stacked (vs @ [ret]) c" and "length vs = 6"
  obtains d where "exec call e resume_kernel_code (c, s) = Ok (d, s)" and "c_rip d = ret"
    and "map (c_gpr d) [R15, R14, R13, R12, RBP, RBX] = vs" and "c_gpr d RSP = c_gpr c RSP + 56"
    and "c_seg d = (\<lambda>r. if r \<in> {DS, ES, FS, GS} then 0x10 else c_seg c r)"
    and "c_rflags d = c_rflags c" and "c_stack d = c_stack c"
proof -
  let ?rs = "[R15, R14, R13, R12, RBP, RBX]" and ?ax = "c_gpr c RAX AND NOT 0xFFFF OR 0x10"
  let ?c1 = "set_seg FS 0x10 (set_seg GS 0x10 (set_seg ES 0x10 (set_seg DS 0x10 (set_gpr RAX ?ax c))))"
  have "(0xFFFF :: u64) = mask 16" by (simp add: mask_eq_exp_minus_1)
  then have "bit (0xFFFF :: u64) n" if "n < 16" for n using that by (simp only: bit_mask_iff) simp
  then have ax: "(ucast ?ax :: u16) = 0x10" by (intro bit_word_eqI) (auto simp: bit_simps)
  have st: "stacked (vs @ [ret]) ?c1" using assms(1) by simp
  have "length ?rs = length vs" and "distinct ?rs" and "RSP \<notin> set ?rs" using assms(2) by simp_all
  then obtain g where g: "exec call e (map Pop ?rs) (?c1, s) = Ok (?c1\<lparr>c_gpr := g\<rparr>, s)" "map g ?rs = vs"
    "g RSP = c_gpr ?c1 RSP + 8 * of_nat (length vs)"
    by (rule exec_pop_all [OF st]) (rule that)
  let ?c2 = "?c1\<lparr>c_gpr := g\<rparr>"
  have "at_rsp 0 ?c2 = ret"
    using assms on_stack_append [of "c_stack c" "c_gpr c RSP" vs "[ret]"] g(3) by (simp add: at_rsp_def stacked_def)
  moreover have "exec call e resume_kernel_code (c, s) = exec1 call e Ret (?c2, s)"
    unfolding resume_kernel_code_def exec_append using g(1) by (simp add: ax [simplified] del: exec1.simps(17) list.map)
  ultimately have "exec call e resume_kernel_code (c, s) = Ok ((drop_words 1 ?c2)\<lparr>c_rip := ret\<rparr>, s)" by simp
  then show thesis by (rule that) (use g assms(2) in \<open>auto simp: fun_eq_iff\<close>)
qed

section \<open>What handlers leave alone\<close>

lemma scancode_frame [simp]:
  "interrupt_handlers (kbd_scancode c s) = interrupt_handlers s" "tasks.more (kbd_scancode c s) = tasks.more s"
  by (simp_all add: kbd_scancode_def kbd_buffer_push_def Let_def)

lemma schedule_keeps:
  assumes "table_inv s" and "schedule frame s = Inr (frame', t)"
  shows "interrupt_handlers t = interrupt_handlers s \<and> tasks.more t = tasks.more s"
proof -
  consider "task_count s = 0" | "0 < task_count s" "scheduler_started s \<noteq> 0" | "0 < task_count s" "scheduler_started s = 0"
    using assms(1) by (fastforce simp: table_inv_def)
  then show ?thesis
  proof cases
    case 2
    then show ?thesis using schedule_started [OF assms(1) 2] assms(2) by (auto simp: freeze_def Let_def)
  next
    case 3
    then show ?thesis using schedule_first [OF assms(1) 3] assms(2) by auto
  qed (use assms(2) in \<open>simp add: schedule_def\<close>)
qed

lemma pit_keeps:
  assumes "kernel_inv s" and "pit_handler frame s = Inr (frame', t)"
  shows "interrupt_handlers t = interrupt_handlers s \<and> tasks.more t = tasks.more s"
proof -
  let ?s = "s\<lparr>ticks := ticks s + 1, kernel_frame_template := frame\<rparr>"
  have "table_inv ?s" using kernel_invD(5) [OF assms(1)] by (simp add: table_inv_def)
  then show ?thesis
    using assms(2) schedule_keeps [of ?s frame frame' t] by (auto simp: pit_handler_def Let_def split: if_splits)
qed

lemma call_keeps:
  fixes s :: "'a sys_scheme"
  assumes "slots_ok b" and "kernel_inv s" and "call_handler b h frame s = Ok (frame', t)"
  shows "interrupt_handlers t = interrupt_handlers s \<and> tasks.more t = tasks.more s"
proof -
  have screen: "interrupt_handlers u = interrupt_handlers s \<and> tasks.more u = tasks.more s" if "tty_frame s u" for u
    using that by (auto simp: tty_frame_def)
  show ?thesis
  proof (cases h)
    case Breakpoint_handler
    have "prints s (breakpoint_handler frame s)"
      unfolding breakpoint_handler_def by (rule prints_literal) (simp_all add: cstr_def)
    then obtain u where "breakpoint_handler frame s = Ok u" "tty_frame s u"
      by (rule prints_stays [OF _ kernel_invD(1) [OF assms(2)]])
    then show ?thesis using assms(3) Breakpoint_handler screen [of u] by auto
  next
    case Keyboard_handler
    then show ?thesis using assms(3) by (auto simp: handler_scancode)
  next
    case Pit_handler
    then have "pit_handler frame s = Inr (frame', t)" using assms(3) by (cases "pit_handler frame s") auto
    then show ?thesis using pit_keeps [OF assms(2)] by blast
  next
    case Syscall_handler
    then have "tty_frame s t"
      using syscall_screen [OF kernel_invD(1) [OF assms(2)], of "slot_upper b" frame] assms(1,3)
      by (auto simp: slots_ok_def)
    then show ?thesis by (rule screen)
  qed
qed

text \<open>The invariant of the stay in user mode: the system call handler and the way back are kept.\<close>

interpretation wired: interrupt_system "call_handler b"
  "\<lambda>s :: 'a sys_scheme. (slots_ok b \<and> kernel_inv s) \<and> interrupt_handlers s = hs \<and> tasks.more s = globals"
  for b :: board and hs globals
proof
  fix s t :: "'a sys_scheme" and h frame frame' l f
  let ?inv = "\<lambda>s :: 'a sys_scheme. (slots_ok b \<and> kernel_inv s) \<and> interrupt_handlers s = hs \<and> tasks.more s = globals"
  assume inv: "?inv s"
  show "tty_inv s" using inv kernel_invD(1) by blast
  show "?inv t" if "tty_inv t" "tty_frame s t"
    using that inv kernel_inv_screen [of s t] by (auto simp: tty_frame_def)
  show "?inv (s\<lparr>io_log := l\<rparr>)" "?inv (s\<lparr>if_flag := f\<rparr>)" using inv by simp_all
  show "?inv t" if "outcome_state (call_handler b h frame s) = Some (frame', t)"
    using that inv call_handler_ok [of b s h frame] call_keeps [of b s h frame] by auto
qed

lemma stub_wired:
  fixes s :: "'a sys_scheme"
  assumes "slots_ok b" and "kernel_inv s"
  shows "n < 256 \<Longrightarrow> isr_stub_run b n frame s = Ok (frame', t) \<Longrightarrow>
      kernel_inv t \<and> interrupt_handlers t = interrupt_handlers s \<and> tasks.more t = tasks.more s"
    and "irq_stub_run b n frame s = Ok (frame', t) \<Longrightarrow>
      kernel_inv t \<and> interrupt_handlers t = interrupt_handlers s \<and> tasks.more t = tasks.more s"
proof -
  have inv: "(slots_ok b \<and> kernel_inv (cli s)) \<and> interrupt_handlers (cli s) = interrupt_handlers s
      \<and> tasks.more (cli s) = tasks.more s"
    using assms by (simp add: cli_def)
  have returned: "kernel_inv t \<and> interrupt_handlers t = interrupt_handlers s \<and> tasks.more t = tasks.more s"
    if x: "bind_ok x iretq = Ok (frame', t)"
      and u: "\<And>f u. x = Ok (f, u) \<Longrightarrow> kernel_inv u \<and> interrupt_handlers u = interrupt_handlers s \<and> tasks.more u = tasks.more s"
    for x :: "(interrupt_frame \<times> 'a sys_scheme) outcome"
  proof -
    obtain f u where "x = Ok (f, u)" "iretq (f, u) = Ok (frame', t)" using x by (auto simp: bind_ok_eq_Ok)
    then show ?thesis using u by (auto simp: iretq_def)
  qed
  show "kernel_inv t \<and> interrupt_handlers t = interrupt_handlers s \<and> tasks.more t = tasks.more s"
    if n: "n < 256" and run: "isr_stub_run b n frame s = Ok (frame', t)"
  proof (rule returned [OF run [unfolded isr_stub_run_def]])
    fix f u
    assume "isr_handler (call_handler b) (slot_upper b) (cr2 b)
      (frame\<lparr>fr_int_no := n, fr_err_code := if pushes_error n then fr_err_code frame else 0\<rparr>) (cli s) = Ok (f, u)"
    from wired.isr_handler_inv [OF inv _ arg_cong [OF this, of outcome_state, unfolded outcome_state.simps]] n
    show "kernel_inv u \<and> interrupt_handlers u = interrupt_handlers s \<and> tasks.more u = tasks.more s" by simp
  qed
  show "kernel_inv t \<and> interrupt_handlers t = interrupt_handlers s \<and> tasks.more t = tasks.more s"
    if run: "irq_stub_run b n frame s = Ok (frame', t)"
  proof (rule returned [OF run [unfolded irq_stub_run_def]])
    fix f u
    assume "irq_handler (call_handler b) (frame\<lparr>fr_int_no := 32 + n, fr_err_code := 0\<rparr>) (cli s) = Ok (f, u)"
    from wired.irq_handler_inv [OF inv arg_cong [OF this, of outcome_state, unfolded outcome_state.simps]]
    show "kernel_inv u \<and> interrupt_handlers u = interrupt_handlers s \<and> tasks.more u = tasks.more s" by simp
  qed
qed

section \<open>The stay in user mode\<close>

text \<open>
  The 16 KB of the linker script below \<open>kernel_stack_top\<close>, on which interrupts out of user
  mode run.
\<close>

definition KERNEL_STACK_SIZE :: nat where
  "KERNEL_STACK_SIZE = 0x4000"

definition user_mode :: "cpu \<Rightarrow> bool" where
  "user_mode c \<longleftrightarrow> c_seg c CS AND 3 \<noteq> 0"

text \<open>
  A step in ring 3: user code changes registers and user memory; an interrupt, exception or
  system call whose handler stays on the interrupt stack leads back to user code.
\<close>

inductive user_step :: "board \<Rightarrow> u64 \<Rightarrow> cpu \<times> 'a sys_scheme \<Rightarrow> cpu \<times> 'a sys_scheme \<Rightarrow> bool" for b kstack where
  user_code: "user_mode c \<Longrightarrow> user_mode c' \<Longrightarrow> c_stack c' = c_stack c \<Longrightarrow> only_changes 0x400000 0x800000 (mem s) m \<Longrightarrow>
    user_step b kstack (c, s) (c', s\<lparr>mem := m\<rparr>)"
| user_irq: "user_mode c \<Longrightarrow> depth e + 176 \<le> KERNEL_STACK_SIZE \<Longrightarrow> irq_path b e kstack n (c, s) = Ok (c', t) \<Longrightarrow>
    user_mode c' \<Longrightarrow> user_step b kstack (c, s) (c', t)"
| user_isr: "user_mode c \<Longrightarrow> depth e + 176 \<le> KERNEL_STACK_SIZE \<Longrightarrow> n < 256 \<Longrightarrow>
    isr_path b e kstack n err (c, s) = Ok (c', t) \<Longrightarrow> user_mode c' \<Longrightarrow> user_step b kstack (c, s) (c', t)"

definition interrupt_stack :: "u64 \<Rightarrow> u64 set" where
  "interrupt_stack kstack = region ((kstack AND NOT 15) - of_nat KERNEL_STACK_SIZE) KERNEL_STACK_SIZE"

lemma stack_use_user:
  assumes "user_mode c" and "depth e + 176 \<le> KERNEL_STACK_SIZE"
  shows "stack_use kstack e c \<subseteq> interrupt_stack kstack"
proof
  fix x assume x: "x \<in> stack_use kstack e c"
  let ?d = "depth e + 176" and ?k = "kstack AND NOT 15"
  have K: "KERNEL_STACK_SIZE = (KERNEL_STACK_SIZE - ?d) + ?d" using assms(2) by simp
  have a: "?k - of_nat KERNEL_STACK_SIZE + of_nat (KERNEL_STACK_SIZE - ?d) = ?k - of_nat ?d"
    using assms(2) by simp
  show "x \<in> interrupt_stack kstack"
  proof (rule ccontr)
    assume "x \<notin> interrupt_stack kstack"
    then have "x \<notin> region (?k - of_nat KERNEL_STACK_SIZE) ((KERNEL_STACK_SIZE - ?d) + ?d)"
      unfolding interrupt_stack_def K [symmetric] .
    from region_split(2) [OF this] have "x \<notin> region (?k - of_nat ?d) ?d" unfolding a .
    then show False using x assms(1) by (simp add: stack_use_def entry_rsp_def user_mode_def)
  qed
qed

text \<open>What holds all through a stay that began in \<open>r0\<close>: the stack is as it was but for the interrupt stack.\<close>

definition parked :: "u64 \<Rightarrow> cpu \<times> 'a sys_scheme \<Rightarrow> cpu \<times> 'a sys_scheme \<Rightarrow> bool" where
  "parked kstack r0 r \<longleftrightarrow> user_mode (fst r) \<and> kernel_inv (snd r)
     \<and> interrupt_handlers (snd r) = interrupt_handlers (snd r0) \<and> tasks.more (snd r) = tasks.more (snd r0)
     \<and> (\<forall>x. x \<notin> interrupt_stack kstack \<longrightarrow> c_stack (fst r) x = c_stack (fst r0) x)"

lemma parked_path:
  fixes s :: "'a sys_scheme"
  assumes "parked kstack r0 (c, s)" and "depth e + 176 \<le> KERNEL_STACK_SIZE" and "tracks kstack e c y (Ok (c', t))"
    and "user_mode c'"
    and "\<And>f t. y = Ok (f, t) \<Longrightarrow>
      kernel_inv t \<and> interrupt_handlers t = interrupt_handlers s \<and> tasks.more t = tasks.more s"
  shows "parked kstack r0 (c', t)"
proof -
  obtain f u where y: "y = Ok (f, u)" using assms(3) by (cases y) auto
  then obtain m where m: "c' = resumed f m c" "t = u" "\<And>x. x \<notin> stack_use kstack e c \<Longrightarrow> m x = c_stack c x"
    using assms(3) by auto
  have "user_mode c" using assms(1) by (simp add: parked_def)
  from stack_use_user [OF this assms(2)] have "c_stack c' x = c_stack c x" if "x \<notin> interrupt_stack kstack" for x
    using that m(3) [of x] by (auto simp: m(1) resumed_def)
  then show ?thesis using assms(1,4) assms(5) [OF y] by (simp add: parked_def m(2))
qed

lemma user_step_parked:
  fixes r :: "cpu \<times> 'a sys_scheme"
  assumes "slots_ok b" and "user_step b kstack r r'" and "parked kstack r0 r"
  shows "parked kstack r0 r'"
  using assms(2,3)
proof (cases rule: user_step.cases)
  case (user_code c c' s m)
  have "only_changes 0 0x800000 (mem s) m" using user_code(6) by (rule only_changes_mono) simp_all
  then have "kernel_inv (s\<lparr>mem := m\<rparr>)" using assms(3) by (intro kernel_inv_low) (simp_all add: parked_def user_code)
  then show ?thesis using assms(3) user_code by (simp add: parked_def)
next
  case (user_irq c e n s c' t)
  have inv: "kernel_inv s" using assms(3) by (simp add: parked_def user_irq)
  have "tracks kstack e c (irq_stub_run b n (cpu_frame (32 + n) 0 c) s) (Ok (c', t))"
    using irq_path_tracks [of kstack e c b n s] user_irq by simp
  then show ?thesis unfolding user_irq(2)
    by (rule parked_path [OF assms(3) [unfolded user_irq(1)] user_irq(4) _ user_irq(6)])
      (rule stub_wired(2) [OF assms(1) inv])
next
  case (user_isr c e n err s c' t)
  have inv: "kernel_inv s" using assms(3) by (simp add: parked_def user_isr)
  have "tracks kstack e c (isr_stub_run b n (cpu_frame n err c) s) (Ok (c', t))"
    using isr_path_tracks [of kstack e c b n err s] user_isr by simp
  then show ?thesis unfolding user_isr(2)
    by (rule parked_path [OF assms(3) [unfolded user_isr(1)] user_isr(4) _ user_isr(7)])
      (rule stub_wired(1) [OF assms(1) inv user_isr(5)])
qed

lemma user_steps_parked:
  assumes "(user_step b kstack)\<^sup>*\<^sup>* r r'" and "slots_ok b" and "parked kstack r0 r"
  shows "parked kstack r0 r'"
  using assms by (induction rule: rtranclp_induct) (auto intro: user_step_parked)

section \<open>The round trip\<close>

lemma exit_path:
  fixes s :: "'a sys_scheme"
  assumes "slots_ok b" and "kernel_inv s" and "interrupt_handlers s ! 128 = Some Syscall_handler"
    and "(ucast (c_gpr c RAX) :: u32) = 60"
  obtains f t m where "isr_path b e kstack 128 0 (c, s) = Ok (resumed f m c, t)" and "kernel_inv t" and "if_flag t"
    and "fr_rip f = resume_kernel_func s" and "fr_cs f = 0x08" and "fr_ss f = 0x10" and "fr_rsp f = saved_kernel_rsp s"
    and "fr_rflags f = 0x202" and "\<And>x. x \<notin> stack_use kstack e c \<Longrightarrow> m x = c_stack c x"
proof -
  let ?fr = "cpu_frame 128 0 c"
  let ?out = "?fr\<lparr>fr_rip := resume_kernel_func s, fr_cs := 0x08, fr_ss := 0x10, fr_rsp := saved_kernel_rsp s, fr_rflags := 0x202\<rparr>"
  have inv: "kernel_inv (cli s)" using assms(2) by (simp add: cli_def)
  have rax: "(ucast (fr_rax ?fr) :: u32) = 60" using assms(4) by (simp add: cpu_frame_def words_frame_def)
  have no: "fr_int_no ?fr = 128" by (simp add: cpu_frame_def words_frame_def)
  obtain u where u: "syscall_handler (slot_upper b) ?fr (cli s) = Ok (?out, u)" "tty_inv u" "tty_frame (cli s) u"
    using syscall_exit [OF kernel_invD(1) [OF inv] rax, of "slot_upper b"] assms(1) by (auto simp: slots_ok_def cli_def)
  have "isr_stub_run b 128 ?fr s = Ok (?out, u\<lparr>if_flag := True\<rparr>)"
    using u(1) assms(3) no by (simp add: isr_stub_run_def isr_handler_def pushes_error_def iretq_def cli_def)
  with isr_path_tracks [of kstack e c b 128 0 s]
  obtain m where "isr_path b e kstack 128 0 (c, s) = Ok (resumed ?out m c, u\<lparr>if_flag := True\<rparr>)"
    "\<And>x. x \<notin> stack_use kstack e c \<Longrightarrow> m x = c_stack c x" by auto
  moreover have "kernel_inv (u\<lparr>if_flag := True\<rparr>)" using kernel_inv_screen [OF inv u(2,3)] by simp
  ultimately show thesis by (intro that [of ?out m "u\<lparr>if_flag := True\<rparr>"]) simp_all
qed

lemma sys_globals:
  fixes s t :: "'a sys_scheme"
  assumes "tasks.more t = tasks.more s"
  shows "saved_kernel_rsp t = saved_kernel_rsp s" and "resume_kernel_func t = resume_kernel_func s"
  using assms by (cases s; cases t; simp)+

lemma ring_switch:
  fixes s :: "'a sys_scheme"
  assumes "slots_ok b" and "kernel_inv s" and "interrupt_handlers s ! 128 = Some Syscall_handler"
    and "ucast (c_gpr c RDX) AND 3 \<noteq> (0 :: u16)"
    and "interrupt_stack kstack \<inter> region (c_gpr c RSP - 48) 56 = {}"
    and "exec (asm_call b) e0 enter_user_mode_code (c, s) = Ok r0" and "(user_step b kstack)\<^sup>*\<^sup>* r0 (c2, s2)"
    and "(ucast (c_gpr c2 RAX) :: u32) = 60" and "depth e + 176 \<le> KERNEL_STACK_SIZE"
  shows "\<exists>c3 t c4. isr_path b e kstack 128 0 (c2, s2) = Ok (c3, t) \<and> c_rip c3 = resume_kernel_func s
    \<and> exec (asm_call b) e resume_kernel_code (c3, t) = Ok (c4, t)
    \<and> c_rip c4 = load64 (c_stack c) (c_gpr c RSP) \<and> c_gpr c4 RSP = c_gpr c RSP + 8
    \<and> (\<forall>r \<in> {RBX, RBP, R12, R13, R14, R15}. c_gpr c4 r = c_gpr c r)
    \<and> c_seg c4 = (\<lambda>r. if r = CS then 0x08 else 0x10) \<and> kernel_inv t \<and> if_flag t"
proof -
  let ?a = "c_gpr c RSP - 48" and ?vs = "map (c_gpr c) [R15, R14, R13, R12, RBP, RBX]"
  let ?ret = "load64 (c_stack c) (c_gpr c RSP)"
  let ?s0 = "s\<lparr>saved_kernel_rsp := ?a, if_flag := True\<rparr>"
  obtain m0 where r0: "r0 = (user_cpu c m0, ?s0)" and m0: "on_stack m0 ?a ?vs"
    and other: "\<And>x. x \<notin> region (c_gpr c RSP - 88) 88 \<Longrightarrow> m0 x = c_stack c x"
    using enter_user_mode_exec [of "asm_call b" e0 c s] assms(6) by (metis outcome.inject(1))
  have "load64 m0 (c_gpr c RSP) = ?ret"
  proof (rule load64_cong, rule other)
    fix x assume "x \<in> region (c_gpr c RSP) 8"
    then show "x \<notin> region (c_gpr c RSP - 88) 88" using region_apart [of 88 8 "c_gpr c RSP - 88"] by auto
  qed
  then have full: "on_stack m0 ?a (?vs @ [?ret])" using m0 by (simp add: on_stack_append)
  have "kernel_inv ?s0" using assms(2) by simp
  then have "parked kstack r0 r0" using assms(4) by (simp add: parked_def r0 user_mode_def user_cpu_def Let_def)
  from user_steps_parked [OF assms(7,1) this]
  have c2: "user_mode c2" "kernel_inv s2" "interrupt_handlers s2 ! 128 = Some Syscall_handler"
    "tasks.more s2 = tasks.more ?s0" "\<And>x. x \<notin> interrupt_stack kstack \<Longrightarrow> c_stack c2 x = m0 x"
    using assms(3) by (simp_all add: parked_def r0 user_cpu_def Let_def)
  obtain f t m where f: "isr_path b e kstack 128 0 (c2, s2) = Ok (resumed f m c2, t)" "kernel_inv t" "if_flag t"
    "fr_rip f = resume_kernel_func s2" "fr_cs f = 0x08" "fr_ss f = 0x10" "fr_rsp f = saved_kernel_rsp s2"
    "fr_rflags f = 0x202" "\<And>x. x \<notin> stack_use kstack e c2 \<Longrightarrow> m x = c_stack c2 x"
    by (rule exit_path [OF assms(1) c2(2,3) assms(8), where e = e and kstack = kstack]) (rule that)
  have rsp: "fr_rsp f = ?a" "fr_rip f = resume_kernel_func s" using f(4,7) sys_globals [OF c2(4)] by simp_all
  have "on_stack m ?a (?vs @ [?ret])"
  proof (rule on_stack_cong [OF full])
    fix x assume "x \<in> region ?a (8 * length (?vs @ [?ret]))"
    then have "x \<notin> interrupt_stack kstack" using assms(5) by auto
    then show "m x = m0 x" using f(9) [of x] c2(5) [of x] stack_use_user [OF c2(1) assms(9), of kstack] by auto
  qed simp
  then have "stacked (?vs @ [?ret]) (resumed f m c2)" by (simp add: stacked_def resumed_def rsp)
  then obtain d where d: "exec (asm_call b) e resume_kernel_code (resumed f m c2, t) = Ok (d, t)" "c_rip d = ?ret"
    "map (c_gpr d) [R15, R14, R13, R12, RBP, RBX] = ?vs" "c_gpr d RSP = c_gpr (resumed f m c2) RSP + 56"
    "c_seg d = (\<lambda>r. if r \<in> {DS, ES, FS, GS} then 0x10 else c_seg (resumed f m c2) r)"
    by (rule resume_kernel_exec) simp_all
  have segs: "c_seg d = (\<lambda>r. if r = CS then 0x08 else 0x10)"
  proof
    fix r show "c_seg d r = (if r = CS then 0x08 else 0x10)" by (cases r) (simp_all add: d(5) resumed_def f(5,6))
  qed
  show ?thesis
    using f(1-3) d segs rsp by (intro exI [of _ "resumed f m c2"] exI [of _ t] exI [of _ d]) (simp add: resumed_def)
qed

lemma enter_user_mode_frame:
  "enter_user_mode (c_gpr c RSP) (c_rflags c) (cpu_frame n k c) program (c_gpr c RDI) (c_gpr c RSI)
     (ucast (c_gpr c RDX)) (ucast (c_gpr c RCX)) s
   = map_outcome snd (program (cpu_frame n k (user_cpu c m)) (s\<lparr>saved_kernel_rsp := c_gpr c RSP - 48, if_flag := True\<rparr>))"
proof -
  have fr: "(cpu_frame n k c)\<lparr>fr_rax := c_rflags c OR 0x200, fr_rip := c_gpr c RDI,
      fr_cs := ucast (ucast (c_gpr c RDX) :: u16), fr_rflags := c_rflags c OR 0x200, fr_rsp := c_gpr c RSI,
      fr_ss := ucast (ucast (c_gpr c RCX) :: u16)\<rparr> = cpu_frame n k (user_cpu c m)"
    by (simp add: cpu_frame_def words_frame_def user_cpu_def Let_def)
  show ?thesis
    unfolding enter_user_mode_def Let_def fr [symmetric] by (simp add: iretq_def bit_simps)
qed

section \<open>Properties\<close>

text \<open>
  C7: \<open>enter_user_mode\<close> and \<open>resume_kernel\<close> are a call and its return across user mode. The
  assembly of \<open>enter_user_mode\<close> starts the user program with the registers that the model
  \<open>enter_user_mode\<close> gives it, in ring 3. However long the program then runs, whatever it does to
  its registers and its memory and whichever interrupts, exceptions and system calls come in
  between (as long as the interrupt stack is not the kernel's own and does not overflow), when it
  makes the exit system call, the machine arrives at \<open>resume_kernel\<close>, and that code returns to the
  caller of \<open>enter_user_mode\<close> with the stack pointer and all callee-saved registers as they were,
  on the kernel's segments, with interrupts enabled and the kernel's invariant intact.
\<close>

theorem ring_switch_round_trip:
  fixes s :: "'a sys_scheme"
  assumes "slots_ok b" and "kernel_inv s" and "interrupt_handlers s ! 128 = Some Syscall_handler"
    and "ucast (c_gpr c RDX) AND 3 \<noteq> (0 :: u16)"
    and "interrupt_stack kstack \<inter> region (c_gpr c RSP - 48) 56 = {}"
  shows "\<exists>c1 s1. exec (asm_call b) e enter_user_mode_code (c, s) = Ok (c1, s1) \<and> user_mode c1
    \<and> (\<forall>program. enter_user_mode (c_gpr c RSP) (c_rflags c) (cpu_frame n k c) program (c_gpr c RDI) (c_gpr c RSI)
         (ucast (c_gpr c RDX)) (ucast (c_gpr c RCX)) s = map_outcome snd (program (cpu_frame n k c1) s1))
    \<and> (\<forall>c2 s2 e'. (user_step b kstack)\<^sup>*\<^sup>* (c1, s1) (c2, s2) \<longrightarrow> (ucast (c_gpr c2 RAX) :: u32) = 60 \<longrightarrow>
         depth e' + 176 \<le> KERNEL_STACK_SIZE \<longrightarrow>
         (\<exists>c3 t c4. isr_path b e' kstack 128 0 (c2, s2) = Ok (c3, t) \<and> c_rip c3 = resume_kernel_func s
            \<and> exec (asm_call b) e' resume_kernel_code (c3, t) = Ok (c4, t)
            \<and> c_rip c4 = load64 (c_stack c) (c_gpr c RSP) \<and> c_gpr c4 RSP = c_gpr c RSP + 8
            \<and> (\<forall>r \<in> {RBX, RBP, R12, R13, R14, R15}. c_gpr c4 r = c_gpr c r)
            \<and> c_seg c4 = (\<lambda>r. if r = CS then 0x08 else 0x10) \<and> kernel_inv t \<and> if_flag t))"
proof -
  let ?s1 = "s\<lparr>saved_kernel_rsp := c_gpr c RSP - 48, if_flag := True\<rparr>"
  obtain m where m: "exec (asm_call b) e enter_user_mode_code (c, s) = Ok (user_cpu c m, ?s1)"
    by (rule enter_user_mode_exec [of "asm_call b" e c s])
  moreover have "user_mode (user_cpu c m)" using assms(4) by (simp add: user_mode_def user_cpu_def Let_def)
  ultimately show ?thesis
    using enter_user_mode_frame ring_switch [OF assms m]
    by (intro exI [of _ "user_cpu c m"] exI [of _ ?s1]) blast
qed

definition example_caller :: cpu where
  "example_caller = example_cpu\<lparr>c_gpr := (\<lambda>r. if r = RSP then 0x20000 else if r = RDX then 0x23 else if r = RCX then 0x1B
     else if r = RDI then 0x400000 else if r = RSI then 0x800000 else if r = RBX then 42 else 0)\<rparr>"

definition example_wired :: sys where
  "example_wired = syscall_init 0x100400 example_sys"

lemma example_wired_ok:
  "kernel_inv example_wired" "interrupt_handlers example_wired ! 128 = Some Syscall_handler"
  "resume_kernel_func example_wired = 0x100400"
proof -
  let ?s = "example_sys\<lparr>resume_kernel_func := 0x100400\<rparr>"
  have inv: "kernel_inv ?s" using example_kernel_inv by simp
  show "kernel_inv example_wired" unfolding example_wired_def syscall_init_def by (rule kernel_inv_register [OF inv])
  show "interrupt_handlers example_wired ! 128 = Some Syscall_handler"
    using registered(1) [OF kernel_invD(3) [OF inv], of 128 Syscall_handler 128]
    by (simp add: example_wired_def syscall_init_def)
  show "resume_kernel_func example_wired = 0x100400"
    by (simp add: example_wired_def syscall_init_def register_interrupt_handler_def)
qed

theorem ring_switch_round_trip_witness:
  "\<exists>c1 s1 c3 t c4. exec (asm_call example_board) example_env enter_user_mode_code (example_caller, example_wired) = Ok (c1, s1)
    \<and> isr_path example_board example_env 0x90000 128 0 (set_gpr RAX 60 c1, s1) = Ok (c3, t) \<and> c_rip c3 = 0x100400
    \<and> exec (asm_call example_board) example_env resume_kernel_code (c3, t) = Ok (c4, t)
    \<and> c_rip c4 = 0 \<and> c_gpr c4 RSP = 0x20008 \<and> c_gpr c4 RBX = 42 \<and> if_flag t"
proof -
  let ?c = example_caller
  have c: "c_gpr ?c RSP = 0x20000" "c_gpr ?c RBX = 42" "ucast (c_gpr ?c RDX) AND 3 \<noteq> (0 :: u16)"
    "load64 (c_stack ?c) (c_gpr ?c RSP) = 0"
    by (simp_all add: example_caller_def example_cpu_def load64_def load_le_numeral)
  have "interrupt_stack 0x90000 \<inter> region (c_gpr ?c RSP - 48) 56 = {}"
    by (auto simp: c interrupt_stack_def KERNEL_STACK_SIZE_def region_interval)
  from ring_switch_round_trip [OF example_slots example_wired_ok(1,2) c(3) this, where e = example_env]
  obtain c1 s1 where r: "exec (asm_call example_board) example_env enter_user_mode_code (?c, example_wired) = Ok (c1, s1)"
    "user_mode c1" "\<And>c2 s2 e'. (user_step example_board 0x90000)\<^sup>*\<^sup>* (c1, s1) (c2, s2) \<Longrightarrow>
      (ucast (c_gpr c2 RAX) :: u32) = 60 \<Longrightarrow> depth e' + 176 \<le> KERNEL_STACK_SIZE \<Longrightarrow>
      \<exists>c3 t c4. isr_path example_board e' 0x90000 128 0 (c2, s2) = Ok (c3, t) \<and> c_rip c3 = resume_kernel_func example_wired
        \<and> exec (asm_call example_board) e' resume_kernel_code (c3, t) = Ok (c4, t)
        \<and> c_rip c4 = load64 (c_stack ?c) (c_gpr ?c RSP) \<and> c_gpr c4 RSP = c_gpr ?c RSP + 8
        \<and> (\<forall>r \<in> {RBX, RBP, R12, R13, R14, R15}. c_gpr c4 r = c_gpr ?c r)
        \<and> c_seg c4 = (\<lambda>r. if r = CS then 0x08 else 0x10) \<and> kernel_inv t \<and> if_flag t"
    by blast
  have "user_step example_board 0x90000 (c1, s1) (set_gpr RAX 60 c1, s1\<lparr>mem := mem s1\<rparr>)"
    using r(2) by (intro user_code) (simp_all add: user_mode_def)
  then have "(user_step example_board 0x90000)\<^sup>*\<^sup>* (c1, s1) (set_gpr RAX 60 c1, s1)" by simp
  from r(3) [OF this, of example_env] r(1) c show ?thesis
    by (auto simp: example_wired_ok(3) example_env_def KERNEL_STACK_SIZE_def)
qed

end
