(* ===== verification/Interrupt_Transparency.thy ===== *)
theory Interrupt_Transparency
  imports Ring_Switch
begin

text \<open>
  Hardware interrupts and the code they interrupt. As long as the timer handler does not switch
  to a task, the interrupted code continues with the registers it had, wherever it was: in the
  middle of \<open>malloc\<close> or \<open>printf\<close> as well as between them. Of the state of the kernel only the
  variables of the driver behind the line change.
\<close>

section \<open>What an interrupt changes\<close>

text \<open>The lines of the interrupt controllers lead to the handlers of timer and keyboard or nowhere.\<close>

definition hardware_wired :: "'a isr_scheme \<Rightarrow> bool" where
  "hardware_wired s \<longleftrightarrow> (\<forall>n < 16. interrupt_handlers s ! (32 + n) \<in> {None, Some Keyboard_handler, Some Pit_handler})"

text \<open>
  \<open>driver_step b h frame s t\<close>: up to the interrupt flag and the log of port accesses, \<open>t\<close> is \<open>s\<close>
  with exactly the change that the driver with the handler \<open>h\<close> makes to its own variables: a tick
  and the remembered frame for the timer; for the keyboard the modifiers and the waiting keys that
  the scancode of the device leads to.
\<close>

fun driver_step :: "board \<Rightarrow> handler option \<Rightarrow> interrupt_frame \<Rightarrow> 'a sys_scheme \<Rightarrow> 'a sys_scheme \<Rightarrow> bool" where
  "driver_step b None frame s t \<longleftrightarrow> t = s\<lparr>io_log := io_log t, if_flag := if_flag t\<rparr>"
| "driver_step b (Some Pit_handler) frame s t \<longleftrightarrow>
     t = s\<lparr>ticks := ticks s + 1, kernel_frame_template := frame, io_log := io_log t, if_flag := if_flag t\<rparr>"
| "driver_step b (Some Keyboard_handler) frame s t \<longleftrightarrow>
     t = s\<lparr>keycache := keycache t, kbd_head := kbd_head t, kbd_tail := kbd_tail t, kbd_shift := kbd_shift t,
       kbd_caps := kbd_caps t, io_log := io_log t, if_flag := if_flag t\<rparr>
     \<and> (let (mods, keys) = press (devices b (io_log s) 0x60) (kbd_mods s)
        in kbd_mods t = mods \<and> kbd_queue t = keep_last 255 (kbd_queue s @ keys))"
| "driver_step b (Some Breakpoint_handler) frame s t \<longleftrightarrow> False"
| "driver_step b (Some Syscall_handler) frame s t \<longleftrightarrow> False"

text \<open>The port accesses of an interrupt: the keyboard reads its scancode, then come the EOIs.\<close>

definition irq_events :: "board \<Rightarrow> handler option \<Rightarrow> u64 \<Rightarrow> io_event list \<Rightarrow> io_event list" where
  "irq_events b h n l = (if h = Some Keyboard_handler then [In 0x60 (devices b l 0x60)] else [])
     @ (if n \<ge> 8 then [Out 0xA0 0x20] else []) @ [Out 0x20 0x20]"

section \<open>Handlers\<close>

lemma scancode_confined:
  "\<exists>ks hd tl sh cp. kbd_scancode c s
    = s\<lparr>keycache := ks, kbd_head := hd, kbd_tail := tl, kbd_shift := sh, kbd_caps := cp\<rparr>"
proof -
  let ?t = "kbd_scancode c s"
  have "?t = s\<lparr>keycache := keycache ?t, kbd_head := kbd_head ?t, kbd_tail := kbd_tail ?t, kbd_shift := kbd_shift ?t,
      kbd_caps := kbd_caps ?t\<rparr>"
    by (simp add: kbd_scancode_def kbd_buffer_push_def Let_def)
  then show ?thesis by blast
qed

lemma kbd_views_frame [simp]:
  "kbd_inv (s\<lparr>if_flag := f\<rparr>) = kbd_inv s" "kbd_mods (s\<lparr>if_flag := f\<rparr>) = kbd_mods s"
  "kbd_queue (s\<lparr>if_flag := f\<rparr>) = kbd_queue s"
  by (simp_all add: kbd_inv_def kbd_mods_def kbd_queue_def pending_def)

lemma keyboard_step:
  fixes s :: "'a sys_scheme"
  assumes "kbd_inv s" and "t = (keyboard_handler (devices b) frame (cli s))\<lparr>io_log := l, if_flag := f\<rparr>"
  shows "driver_step b (Some Keyboard_handler) frame' s t"
proof -
  let ?c = "devices b (io_log s) 0x60"
  let ?u = "s\<lparr>if_flag := False, io_log := io_log s @ [In 0x60 ?c]\<rparr>"
  have handler: "keyboard_handler (devices b) frame (cli s) = kbd_scancode ?c ?u"
    by (simp add: handler_scancode cli_def)
  obtain mods ks where press: "press ?c (kbd_mods s) = (mods, ks)" by (cases "press ?c (kbd_mods s)")
  have u: "kbd_inv ?u" "press ?c (kbd_mods ?u) = (mods, ks)" "kbd_queue ?u = kbd_queue s"
    using assms(1) press by simp_all
  have "kbd_mods t = mods" "kbd_queue t = keep_last 255 (kbd_queue s @ ks)"
    using scancode_step [OF u(1,2)] u(3) by (simp_all add: assms(2) handler)
  moreover obtain kc hd tl sh cp where
    "kbd_scancode ?c ?u = ?u\<lparr>keycache := kc, kbd_head := hd, kbd_tail := tl, kbd_shift := sh, kbd_caps := cp\<rparr>"
    using scancode_confined [of ?c ?u] by blast
  then have "t = s\<lparr>keycache := keycache t, kbd_head := kbd_head t, kbd_tail := kbd_tail t, kbd_shift := kbd_shift t,
       kbd_caps := kbd_caps t, io_log := io_log t, if_flag := if_flag t\<rparr>"
    by (simp add: assms(2) handler)
  ultimately show ?thesis by (simp add: press)
qed

lemma irq_stub_step:
  fixes s :: "'a sys_scheme"
  assumes "hardware_wired s" and "no_switch s" and "kbd_inv s" and "n < 16"
    and "fr = frame\<lparr>fr_int_no := 32 + n, fr_err_code := 0\<rparr>" and "h = interrupt_handlers s ! (32 + unat n)"
  shows "\<exists>t. irq_stub_run b n frame s = Ok (fr, t) \<and> driver_step b h fr s t
    \<and> if_flag t = bit (fr_rflags frame) 9 \<and> io_log t = io_log s @ irq_events b h n (io_log s)"
proof -
  let ?eoi = "(if n \<ge> 8 then [Out 0xA0 0x20] else []) @ [Out 0x20 0x20]" and ?f = "bit (fr_rflags frame) 9"
  let ?reads = "if h = Some Keyboard_handler then [In 0x60 (devices b (io_log s) 0x60)] else []"
  have n: "unat (32 + n) = 32 + unat n" "unat n < 16"
    using assms(4) by (simp_all add: word_less_nat_alt unat_plus_no_wrap)
  have "unat (ucast n :: u8) = unat n" using n(2) by (simp add: unsigned_ucast_eq take_bit_nat_eq_self)
  then have eoi: "pic_send_eoi (ucast n) u = u\<lparr>io_log := io_log u @ ?eoi\<rparr>" for u :: "'a sys_scheme"
    using pic_send_eoi_events [of u "ucast n"] by (simp add: appends_def word_le_nat_alt)
  have h: "h \<in> {None, Some Keyboard_handler, Some Pit_handler}"
    using assms(1,6) n(2) by (simp add: hardware_wired_def)
  obtain t where t: "(case h of None \<Rightarrow> Ok (fr, cli s) | Some k \<Rightarrow> call_handler b k fr (cli s)) = Ok (fr, t)"
    "io_log t = io_log s @ ?reads" "\<And>l f. driver_step b h fr s (t\<lparr>io_log := l, if_flag := f\<rparr>)"
  proof -
    consider "h = None" | "h = Some Keyboard_handler" | "h = Some Pit_handler" using h by auto
    then show thesis
    proof cases
      case 1
      then show thesis by (intro that [of "cli s"]) (simp_all add: cli_def)
    next
      case 2
      let ?t = "keyboard_handler (devices b) fr (cli s)"
      have "io_log ?t = io_log s @ ?reads" using 2
        by (simp add: handler_scancode cli_def kbd_scancode_def kbd_buffer_push_def Let_def)
      with 2 show thesis using keyboard_step [OF assms(3)] by (intro that [of ?t]) auto
    next
      case 3
      have "no_switch (cli s)" using assms(2) by (simp add: no_switch_def cli_def)
      from pit_no_switch [OF this, of fr] 3 show thesis
        by (intro that [of "(cli s)\<lparr>ticks := ticks (cli s) + 1, kernel_frame_template := fr\<rparr>"]) (simp_all add: cli_def)
    qed
  qed
  have "fr_int_no fr = 32 + n" "fr_rflags fr = fr_rflags frame" by (simp_all add: assms(5))
  moreover have "interrupt_handlers (cli s) ! unat (32 + n) = h" using n by (simp add: assms(6) cli_def)
  ultimately have "irq_stub_run b n frame s = Ok (fr, t\<lparr>io_log := io_log t @ ?eoi, if_flag := ?f\<rparr>)"
    using t(1) n eoi by (simp add: irq_stub_run_def irq_handler_def iretq_def assms(5) [symmetric] del: append_assoc)
  then show ?thesis using t(2,3) by (simp add: irq_events_def)
qed

section \<open>Properties\<close>

lemma resumed_same: "resumed (cpu_frame n k c) m c = c\<lparr>c_stack := m\<rparr>"
proof -
  have g: "fr_gpr (cpu_frame n k c) = c_gpr c"
  proof
    fix r show "fr_gpr (cpu_frame n k c) r = c_gpr c r" by (cases r) (simp_all add: cpu_frame_def words_frame_def)
  qed
  have "(ucast (ucast x :: u64) :: u16) = x" for x :: u16 by (rule bit_word_eqI) (auto simp: bit_simps)
  then show ?thesis by (simp add: resumed_def g) (simp add: cpu_frame_def words_frame_def)
qed

text \<open>
  C9: a hardware interrupt touches nothing of the code it interrupts but the variables of its own
  driver. With the timer and keyboard handlers installed, and no tasks or the scheduler off, the
  interrupt path returns, wherever it strikes; the CPU continues with every register as it was, and
  the stack outside the interrupt's own use, memory and all variables of terminal, allocator,
  dispatcher, task table, file system and system calls are unchanged, in whatever state the
  interrupt finds them. Changed are the interrupt flag (to that of the interrupted code), the log of
  port accesses (the scancode read by the keyboard handler and the EOIs), for the timer the tick
  count and the remembered frame, and for the keyboard its modifiers and its ring, as the scancode
  demands. So only code that reads these variables, such as \<open>keyboard_get_key\<close>, \<open>timer_kernel\<close> and
  \<open>task_create\<close>, can notice an interrupt half way.
\<close>

theorem hardware_interrupt_confined:
  fixes s :: "'a sys_scheme"
  assumes "hardware_wired s" and "no_switch s" and "kbd_inv s" and "n < 16"
  shows "\<exists>m t. irq_path b e kstack n (c, s) = Ok (c\<lparr>c_stack := m\<rparr>, t)
    \<and> (\<forall>x. x \<in> stack_use kstack e c \<or> m x = c_stack c x)
    \<and> driver_step b (interrupt_handlers s ! (32 + unat n)) (cpu_frame (32 + n) 0 c) s t
    \<and> if_flag t = bit (c_rflags c) 9
    \<and> io_log t = io_log s @ irq_events b (interrupt_handlers s ! (32 + unat n)) n (io_log s)"
proof -
  let ?fr = "cpu_frame (32 + n) 0 c" and ?h = "interrupt_handlers s ! (32 + unat n)"
  have fr: "?fr = ?fr\<lparr>fr_int_no := 32 + n, fr_err_code := 0\<rparr>" by simp
  obtain t where t: "irq_stub_run b n ?fr s = Ok (?fr, t)" "driver_step b ?h ?fr s t"
    "if_flag t = bit (fr_rflags ?fr) 9" "io_log t = io_log s @ irq_events b ?h n (io_log s)"
    using irq_stub_step [OF assms fr refl, of b] by blast
  have "fr_rflags ?fr = c_rflags c" by (simp add: cpu_frame_def words_frame_def)
  moreover obtain m where "irq_path b e kstack n (c, s) = Ok (resumed ?fr m c, t)"
    "\<And>x. x \<notin> stack_use kstack e c \<Longrightarrow> m x = c_stack c x"
    using irq_path_tracks [of kstack e c b n s] t(1) by auto
  ultimately show ?thesis
    using t by (intro exI [of _ m] exI [of _ t] conjI) (auto simp: resumed_same)
qed

definition example_lines :: sys where
  "example_lines = example_sys\<lparr>interrupt_handlers := (replicate 256 None)[32 := Some Pit_handler, 33 := Some Keyboard_handler],
     scheduling_enabled := 1, task_count := 0\<rparr>"

theorem hardware_interrupt_confined_witness:
  "\<exists>m t. irq_path example_board example_env 0x90000 0 (example_caller, example_lines) = Ok (example_caller\<lparr>c_stack := m\<rparr>, t)
    \<and> t = example_lines\<lparr>ticks := ticks example_lines + 1, kernel_frame_template := cpu_frame 32 0 example_caller,
        io_log := io_log example_lines @ [Out 0x20 0x20], if_flag := bit (c_rflags example_caller) 9\<rparr>"
proof -
  let ?s = example_lines
  have "hardware_wired ?s" by (simp add: hardware_wired_def example_lines_def nth_list_update)
  moreover have "no_switch ?s" by (simp add: no_switch_def example_lines_def)
  moreover have "kbd_inv ?s" using example_kernel_inv by (simp add: kernel_inv_def example_lines_def kbd_inv_def)
  moreover have "interrupt_handlers ?s ! 32 = Some Pit_handler" by (simp add: example_lines_def)
  ultimately show ?thesis
    using hardware_interrupt_confined [of ?s 0 example_board example_env "0x90000" example_caller]
    by (auto simp: irq_events_def)
qed

end
