(* ===== verification/Spec2Isabelle.thy ===== *)
theory Spec2Isabelle
  imports Heap_Interface Snprintf Keyboard_Race Kernel_Main Interrupt_Transparency
begin

text \<open>
  Doomkernel: a 64-bit x86 kernel with its own small C library.

  \<^bold>\<open>The program.\<close> A boot loader enters \<open>kernel_main\<close> (\<open>kernel/kernel/kernel.c\<close>) with the BIOS
  memory map and the address of an initrd archive. The kernel initialises terminal, segments,
  interrupts, keyboard, timer, heap and file system one after the other, prints a file of the
  archive, enables the scheduler, runs a small user program in ring 3 and sleeps. Everything it
  prints goes through \<open>printf\<close> to the VGA text buffer. Interrupts enter through assembly stubs
  into \<open>isr_handler\<close> and \<open>irq_handler\<close>, which call the handler registered for the vector: the
  breakpoint test, the keyboard driver, the timer (which calls the scheduler) and the system
  calls of the user program. Task stacks come from \<open>malloc\<close>. The archive is made on the host by
  \<open>tools/pack_initrd.c\<close>.

  \<^bold>\<open>State.\<close> The machine is a byte memory, the history of port accesses and the interrupt flag
  (\<open>Machine\<close>). The C globals of each component extend it by record extension, one record per
  component in the order of the calls: \<open>machine\<close>, \<open>tty\<close>, \<open>heap\<close>, \<open>isr\<close>, \<open>kbd\<close>, \<open>pit\<close>, \<open>tasks\<close>,
  \<open>fs\<close>, \<open>sys\<close>, \<open>kernel\<close>. Machine integers are words of their width where overflow matters; C
  \<open>int\<close>s and the 16-bit task counters are integers with the conversions written out. Block
  headers, screen cells and archive entries live in the byte memory at their C offsets.

  \<^bold>\<open>Errors.\<close> Undefined behaviour of C is a value (\<open>Undefined\<close>, \<open>UB\<close>, \<open>Inl\<close> with a \<open>c_error\<close>);
  code that may stop the machine returns an \<open>outcome\<close>; a loop that does not end is \<open>None\<close>
  (\<open>partial_function (option)\<close>), and that the loops return is proved. There is no fuel except
  in \<open>task_reaper\<close>, the endless loop of a task, which is cut after a number of rounds.

  \<^bold>\<open>Theories and sources.\<close>
  \<^item> \<open>Prelude\<close>: address ranges, little-endian loads and stores, word arithmetic.
  \<^item> \<open>Libc_String\<close> (\<open>libc/string/*.c\<close>): the block and string routines; \<open>memmove\<close> on overlapping
    ranges, \<open>strlen\<close> returns exactly on terminated strings; locale \<open>block_ops\<close>.
  \<^item> \<open>Machine\<close> (\<open>io/ports.h\<close>): ports; devices are a parameter from the history to the byte read.
  \<^item> \<open>Terminal\<close> (\<open>arch/x86_64/tty.c\<close>, \<open>vga.h\<close>): refinement of an abstract screen \<open>put_spec\<close>, no
    store outside the text buffer (\<open>tty_frame\<close>); locale \<open>console\<close>.
  \<^item> \<open>Printf\<close>, \<open>Snprintf\<close> (\<open>libc/stdio/*.c\<close>): local arrays are checked lists; \<open>printf\<close> prints the
    text of the reference renderer \<open>render\<close> and is undefined exactly where that has no text;
    numerals read back; \<open>snprintf\<close> stays in its buffer.
  \<^item> \<open>Panic\<close> (\<open>libc/panic.c\<close>): outcomes, frames; \<open>panic\<close> prints its report and stops the machine.
  \<^item> \<open>Heap\<close> (\<open>libc/stdlib/malloc.c\<close>, \<open>calloc.c\<close>, \<open>free.c\<close>, \<open>realloc.c\<close>): the code. \<open>Heap_Blocks\<close>: the
    chain of headers as a list of blocks, the invariant \<open>heap_inv\<close> and the ownership predicate
    \<open>owns\<close>. \<open>Heap_Alloc\<close>, \<open>Heap_Free\<close>, \<open>Heap_Realloc\<close>: each operation refines one on block lists.
    \<open>Heap_Interface\<close>: the locale \<open>allocator\<close> and its interpretation, the clients' view; runs of
    clients' calls and writes (\<open>heap_run\<close>) leave every block alone that they do not name.
  \<^item> \<open>Memory_Init\<close> (\<open>memory_init\<close>): the heap is the largest usable region.
  \<^item> \<open>Pic\<close>, \<open>Idt\<close>, \<open>Gdt\<close> (\<open>interrupts/pic.c\<close>, \<open>idt.c\<close>, \<open>gdt/gdt.c\<close>): port protocols and the contents
    of the descriptor tables, decoded as the CPU reads them. \<open>Pic\<close> also has what the controllers
    make of the port accesses: mask and vectors of each (\<open>request_vector\<close>).
  \<^item> \<open>Isr\<close> (\<open>interrupts/isr.c\<close>): dispatch, with the handlers a parameter; locale
    \<open>interrupt_system\<close>: an invariant of the handlers is one of the dispatchers.
  \<^item> \<open>Keyboard\<close> (\<open>drivers/keyboard.c\<close>): the ring as a bounded queue (locale \<open>bounded_queue\<close>), scan
    codes to keys. \<open>Keyboard_Race\<close>: the reader one access to the ring at a time, with interrupts
    in between: it is atomic as long as the ring does not overflow, and two races there are.
  \<^item> \<open>Task\<close>, \<open>Task_Reap\<close> (\<open>task/task.c\<close>): the scheduler is round robin and fair (locale
    \<open>nearest_first\<close>), contexts are kept, creation and reaping with their stacks.
  \<^item> \<open>Timer\<close> (\<open>timer/pit.c\<close>): programming the chip, the tick handler.
  \<^item> \<open>Fs\<close> (\<open>fs/fs.c\<close>), \<open>Pack_Initrd\<close> (\<open>tools/pack_initrd.c\<close>): what is packed is found.
  \<^item> \<open>Syscall\<close> (\<open>arch/x86_64/syscalls/syscall.c\<close>): \<open>write\<close> is confined to user memory, \<open>exit\<close>
    returns to the kernel.
  \<^item> \<open>Kernel\<close> (\<open>kernel/kernel.c\<close>, \<open>user_code.c\<close>, and what interrupt stubs and ring switch do to frames
    as values): handlers, boot functions and user program, composed as in the source. The
    breakpoint (\<open>int3\<close>) and the hardware interrupts (\<open>hw_irq\<close>) look for their gate in the table
    that the code has loaded, the latter after interrupt flag and controllers have let them
    through.
  \<^item> \<open>Kernel_Invariant\<close>: the invariant of the whole kernel, the interpretation of
    \<open>interrupt_system\<close>, and the step relation \<open>kernel_step\<close> that interleaves interrupts with
    kernel and user code; the invariant holds in every reachable state, and interrupts in a
    reachable state return or halt, with one exception, \<open>exit(0)\<close> on a bad variadic slot
    (\<open>open_exit\<close>), which is undefined behaviour.
  \<^item> \<open>User_Program\<close>, \<open>Kernel_Boot\<close>, \<open>Boot_Keyboard\<close>, \<open>Boot_Filesystem\<close>: the user program, and the
    timer, keyboard and file system tests of the boot sequence.
  \<^item> \<open>Kernel_Main\<close>: \<open>kernel_main\<close> from power-on to the idle loop; every stage returns and leaves
    the kernel's invariant to the next one.
  \<^item> \<open>Cpu\<close>: registers, stack memory and the instructions that the assembly files use, entry of
    interrupts, C calls under the calling convention. \<open>Assembly\<close> (\<open>interrupts/idt_asm.asm\<close>): the
    stubs instruction by instruction; they fit the exceptions for which the CPU pushes an error
    code, build the C struct and refine the paths of \<open>Kernel\<close>.
    \<open>Descriptor_Load\<close> (\<open>gdt/gdt_asm.asm\<close>), \<open>Ring_Switch\<close> (\<open>kernel/switch_ring.asm\<close>): loading of the
    tables; user mode as a call that returns, with the stay in ring 3 a step relation and a
    second interpretation of \<open>interrupt_system\<close>. \<open>Interrupt_Transparency\<close>: hardware interrupts that
    switch no task change only the variables of their own driver.

  \<^bold>\<open>Environment.\<close> What the sources do not decide is a parameter: devices, addresses of the linker
  and the assembly (\<open>board\<close>), the host's files, the upper half of the 64-bit slot of a variadic
  \<open>int\<close> (\<open>slot_upper\<close>, the calling convention leaves it open; with one value of it, 0x80000000,
  \<open>%d\<close> of 0 is undefined, and \<open>slots_ok\<close> names the others), and the interrupts that arrive
  while the code waits in \<open>hlt\<close> (a list of their effects on the state, \<open>None\<close> if control does not
  come back). The theorems on the boot sequence take requests on the lines of keyboard and timer
  for these effects (\<open>hw_irq\<close>): a request that interrupt flag or mask hold back does nothing,
  and one that finds no gate, the wrong one, or a task switch does not come back. At power-on
  the vectors of the controllers are those of the BIOS (\<open>bios_controller\<close>), the masks are whatever
  the device reads as when \<open>pic_remap\<close> saves them, and the descriptor table is empty.

  \<^bold>\<open>Not modelled.\<close> The boot loader Doomboot (16- and 32-bit assembly), the linker script but for
  the size of the stack, and the build. Of the interrupt controllers: priorities and the bits of
  interrupts in service (requests come one after the other, each acknowledged before the next).
  Of the CPU: protection checks, paging and caches; the
  stack that the assembly uses is a memory beside that of the kernel state, as the locals of C
  functions are not in memory either. Boot functions are sequences without interrupts between
  their statements; arbitrary interleaving of whole operations is the subject of \<open>kernel_step\<close>.
  That an operation may be interrupted half way is covered by \<open>Interrupt_Transparency\<close>, as long as
  no task is switched, for code that does not read the variables of the interrupting driver, and
  for the reader of the keyboard ring by \<open>Keyboard_Race\<close>. \<open>malloc\<close> or \<open>printf\<close> of two tasks that preempt each other is not modelled
  (the code does not guard against it).
\<close>

end
